(* ===== verification/Prelude.thy ===== *)
theory Prelude
  imports Main "HOL-Library.Word" "HOL-Library.Monad_Syntax"
begin

text \<open>
  The vocabulary every other theory of the development shares: machine integers, byte buffers
  with bounds-checked reads and writes, result codes, and the collections of facts the component
  proofs use.

  C memory.  A buffer is the list of its bytes.  \<open>peek\<close> and \<open>poke\<close> are the only ways to read
  and write a part of one; they return \<open>None\<close> when the access leaves the buffer, which is what
  undefined behaviour is in this development.  An operation of type \<open>... \<Rightarrow> 'a option\<close> therefore
  models a C function, \<open>None\<close> standing for an access out of bounds or through a null pointer,
  and a theorem that the result is \<open>Some\<close> is a memory-safety theorem.  C \<open>int\<close>s are \<open>int\<close>; they
  stay far below \<open>2 ^ 31\<close> in the modelled code except where a word type says otherwise.
\<close>

unbundle bit_operations_syntax

type_synonym u8 = "8 word"
type_synonym u16 = "16 word"
type_synonym u32 = "32 word"
type_synonym u64 = "64 word"
type_synonym bytes = "u8 list"

named_theorems buf_simps \<open>facts on buffers\<close>
named_theorems codec_defs \<open>definitions of the codec that its proofs unfold\<close>

section \<open>Result codes\<close>

abbreviation (input) SQLITE_OK :: int where "SQLITE_OK \<equiv> 0"
abbreviation (input) SQLITE_ERROR :: int where "SQLITE_ERROR \<equiv> 1"
abbreviation (input) SQLITE_ABORT_ROLLBACK :: int where "SQLITE_ABORT_ROLLBACK \<equiv> 516"
abbreviation (input) SQLITE_NOMEM :: int where "SQLITE_NOMEM \<equiv> 7"
abbreviation (input) SQLITE_READONLY :: int where "SQLITE_READONLY \<equiv> 8"
abbreviation (input) SQLITE_MISUSE :: int where "SQLITE_MISUSE \<equiv> 21"

section \<open>Buffers\<close>

definition peek :: "bytes \<Rightarrow> int \<Rightarrow> int \<Rightarrow> bytes option" where
  "peek b off n =
     (if 0 \<le> off \<and> 0 \<le> n \<and> off + n \<le> int (length b) then Some (take (nat n) (drop (nat off) b))
      else None)"

definition poke :: "bytes \<Rightarrow> int \<Rightarrow> bytes \<Rightarrow> bytes option" where
  "poke b off d =
     (if 0 \<le> off \<and> off + int (length d) \<le> int (length b)
      then Some (take (nat off) b @ d @ drop (nat off + length d) b) else None)"

text \<open>\<open>memset (b + off, v, n)\<close>.\<close>

definition fill :: "bytes \<Rightarrow> int \<Rightarrow> u8 \<Rightarrow> int \<Rightarrow> bytes option" where
  "fill b off v n = (if 0 \<le> n then poke b off (replicate (nat n) v) else None)"

lemma peek_Some_iff:
  "peek b off n = Some d \<longleftrightarrow>
     0 \<le> off \<and> 0 \<le> n \<and> off + n \<le> int (length b) \<and> d = take (nat n) (drop (nat off) b)"
  by (auto simp: peek_def)

lemma peek_length: "peek b off n = Some d \<Longrightarrow> int (length d) = n"
  by (auto simp: peek_Some_iff)

lemma poke_Some_iff:
  "poke b off d = Some b' \<longleftrightarrow>
     0 \<le> off \<and> off + int (length d) \<le> int (length b)
     \<and> b' = take (nat off) b @ d @ drop (nat off + length d) b"
  by (auto simp: poke_def)

lemma poke_length: "poke b off d = Some b' \<Longrightarrow> length b' = length b"
  by (auto simp: poke_Some_iff)

lemma fill_length: "fill b off v n = Some b' \<Longrightarrow> length b' = length b"
  by (auto simp: fill_def dest: poke_length split: if_splits)

lemma poke_defined:
  "0 \<le> off \<Longrightarrow> off + int (length d) \<le> int (length b) \<Longrightarrow>
     \<exists>b'. poke b off d = Some b' \<and> length b' = length b"
  by (auto simp: poke_def)

lemma peek_defined:
  "0 \<le> off \<Longrightarrow> 0 \<le> n \<Longrightarrow> off + n \<le> int (length b) \<Longrightarrow>
     \<exists>d. peek b off n = Some d \<and> length d = nat n"
  by (auto simp: peek_def)

lemma fill_whole [buf_simps]: "n = int (length b) \<Longrightarrow> fill b 0 v n = Some (replicate (length b) v)"
  by (simp add: fill_def poke_def)

lemma peek_whole [buf_simps]: "n = int (length b) \<Longrightarrow> peek b 0 n = Some b"
  by (simp add: peek_def)

lemma poke_whole [buf_simps]: "length d = length b \<Longrightarrow> poke b 0 d = Some d"
  by (simp add: poke_def)

text \<open>A read of what was just written returns it; a write elsewhere is not seen.\<close>

lemma peek_poke_same:
  "poke b off d = Some b' \<Longrightarrow> n = int (length d) \<Longrightarrow> peek b' off n = Some d"
  by (auto simp: poke_Some_iff peek_def)

lemma peek_poke_before:
  assumes "poke b off d = Some b'" and "o' + n \<le> off" and "0 \<le> o'" and "0 \<le> n"
  shows "peek b' o' n = peek b o' n"
proof -
  from assms have b': "b' = take (nat off) b @ d @ drop (nat off + length d) b"
    and len: "nat off \<le> length b" "length b' = length b"
    by (auto simp: poke_Some_iff)
  have le: "nat o' + nat n \<le> nat off" using assms by linarith
  have "take (nat n) (drop (nat o') b') = take (nat n) (drop (nat o') b)"
    using le len by (simp add: b' take_drop)
  then show ?thesis by (simp add: peek_def len)
qed

lemma peek_poke_after:
  assumes "poke b off d = Some b'" and "off + int (length d) \<le> o'" and "0 \<le> n"
  shows "peek b' o' n = peek b o' n"
proof -
  from assms have b': "b' = take (nat off) b @ d @ drop (nat off + length d) b"
    and len: "nat off \<le> length b" "length b' = length b" and o: "0 \<le> off"
    by (auto simp: poke_Some_iff)
  from assms(2) o have le: "nat off + length d \<le> nat o'" by linarith
  then obtain k where k: "nat o' = nat off + length d + k" using le_Suc_ex by blast
  have "drop (nat o') b' = drop (nat o') b"
    using len by (simp add: b' k drop_drop add.assoc add.commute add.left_commute)
  then show ?thesis by (simp add: peek_def len)
qed

text \<open>Two adjacent writes are one.\<close>

lemma poke_poke_append:
  assumes "poke b off d = Some b'" and "o' = off + int (length d)"
    and "o' + int (length e) \<le> int (length b)"
  shows "poke b' o' e = poke b off (d @ e)"
proof -
  from assms have b': "b' = take (nat off) b @ d @ drop (nat off + length d) b"
    and len: "nat off \<le> length b" "length b' = length b" and o: "0 \<le> off"
    by (auto simp: poke_Some_iff)
  have o': "nat o' = nat off + length d" using assms o by linarith
  have "take (nat o') b' = take (nat off) b @ d"
    using len by (simp add: b' o')
  moreover have "drop (nat o' + length e) b' = drop (nat off + length (d @ e)) b"
    using len by (simp add: b' o' add.assoc add.commute add.left_commute)
  ultimately show ?thesis
    using assms o by (simp add: poke_def len)
qed

lemma poke_overwrite:
  assumes "poke b off d = Some b'" and "length d \<le> length e"
  shows "poke b' off e = poke b off e"
proof -
  from assms have b': "b' = take (nat off) b @ d @ drop (nat off + length d) b"
    and len: "nat off \<le> length b" "length b' = length b" and o: "0 \<le> off"
    by (auto simp: poke_Some_iff)
  obtain k where k: "length e = length d + k" using assms(2) le_Suc_ex by blast
  have "drop (nat off + length e) b' = drop (nat off + length e) b"
    using len by (simp add: b' k add.assoc add.commute add.left_commute)
  moreover have "take (nat off) b' = take (nat off) b" using len by (simp add: b')
  ultimately show ?thesis by (simp add: poke_def len)
qed

lemma peek_append_left:
  "off + n \<le> int (length a) \<Longrightarrow> 0 \<le> off \<Longrightarrow> 0 \<le> n \<Longrightarrow> peek (a @ b) off n = peek a off n"
  by (auto simp: peek_def nat_le_iff)

lemma peek_drop:
  assumes "0 \<le> k" "k \<le> int (length b)" "0 \<le> off" "0 \<le> n"
  shows "peek (drop (nat k) b) off n = peek b (k + off) n"
proof -
  have "nat (k + off) = nat off + nat k" using assms by linarith
  then have "drop (nat off) (drop (nat k) b) = drop (nat (k + off)) b" by simp
  moreover have "(off + n \<le> int (length (drop (nat k) b))) = (k + off + n \<le> int (length b))"
    using assms by (simp add: of_nat_diff nat_le_iff algebra_simps)
  ultimately show ?thesis using assms by (simp add: peek_def)
qed

section \<open>Early returns\<close>

text \<open>
  \<open>if((rc = m) != SQLITE_OK) return rc; ...\<close>: the continuation runs only on success, and the state
  reached by a failing call is the state at the return.
\<close>

definition on_ok :: "(int \<times> 's) option \<Rightarrow> ('s \<Rightarrow> (int \<times> 's) option) \<Rightarrow> (int \<times> 's) option" where
  "on_ok m f = do { (rc, s) \<leftarrow> m; if rc \<noteq> SQLITE_OK then Some (rc, s) else f s }"

lemma on_ok_OK [simp]: "on_ok (Some (0, s)) f = f s"
  by (simp add: on_ok_def)

lemma on_ok_err [simp]: "rc \<noteq> 0 \<Longrightarrow> on_ok (Some (rc, s)) f = Some (rc, s)"
  by (simp add: on_ok_def)

lemma on_ok_None [simp]: "on_ok None f = None"
  by (simp add: on_ok_def)

lemma on_ok_success: "on_ok m f = Some (0, t) \<longleftrightarrow> (\<exists>s. m = Some (0, s) \<and> f s = Some (0, t))"
  by (cases m) (auto simp: on_ok_def split: if_splits)

lemma on_ok_cases:
  assumes "on_ok m f = Some (rc, t)"
  obtains (ok) s where "m = Some (0, s)" "f s = Some (rc, t)" | (err) "rc \<noteq> 0" "m = Some (rc, t)"
  using assms by (cases m) (auto simp: on_ok_def split: if_splits)

text \<open>A property of the state that every call keeps is kept by the sequence.\<close>

lemma on_ok_inv:
  assumes "on_ok m f = Some (rc, t)"
    and "\<And>s rc. m = Some (rc, s) \<Longrightarrow> P s"
    and "\<And>s. m = Some (0, s) \<Longrightarrow> f s = Some (rc, t) \<Longrightarrow> P t"
  shows "P t"
  using assms(1) by (cases rule: on_ok_cases) (auto dest: assms(2,3))

end
