(* ===== verification/Cipher_Util.thy ===== *)
theory Cipher_Util
  imports Prelude
begin

text \<open>
  The utility routines at the start of \<^verbatim>\<open>sqlcipher.c\<close>: hexadecimal conversion of keys and salts,
  and the constant-time memory routines (\<open>sqlcipher_memset\<close>, \<open>sqlcipher_ismemset\<close>,
  \<open>sqlcipher_memcmp\<close>).  The loops are kept as loops over an index; each has a lemma that gives
  its closed form on lists, which the key-derivation and page-cipher proofs use.
\<close>

section \<open>Hexadecimal conversion\<close>

definition cipher_hex2int :: "u8 \<Rightarrow> u8" where
  "cipher_hex2int c =
     (if 48 \<le> c \<and> c \<le> 57 then c - 48
      else if 65 \<le> c \<and> c \<le> 70 then c - 65 + 10
      else if 97 \<le> c \<and> c \<le> 102 then c - 97 + 10
      else 0)"

text \<open>The loop \<open>for(i = 0; i < sz; i += 2)\<close> of \<open>cipher_hex2bin\<close>, from index \<open>i\<close> on.\<close>

function hex2bin_loop :: "bytes \<Rightarrow> int \<Rightarrow> int \<Rightarrow> bytes \<Rightarrow> bytes option" where
  "hex2bin_loop hex sz i out =
     (if i < sz then
        do { h0 \<leftarrow> peek hex i 1;
             h1 \<leftarrow> peek hex (i + 1) 1;
             out' \<leftarrow> poke out (i div 2) [push_bit 4 (cipher_hex2int (hd h0)) OR cipher_hex2int (hd h1)];
             hex2bin_loop hex sz (i + 2) out' }
      else Some out)"
  by pat_completeness auto
termination
  by (relation "measure (\<lambda>(hex, sz, i, out). nat (sz - i))") auto

declare hex2bin_loop.simps [simp del]

definition cipher_hex2bin :: "bytes \<Rightarrow> int \<Rightarrow> bytes \<Rightarrow> bytes option" where
  "cipher_hex2bin hex sz out = hex2bin_loop hex sz 0 out"

text \<open>The two characters \<open>%02x\<close> prints for a byte.\<close>

definition hexdig :: "u8 \<Rightarrow> u8" where
  "hexdig n = (if n < 10 then 48 + n else 87 + n)"

definition hex2 :: "u8 \<Rightarrow> bytes" where
  "hex2 b = [hexdig (drop_bit 4 b), hexdig (b AND 15)]"

text \<open>
  \<open>sqlite3_snprintf(3, out + (i*2), "%02x ", in[i])\<close> stores two digits and the terminating zero,
  the trailing space of the format being cut off by the size argument.
\<close>

function bin2hex_loop :: "bytes \<Rightarrow> int \<Rightarrow> int \<Rightarrow> bytes \<Rightarrow> bytes option" where
  "bin2hex_loop inb sz i out =
     (if i < sz then
        do { b \<leftarrow> peek inb i 1;
             out' \<leftarrow> poke out (i * 2) (hex2 (hd b) @ [0]);
             bin2hex_loop inb sz (i + 1) out' }
      else Some out)"
  by pat_completeness auto
termination
  by (relation "measure (\<lambda>(inb, sz, i, out). nat (sz - i))") auto

declare bin2hex_loop.simps [simp del]

definition cipher_bin2hex :: "bytes \<Rightarrow> int \<Rightarrow> bytes \<Rightarrow> bytes option" where
  "cipher_bin2hex inb sz out = bin2hex_loop inb sz 0 out"

definition is_hex_digit :: "u8 \<Rightarrow> bool" where
  "is_hex_digit c \<longleftrightarrow>
     \<not> ((c < 48 \<or> 57 < c) \<and> (c < 65 \<or> 70 < c) \<and> (c < 97 \<or> 102 < c))"

function isHex_loop :: "bytes \<Rightarrow> int \<Rightarrow> int \<Rightarrow> bool option" where
  "isHex_loop hex sz i =
     (if i < sz then
        do { c \<leftarrow> peek hex i 1;
             if \<not> is_hex_digit (hd c) then Some False else isHex_loop hex sz (i + 1) }
      else Some True)"
  by pat_completeness auto
termination
  by (relation "measure (\<lambda>(hex, sz, i). nat (sz - i))") auto

declare isHex_loop.simps [simp del]

definition cipher_isHex :: "bytes \<Rightarrow> int \<Rightarrow> bool option" where
  "cipher_isHex hex sz = isHex_loop hex sz 0"

section \<open>Constant-time memory routines\<close>

definition sqlcipher_memset :: "bytes option \<Rightarrow> u8 \<Rightarrow> int \<Rightarrow> bytes option option" where
  "sqlcipher_memset v val len =
     (case v of None \<Rightarrow> Some None | Some a \<Rightarrow> map_option Some (fill a 0 val len))"

text \<open>The accumulating loops: no early exit on the first difference.\<close>

definition sqlcipher_ismemset :: "bytes \<Rightarrow> u8 \<Rightarrow> int \<Rightarrow> int option" where
  "sqlcipher_ismemset v val len =
     do { a \<leftarrow> peek v 0 (max 0 len);
          let result = fold (\<lambda>x r. r OR (x XOR val)) a 0;
          Some (of_bool (result \<noteq> 0)) }"

definition sqlcipher_memcmp :: "bytes \<Rightarrow> bytes \<Rightarrow> int \<Rightarrow> int option" where
  "sqlcipher_memcmp v0 v1 len =
     do { a0 \<leftarrow> peek v0 0 (max 0 len);
          a1 \<leftarrow> peek v1 0 (max 0 len);
          let result = fold (\<lambda>(x, y) r. r OR (x XOR y)) (zip a0 a1) 0;
          Some (of_bool (result \<noteq> 0)) }"

section \<open>Closed forms\<close>

fun hexpairs :: "bytes \<Rightarrow> bytes" where
  "hexpairs (a # b # r) = (push_bit 4 (cipher_hex2int a) OR cipher_hex2int b) # hexpairs r"
| "hexpairs _ = []"

lemma length_hexpairs [simp]: "length (hexpairs h) = length h div 2"
  by (induction h rule: hexpairs.induct) auto

lemma length_hex2 [simp]: "length (hex2 b) = 2"
  by (simp add: hex2_def)

lemma length_concat_hex2 [simp]: "length (concat (map hex2 bs)) = 2 * length bs"
  by (induction bs) auto

lemma nibble_cases: "\<forall>k \<in> set [0..<16]. cipher_hex2int (hexdig (word_of_nat k)) = word_of_nat k
    \<and> is_hex_digit (hexdig (word_of_nat k)) \<and> hexdig (word_of_nat k) \<noteq> 0"
  by (simp add: upt_rec cipher_hex2int_def hexdig_def is_hex_digit_def)

lemma nibble:
  assumes "unat n < 16"
  shows "cipher_hex2int (hexdig n) = n" and "is_hex_digit (hexdig n)" and "hexdig n \<noteq> 0"
  using nibble_cases [THEN bspec, of "unat n"] assms by simp_all

lemma unat_hi: "unat (drop_bit 4 (b :: u8)) < 16"
proof -
  have "unat b < 256" using unsigned_less [of b, where ?'a = nat] by simp
  then show ?thesis by (simp add: drop_bit_eq_div unat_div_distrib)
qed

lemma unat_lo: "unat (b AND (15 :: u8)) < 16"
proof -
  have "b AND 15 = take_bit 4 b" by (simp add: take_bit_eq_mask mask_numeral)
  then show ?thesis by (simp add: take_bit_eq_mod unat_mod_distrib)
qed

lemma nibbles_join: "push_bit 4 (drop_bit 4 b) OR (b AND 15) = (b :: u8)"
proof -
  have "b AND 15 = take_bit 4 b" by (simp add: take_bit_eq_mask mask_numeral)
  then show ?thesis by (simp add: bit_eq_iff bit_simps) auto
qed

lemma hexpairs_hex2_append: "hexpairs (concat (map hex2 bs) @ r) = bs @ hexpairs r"
  by (induction bs) (auto simp: hex2_def nibble unat_hi unat_lo nibbles_join)

lemma hexpairs_hex2 [simp]: "hexpairs (concat (map hex2 bs)) = bs"
  using hexpairs_hex2_append [of bs "[]"] by simp

lemma hex2bin_loop_closed:
  assumes "0 \<le> i" "even i" "even sz" "i \<le> sz" "sz \<le> int (length hex)" "sz \<le> 2 * int (length out)"
  shows "hex2bin_loop hex sz i out =
     poke out (i div 2) (hexpairs (take (nat (sz - i)) (drop (nat i) hex)))"
  using assms
proof (induction hex sz i out rule: hex2bin_loop.induct)
  case (1 hex sz i out)
  show ?case
  proof (cases "i < sz")
    case False
    with "1.prems" show ?thesis by (simp add: hex2bin_loop.simps poke_def)
  next
    case True
    with "1.prems" have i2: "i + 2 \<le> sz" by presburger
    then have d: "drop (nat i) hex = hex ! nat i # hex ! Suc (nat i) # drop (nat i + 2) hex"
      using "1.prems" by (simp add: Cons_nth_drop_Suc [symmetric])
    have pk: "peek hex i 1 = Some [hex ! nat i]" "peek hex (i + 1) 1 = Some [hex ! Suc (nat i)]"
      using "1.prems" i2 by (auto simp: peek_def take_Suc_conv_app_nth nat_add_distrib d)
    let ?x = "push_bit 4 (cipher_hex2int (hex ! nat i)) OR cipher_hex2int (hex ! Suc (nat i))"
    let ?r = "hexpairs (take (nat (sz - (i + 2))) (drop (nat (i + 2)) hex))"
    have "nat (sz - i) = Suc (Suc (nat (sz - (i + 2))))" "nat (i + 2) = nat i + 2"
      using i2 "1.prems" by linarith+
    then have pairs: "hexpairs (take (nat (sz - i)) (drop (nat i) hex)) = ?x # ?r"
      by (simp add: d)
    have half: "0 \<le> i div 2" "i div 2 + 1 \<le> int (length out)" "(i + 2) div 2 = i div 2 + 1"
      using "1.prems" i2 by presburger+
    obtain out' where out': "poke out (i div 2) [?x] = Some out'" and l: "length out' = length out"
      using poke_defined [of "i div 2" "[?x]" out] half by auto
    have IH: "hex2bin_loop hex sz (i + 2) out' = poke out' ((i + 2) div 2) ?r"
      using "1.IH" [OF True pk(1) pk(2), of out'] out' l "1.prems" i2 by simp
    have "poke out' ((i + 2) div 2) ?r = poke out (i div 2) ([?x] @ ?r)"
      by (intro poke_poke_append [OF out']) (use "1.prems" i2 half in \<open>auto\<close>)
    with IH show ?thesis
      by (simp add: hex2bin_loop.simps [of hex sz i out] True pk out' pairs)
  qed
qed

lemma cipher_hex2bin_closed:
  assumes "even sz" "0 \<le> sz" "sz \<le> int (length hex)" "sz \<le> 2 * int (length out)"
  shows "cipher_hex2bin hex sz out = poke out 0 (hexpairs (take (nat sz) hex))"
  using hex2bin_loop_closed [of 0 sz hex out] assms by (simp add: cipher_hex2bin_def)

lemma bin2hex_loop_closed:
  assumes "0 \<le> i" "i < sz" "sz \<le> int (length inb)" "2 * sz + 1 \<le> int (length out)"
  shows "bin2hex_loop inb sz i out =
     poke out (i * 2) (concat (map hex2 (take (nat (sz - i)) (drop (nat i) inb))) @ [0])"
  using assms
proof (induction inb sz i out rule: bin2hex_loop.induct)
  case (1 inb sz i out)
  let ?h = "hex2 (inb ! nat i)"
  have pk: "peek inb i 1 = Some [inb ! nat i]"
    and d: "drop (nat i) inb = inb ! nat i # drop (nat i + 1) inb"
    using "1.prems" by (auto simp: peek_def take_Suc_conv_app_nth Cons_nth_drop_Suc [symmetric])
  obtain out' where out': "poke out (i * 2) (?h @ [0]) = Some out'" and l: "length out' = length out"
    using poke_defined [of "i * 2" "?h @ [0]" out] "1.prems" by auto
  obtain o2 where o2: "poke out (i * 2) ?h = Some o2" and l2: "length o2 = length out"
    using poke_defined [of "i * 2" ?h out] "1.prems" by auto
  have step: "bin2hex_loop inb sz i out = bin2hex_loop inb sz (i + 1) out'"
    using "1.prems" by (simp add: bin2hex_loop.simps [of inb sz i out] pk out')
  show ?case
  proof (cases "i + 1 < sz")
    case False
    then have "nat (sz - i) = 1" using "1.prems" by linarith
    then show ?thesis using False step out' by (simp add: bin2hex_loop.simps [of inb sz "i + 1"] d)
  next
    case True
    let ?r = "concat (map hex2 (take (nat (sz - (i + 1))) (drop (nat (i + 1)) inb)))"
    have n: "nat (sz - i) = Suc (nat (sz - (i + 1)))" "nat (i + 1) = nat i + 1"
      using "1.prems" by linarith+
    have len: "int (length ?r) = 2 * (sz - i - 1)" using True "1.prems" by simp
    have "poke out' ((i + 1) * 2) (?r @ [0]) = poke out (i * 2) (?h @ ?r @ [0])"
    proof -
      have "poke o2 ((i + 1) * 2) [0] = Some out'"
        using poke_poke_append [OF o2, of "(i + 1) * 2" "[0]"] "1.prems" out' by simp
      then have "poke out' ((i + 1) * 2) (?r @ [0]) = poke o2 ((i + 1) * 2) (?r @ [0])"
        by (intro poke_overwrite) (use len True in auto)
      also have "\<dots> = poke out (i * 2) (?h @ ?r @ [0])"
        using "1.prems" len True by (intro poke_poke_append [OF o2]) auto
      finally show ?thesis .
    qed
    with "1.IH" [OF "1.prems"(2) pk, of out'] out' l "1.prems" True show ?thesis
      by (simp add: step d n)
  qed
qed

lemma cipher_bin2hex_closed:
  assumes "0 < sz" "sz \<le> int (length inb)" "2 * sz + 1 \<le> int (length out)"
  shows "cipher_bin2hex inb sz out = poke out 0 (concat (map hex2 (take (nat sz) inb)) @ [0])"
  using bin2hex_loop_closed [of 0 sz inb out] assms by (simp add: cipher_bin2hex_def)

lemma hex2_is_hex: "c \<in> set (hex2 b) \<Longrightarrow> is_hex_digit c"
  by (auto simp: hex2_def nibble unat_hi unat_lo)

lemma isHex_loop_closed:
  assumes "0 \<le> i" "i \<le> sz" "sz \<le> int (length hex)"
  shows "isHex_loop hex sz i = Some (list_all is_hex_digit (take (nat (sz - i)) (drop (nat i) hex)))"
  using assms
proof (induction hex sz i rule: isHex_loop.induct)
  case (1 hex sz i)
  show ?case
  proof (cases "i < sz")
    case False
    with "1.prems" show ?thesis by (simp add: isHex_loop.simps)
  next
    case True
    have pk: "peek hex i 1 = Some [hex ! nat i]"
      and d: "drop (nat i) hex = hex ! nat i # drop (nat i + 1) hex"
      using "1.prems" True
      by (auto simp: peek_def take_Suc_conv_app_nth Cons_nth_drop_Suc [symmetric])
    have n: "nat (sz - i) = Suc (nat (sz - (i + 1)))" "nat (i + 1) = nat i + 1"
      using "1.prems" True by linarith+
    show ?thesis
      using "1.IH" [OF True pk] "1.prems" True
      by (simp add: isHex_loop.simps [of hex sz i] pk d n)
  qed
qed

lemma cipher_isHex_closed:
  "0 \<le> sz \<Longrightarrow> sz \<le> int (length hex) \<Longrightarrow>
     cipher_isHex hex sz = Some (list_all is_hex_digit (take (nat sz) hex))"
  using isHex_loop_closed [of 0 sz hex] by (simp add: cipher_isHex_def)

lemma or_eq_0: "(a OR b = 0) \<longleftrightarrow> a = 0 \<and> b = (0 :: u8)"
  by (auto simp: bit_eq_iff bit_simps)

lemma xor_eq_0: "(a XOR b = 0) \<longleftrightarrow> a = (b :: u8)"
  by (auto simp: bit_eq_iff bit_simps)

lemma fold_or_xor: "fold (\<lambda>x r. r OR (x XOR v)) a r = (0 :: u8) \<longleftrightarrow> r = 0 \<and> (\<forall>x \<in> set a. x = v)"
  by (induction a arbitrary: r) (auto simp: or_eq_0 xor_eq_0)

lemma fold_or_xor2:
  "length a = length b \<Longrightarrow>
     fold (\<lambda>(x, y) r. r OR (x XOR y)) (zip a b) r = (0 :: u8) \<longleftrightarrow> r = 0 \<and> a = b"
  by (induction a b arbitrary: r rule: list_induct2) (auto simp: or_eq_0 xor_eq_0)

lemma sqlcipher_memcmp_closed:
  assumes "0 \<le> n" "n \<le> int (length a)" "n \<le> int (length b)"
  shows "sqlcipher_memcmp a b n = Some (of_bool (take (nat n) a \<noteq> take (nat n) b))"
proof -
  have "length (take (nat n) a) = length (take (nat n) b)" using assms by simp
  from fold_or_xor2 [OF this, of 0] show ?thesis
    using assms by (simp add: sqlcipher_memcmp_def peek_def)
qed

lemma sqlcipher_ismemset_closed:
  assumes "0 \<le> n" "n \<le> int (length a)"
  shows "sqlcipher_ismemset a v n = Some (of_bool (take (nat n) a \<noteq> replicate (nat n) v))"
proof -
  have "(\<forall>x \<in> set (take (nat n) a). x = v) \<longleftrightarrow> take (nat n) a = replicate (nat n) v"
    using assms by (auto simp: list_eq_iff_nth_eq all_set_conv_all_nth)
  then show ?thesis
    using assms by (auto simp: sqlcipher_ismemset_def peek_def fold_or_xor)
qed

end
