(* ===== verification/Endian.thy ===== *)
theory Endian
  imports Prelude
begin

text \<open>
  Fixed-width integers in memory: \<open>sqlite3Put4byte\<close> and \<open>sqlite3Get4byte\<close> (big endian) of
  \<^verbatim>\<open>util.c\<close>, and \<open>sqlcipher_put4byte_le\<close> (little endian) of \<^verbatim>\<open>sqlcipher.c\<close>, which writes the page
  number that enters a page's authentication code.
\<close>

definition sqlite3Put4byte :: "u32 \<Rightarrow> bytes" where
  "sqlite3Put4byte v = [ucast (drop_bit 24 v), ucast (drop_bit 16 v), ucast (drop_bit 8 v), ucast v]"

definition sqlite3Get4byte :: "bytes \<Rightarrow> u32 option" where
  "sqlite3Get4byte p =
     do { b \<leftarrow> peek p 0 4;
          Some (push_bit 24 (ucast (b ! 0)) OR push_bit 16 (ucast (b ! 1))
                OR push_bit 8 (ucast (b ! 2)) OR ucast (b ! 3)) }"

definition sqlcipher_put4byte_le :: "u32 \<Rightarrow> bytes" where
  "sqlcipher_put4byte_le v = [ucast v, ucast (drop_bit 8 v), ucast (drop_bit 16 v), ucast (drop_bit 24 v)]"

lemma length_put4byte [simp]:
  "length (sqlite3Put4byte v) = 4" "length (sqlcipher_put4byte_le v) = 4"
  by (simp_all add: sqlite3Put4byte_def sqlcipher_put4byte_le_def)

lemma le_is_rev_be: "sqlcipher_put4byte_le v = rev (sqlite3Put4byte v)"
  by (simp add: sqlite3Put4byte_def sqlcipher_put4byte_le_def)

lemma join4:
  "push_bit 24 (ucast (ucast (drop_bit 24 v) :: u8)) OR push_bit 16 (ucast (ucast (drop_bit 16 v) :: u8))
     OR push_bit 8 (ucast (ucast (drop_bit 8 v) :: u8)) OR ucast (ucast v :: u8) = (v :: u32)"
    (is "?l = v")
proof (rule bit_word_eqI)
  fix n assume "n < LENGTH(32)"
  then consider "n < 8" | "8 \<le> n" "n < 16" | "16 \<le> n" "n < 24" | "24 \<le> n" "n < 32"
    by force
  then show "bit ?l n = bit v n"
    by cases (auto simp: bit_simps less_diff_conv)
qed

lemma get_put4byte: "sqlite3Get4byte (sqlite3Put4byte v @ r) = Some v"
  by (simp add: sqlite3Get4byte_def sqlite3Put4byte_def peek_def join4)

lemma put4byte_inj [simp]: "sqlite3Put4byte v = sqlite3Put4byte u \<longleftrightarrow> v = u"
  by (metis get_put4byte option.inject)

lemma put4byte_le_inj [simp]: "sqlcipher_put4byte_le v = sqlcipher_put4byte_le u \<longleftrightarrow> v = u"
  by (simp add: le_is_rev_be)

end
