(* ===== verification/Util.thy ===== *)
theory Util
  imports Prelude
begin

text \<open>
  The parts of \<^verbatim>\<open>util.c\<close>, \<^verbatim>\<open>global.c\<close> and \<^verbatim>\<open>pragma.c\<close> that the codec and its pragmas rest on:
  the case-folding and character-class tables, string comparison, conversion of text to integers
  and booleans, big-endian and variable-length integers.

  A C string is the list of its bytes without the terminator; \<open>at z i\<close> is \<open>z[i]\<close>, the terminator
  being the byte after the last one.  The source reads a string left to right and stops at the
  terminator, so no read goes past it.
\<close>

definition at :: "bytes \<Rightarrow> nat \<Rightarrow> u8" where
  "at z i = (if i < length z then z ! i else 0)"

text \<open>A string literal as bytes.\<close>

definition cstr :: "string \<Rightarrow> bytes" where
  "cstr s = map of_char s"

lemma at_simps [simp]: "at [] i = 0" "at (c # z) 0 = c" "at (c # z) (Suc i) = at z i"
  by (simp_all add: at_def)

section \<open>Character tables\<close>

definition sqlite3UpperToLower :: bytes where
  "sqlite3UpperToLower =
    [0, 1, 2, 3, 4, 5, 6, 7, 8, 9, 10, 11, 12, 13, 14, 15, 16, 17,
     18, 19, 20, 21, 22, 23, 24, 25, 26, 27, 28, 29, 30, 31, 32, 33, 34, 35,
     36, 37, 38, 39, 40, 41, 42, 43, 44, 45, 46, 47, 48, 49, 50, 51, 52, 53,
     54, 55, 56, 57, 58, 59, 60, 61, 62, 63, 64, 97, 98, 99, 100, 101, 102, 103,
     104, 105, 106, 107, 108, 109, 110, 111, 112, 113, 114, 115, 116, 117, 118, 119, 120, 121,
     122, 91, 92, 93, 94, 95, 96, 97, 98, 99, 100, 101, 102, 103, 104, 105, 106, 107,
     108, 109, 110, 111, 112, 113, 114, 115, 116, 117, 118, 119, 120, 121, 122, 123, 124, 125,
     126, 127, 128, 129, 130, 131, 132, 133, 134, 135, 136, 137, 138, 139, 140, 141, 142, 143,
     144, 145, 146, 147, 148, 149, 150, 151, 152, 153, 154, 155, 156, 157, 158, 159, 160, 161,
     162, 163, 164, 165, 166, 167, 168, 169, 170, 171, 172, 173, 174, 175, 176, 177, 178, 179,
     180, 181, 182, 183, 184, 185, 186, 187, 188, 189, 190, 191, 192, 193, 194, 195, 196, 197,
     198, 199, 200, 201, 202, 203, 204, 205, 206, 207, 208, 209, 210, 211, 212, 213, 214, 215,
     216, 217, 218, 219, 220, 221, 222, 223, 224, 225, 226, 227, 228, 229, 230, 231, 232, 233,
     234, 235, 236, 237, 238, 239, 240, 241, 242, 243, 244, 245, 246, 247, 248, 249, 250, 251,
     252, 253, 254, 255]"

definition sqlite3CtypeMap :: bytes where
  "sqlite3CtypeMap =
    [0, 0, 0, 0, 0, 0, 0, 0, 0, 1, 1, 1, 1, 1, 0, 0,
     0, 0, 0, 0, 0, 0, 0, 0, 0, 0, 0, 0, 0, 0, 0, 0,
     1, 0, 128, 0, 64, 0, 0, 128, 0, 0, 0, 0, 0, 0, 0, 0,
     12, 12, 12, 12, 12, 12, 12, 12, 12, 12, 0, 0, 0, 0, 0, 0,
     0, 10, 10, 10, 10, 10, 10, 2, 2, 2, 2, 2, 2, 2, 2, 2,
     2, 2, 2, 2, 2, 2, 2, 2, 2, 2, 2, 128, 0, 0, 0, 64,
     128, 42, 42, 42, 42, 42, 42, 34, 34, 34, 34, 34, 34, 34, 34, 34,
     34, 34, 34, 34, 34, 34, 34, 34, 34, 34, 34, 0, 0, 0, 0, 0,
     64, 64, 64, 64, 64, 64, 64, 64, 64, 64, 64, 64, 64, 64, 64, 64,
     64, 64, 64, 64, 64, 64, 64, 64, 64, 64, 64, 64, 64, 64, 64, 64,
     64, 64, 64, 64, 64, 64, 64, 64, 64, 64, 64, 64, 64, 64, 64, 64,
     64, 64, 64, 64, 64, 64, 64, 64, 64, 64, 64, 64, 64, 64, 64, 64,
     64, 64, 64, 64, 64, 64, 64, 64, 64, 64, 64, 64, 64, 64, 64, 64,
     64, 64, 64, 64, 64, 64, 64, 64, 64, 64, 64, 64, 64, 64, 64, 64,
     64, 64, 64, 64, 64, 64, 64, 64, 64, 64, 64, 64, 64, 64, 64, 64,
     64, 64, 64, 64, 64, 64, 64, 64, 64, 64, 64, 64, 64, 64, 64, 64]"

definition UpperToLower :: "u8 \<Rightarrow> u8" where
  "UpperToLower c = sqlite3UpperToLower ! unat c"

definition sqlite3Isspace :: "u8 \<Rightarrow> bool" where
  "sqlite3Isspace x \<longleftrightarrow> (sqlite3CtypeMap ! unat x) AND 1 \<noteq> 0"

definition sqlite3Isdigit :: "u8 \<Rightarrow> bool" where
  "sqlite3Isdigit x \<longleftrightarrow> (sqlite3CtypeMap ! unat x) AND 4 \<noteq> 0"

definition sqlite3Isxdigit :: "u8 \<Rightarrow> bool" where
  "sqlite3Isxdigit x \<longleftrightarrow> (sqlite3CtypeMap ! unat x) AND 8 \<noteq> 0"

text \<open>What the tables say, checked entry by entry.\<close>

lemma UpperToLower_table:
  "sqlite3UpperToLower =
     map (\<lambda>i. word_of_nat (if 65 \<le> i \<and> i \<le> 90 then i + 32 else i)) [0..<256]"
  by (simp add: sqlite3UpperToLower_def upt_rec)

lemma CtypeMap_digit: "map (\<lambda>x. x AND 4 \<noteq> 0) sqlite3CtypeMap = map (\<lambda>i. 48 \<le> i \<and> i \<le> 57) [0..<256]"
  by (simp add: sqlite3CtypeMap_def upt_rec)

lemma CtypeMap_xdigit: "map (\<lambda>x. x AND 8 \<noteq> 0) sqlite3CtypeMap =
    map (\<lambda>i. 48 \<le> i \<and> i \<le> 57 \<or> 65 \<le> i \<and> i \<le> 70 \<or> 97 \<le> i \<and> i \<le> 102) [0..<256]"
  by (simp add: sqlite3CtypeMap_def upt_rec)

lemma CtypeMap_space: "map (\<lambda>x. x AND 1 \<noteq> 0) sqlite3CtypeMap =
    map (\<lambda>i. i = 32 \<or> 9 \<le> i \<and> i \<le> 13) [0..<256]"
  by (simp add: sqlite3CtypeMap_def upt_rec)

lemma unat_u8: "unat (c :: u8) < 256"
  using unsigned_less [of c, where ?'a = nat] by simp

lemma length_CtypeMap: "length sqlite3CtypeMap = 256"
  using arg_cong [OF CtypeMap_digit, of length] by simp

lemma UpperToLower_eq:
  "UpperToLower c = (if 65 \<le> unat c \<and> unat c \<le> 90 then word_of_nat (unat c + 32) else c)"
  by (simp add: UpperToLower_def UpperToLower_table unat_u8)

lemma Isdigit_iff [simp]: "sqlite3Isdigit c \<longleftrightarrow> 48 \<le> unat c \<and> unat c \<le> 57"
  using arg_cong [OF CtypeMap_digit, of "\<lambda>l. l ! unat c"]
  by (simp add: sqlite3Isdigit_def unat_u8 length_CtypeMap)

lemma Isxdigit_iff: "sqlite3Isxdigit c \<longleftrightarrow>
    48 \<le> unat c \<and> unat c \<le> 57 \<or> 65 \<le> unat c \<and> unat c \<le> 70 \<or> 97 \<le> unat c \<and> unat c \<le> 102"
  using arg_cong [OF CtypeMap_xdigit, of "\<lambda>l. l ! unat c"]
  by (simp add: sqlite3Isxdigit_def unat_u8 length_CtypeMap)

lemma Isspace_iff: "sqlite3Isspace c \<longleftrightarrow> unat c = 32 \<or> 9 \<le> unat c \<and> unat c \<le> 13"
  using arg_cong [OF CtypeMap_space, of "\<lambda>l. l ! unat c"]
  by (simp add: sqlite3Isspace_def unat_u8 length_CtypeMap)

lemma UpperToLower_0_iff [simp]: "UpperToLower c = 0 \<longleftrightarrow> c = 0"
proof -
  have "word_of_nat (unat c + 32) \<noteq> (0 :: u8)" if "unat c \<le> 90"
    using that by (simp add: word_of_nat_eq_0_iff take_bit_eq_mod del: of_nat_add) presburger
  then show ?thesis by (auto simp: UpperToLower_eq)
qed

lemma UpperToLower_0 [simp]: "UpperToLower 0 = 0"
  by simp

section \<open>String comparison\<close>

text \<open>\<open>sqlite3StrICmp\<close>: the loop over the two strings, from the current positions on.\<close>

function sqlite3StrICmp :: "bytes \<Rightarrow> bytes \<Rightarrow> int" where
  "sqlite3StrICmp a b =
     (let c = at a 0; x = at b 0 in
      if c = x then (if c = 0 then 0 else sqlite3StrICmp (tl a) (tl b))
      else (let d = uint (UpperToLower c) - uint (UpperToLower x) in
            if d \<noteq> 0 then d else sqlite3StrICmp (tl a) (tl b)))"
  by pat_completeness auto
termination
proof (relation "measure (\<lambda>(a, b). length a)", goal_cases)
  case 1
  show ?case by simp
next
  case (2 a b c x)
  then show ?case by (cases a) auto
next
  case (3 a b c x d)
  then have "UpperToLower c = UpperToLower x" by (simp add: word_uint_eq_iff)
  with 3 show ?case by (cases a) (auto simp: at_def split: if_splits)
qed

declare sqlite3StrICmp.simps [simp del]

definition sqlite3_stricmp :: "bytes option \<Rightarrow> bytes option \<Rightarrow> int" where
  "sqlite3_stricmp zLeft zRight =
     (case zLeft of
        None \<Rightarrow> (case zRight of Some _ \<Rightarrow> - 1 | None \<Rightarrow> 0)
      | Some l \<Rightarrow> (case zRight of None \<Rightarrow> 1 | Some r \<Rightarrow> sqlite3StrICmp l r))"

text \<open>\<open>while( N-- > 0 && *a!=0 && UpperToLower[*a]==UpperToLower[*b] )\<close> and the return after it.\<close>

function strnicmp_loop :: "bytes \<Rightarrow> bytes \<Rightarrow> int \<Rightarrow> int" where
  "strnicmp_loop a b n =
     (if n \<le> 0 then 0
      else if at a 0 \<noteq> 0 \<and> UpperToLower (at a 0) = UpperToLower (at b 0)
      then strnicmp_loop (tl a) (tl b) (n - 1)
      else uint (UpperToLower (at a 0)) - uint (UpperToLower (at b 0)))"
  by pat_completeness auto
termination
  by (relation "measure (\<lambda>(a, b, n). nat n)") auto

declare strnicmp_loop.simps [simp del]

definition sqlite3_strnicmp :: "bytes option \<Rightarrow> bytes option \<Rightarrow> int \<Rightarrow> int" where
  "sqlite3_strnicmp zLeft zRight n =
     (case zLeft of
        None \<Rightarrow> (case zRight of Some _ \<Rightarrow> - 1 | None \<Rightarrow> 0)
      | Some l \<Rightarrow> (case zRight of None \<Rightarrow> 1 | Some r \<Rightarrow> strnicmp_loop l r n))"

definition sqlite3Strlen30 :: "bytes option \<Rightarrow> int" where
  "sqlite3Strlen30 z =
     (case z of None \<Rightarrow> 0 | Some s \<Rightarrow> 0x3fffffff AND int (length (takeWhile (\<lambda>c. c \<noteq> 0) s)))"

fun sqlite3StrIHash_loop :: "u8 \<Rightarrow> bytes \<Rightarrow> u8" where
  "sqlite3StrIHash_loop h [] = h"
| "sqlite3StrIHash_loop h (c # r) = (if c = 0 then h else sqlite3StrIHash_loop (h + UpperToLower c) r)"

definition sqlite3StrIHash :: "bytes option \<Rightarrow> u8" where
  "sqlite3StrIHash z = (case z of None \<Rightarrow> 0 | Some s \<Rightarrow> sqlite3StrIHash_loop 0 s)"

text \<open>Strings as C has them: no zero byte inside.\<close>

abbreviation nul_free :: "bytes \<Rightarrow> bool" where
  "nul_free z \<equiv> 0 \<notin> set z"

lemma sqlite3StrICmp_Nil: "sqlite3StrICmp [] b = - uint (UpperToLower (at b 0))"
proof (cases "at b 0 = 0")
  case True
  then show ?thesis by (simp add: sqlite3StrICmp.simps [of "[]" b])
next
  case False
  then have "uint (UpperToLower (at b 0)) \<noteq> 0" by (simp add: uint_0_iff)
  with False show ?thesis by (simp add: sqlite3StrICmp.simps [of "[]" b])
qed

lemma sqlite3StrICmp_Cons:
  "c \<noteq> 0 \<Longrightarrow> sqlite3StrICmp (c # a) b =
     (if UpperToLower c = UpperToLower (at b 0) then sqlite3StrICmp a (tl b)
      else uint (UpperToLower c) - uint (UpperToLower (at b 0)))"
  by (auto simp: sqlite3StrICmp.simps [of "c # a" b] Let_def word_uint_eq_iff [symmetric])

lemma sqlite3StrICmp_eq_0:
  "nul_free a \<Longrightarrow> nul_free b \<Longrightarrow> sqlite3StrICmp a b = 0 \<longleftrightarrow> map UpperToLower a = map UpperToLower b"
proof (induction a arbitrary: b)
  case Nil
  then show ?case by (cases b) (auto simp: sqlite3StrICmp_Nil uint_0_iff)
next
  case (Cons c a)
  then show ?case by (cases b) (auto simp: sqlite3StrICmp_Cons sqlite3StrICmp_Nil uint_0_iff word_uint_eq_iff [symmetric])
qed

lemma strnicmp_loop_0 [simp]: "strnicmp_loop a b 0 = 0"
  by (simp add: strnicmp_loop.simps)

lemma strnicmp_loop_pos:
  "0 < n \<Longrightarrow> strnicmp_loop a b n =
     (if at a 0 \<noteq> 0 \<and> UpperToLower (at a 0) = UpperToLower (at b 0)
      then strnicmp_loop (tl a) (tl b) (n - 1)
      else uint (UpperToLower (at a 0)) - uint (UpperToLower (at b 0)))"
  by (simp add: strnicmp_loop.simps [of a b n])

lemma strnicmp_loop_prefix:
  "nul_free p \<Longrightarrow> n = int (length p) \<Longrightarrow>
     strnicmp_loop a p n = 0 \<longleftrightarrow> map UpperToLower (take (length p) a) = map UpperToLower p"
proof (induction p arbitrary: a n)
  case Nil
  then show ?case by simp
next
  case (Cons c p)
  then show ?case
    by (cases a) (auto simp: strnicmp_loop_pos word_uint_eq_iff [symmetric] uint_0_iff)
qed

end
