(* ===== verification/Numtext.thy ===== *)
theory Numtext
  imports Util
begin

text \<open>
  Text to numbers and back: \<open>sqlite3GetInt32\<close>, \<open>sqlite3Atoi\<close>, \<open>sqlite3GetUInt32\<close> and
  \<open>sqlite3HexToInt\<close> of \<^verbatim>\<open>util.c\<close>, \<open>getSafetyLevel\<close> and \<open>sqlite3GetBoolean\<close> of \<^verbatim>\<open>pragma.c\<close>, the C
  library's \<open>atoi\<close> that the cipher pragmas call, and the \<open>%d\<close> conversion they print with.
\<close>

section \<open>Parsing\<close>

definition sqlite3HexToInt :: "u8 \<Rightarrow> u8" where
  "sqlite3HexToInt h = (h + 9 * (1 AND drop_bit 6 h)) AND 15"

fun skip_zeros :: "bytes \<Rightarrow> bytes" where
  "skip_zeros [] = []"
| "skip_zeros (c # r) = (if c = 48 then skip_zeros r else c # r)"

text \<open>\<open>for(i=0; i<n && sqlite3Isxdigit(zNum[i]); i++) u = u*16 + sqlite3HexToInt(zNum[i])\<close>:
  the value and what is left of the text.\<close>

fun hex_loop :: "nat \<Rightarrow> u32 \<Rightarrow> bytes \<Rightarrow> u32 \<times> bytes" where
  "hex_loop 0 u z = (u, z)"
| "hex_loop (Suc n) u z =
     (if sqlite3Isxdigit (at z 0) then hex_loop n (u * 16 + ucast (sqlite3HexToInt (at z 0))) (tl z)
      else (u, z))"

text \<open>\<open>for(i=0; i<n && (c = zNum[i] - '0')>=0 && c<=9; i++) v = v*10 + c\<close>: the number of digits
  read and the value.\<close>

fun dec_loop :: "nat \<Rightarrow> nat \<Rightarrow> int \<Rightarrow> bytes \<Rightarrow> nat \<times> int" where
  "dec_loop 0 i v z = (i, v)"
| "dec_loop (Suc n) i v z =
     (let c = uint (at z 0) - 48 in
      if 0 \<le> c \<and> c \<le> 9 then dec_loop n (Suc i) (v * 10 + c) (tl z) else (i, v))"

text \<open>\<open>None\<close> is the return value 0, which leaves \<open>*pValue\<close> alone.\<close>

definition sqlite3GetInt32 :: "bytes \<Rightarrow> int option" where
  "sqlite3GetInt32 zNum =
     (if at zNum 0 \<noteq> 45 \<and> at zNum 0 \<noteq> 43 \<and> at zNum 0 = 48 \<and> (at zNum 1 = 120 \<or> at zNum 1 = 88)
         \<and> sqlite3Isxdigit (at zNum 2)
      then let (u, r) = hex_loop 8 0 (skip_zeros (drop 2 zNum)) in
           if u AND 0x80000000 = 0 \<and> \<not> sqlite3Isxdigit (at r 0) then Some (uint u) else None
      else
        let neg = (at zNum 0 = 45);
            z = (if at zNum 0 = 45 \<or> at zNum 0 = 43 then tl zNum else zNum) in
        if \<not> sqlite3Isdigit (at z 0) then None
        else let (i, v) = dec_loop 11 0 0 (skip_zeros z) in
             if 10 < i then None
             else if v - of_bool neg > 2147483647 then None
             else Some (if neg then - v else v))"

definition sqlite3Atoi :: "bytes \<Rightarrow> int" where
  "sqlite3Atoi z = (case sqlite3GetInt32 z of Some x \<Rightarrow> x | None \<Rightarrow> 0)"

text \<open>\<open>sqlite3GetUInt32\<close>: the loop returns early (\<open>None\<close>) once the value passes the limit, otherwise
  gives the number of digits, the value and the rest.\<close>

fun uint_loop :: "nat \<Rightarrow> int \<Rightarrow> bytes \<Rightarrow> (nat \<times> int \<times> bytes) option" where
  "uint_loop i v [] = Some (i, v, [])"
| "uint_loop i v (c # r) =
     (if sqlite3Isdigit c then
        (let v' = v * 10 + uint c - 48 in
         if v' > 4294967296 then None else uint_loop (Suc i) v' r)
      else Some (i, v, c # r))"

text \<open>The pair is the return value and \<open>*pI\<close>.\<close>

definition sqlite3GetUInt32 :: "bytes \<Rightarrow> bool \<times> u32" where
  "sqlite3GetUInt32 z =
     (case uint_loop 0 0 z of
        None \<Rightarrow> (False, 0)
      | Some (i, v, r) \<Rightarrow> if i = 0 \<or> at r 0 \<noteq> 0 then (False, 0) else (True, word_of_int v))"

text \<open>The C library's \<open>atoi\<close>, which is \<open>(int) strtol(z, 0, 10)\<close> on a 64-bit \<open>long\<close>.\<close>

fun digits_value :: "int \<Rightarrow> bytes \<Rightarrow> int" where
  "digits_value v [] = v"
| "digits_value v (c # r) =
     (if 48 \<le> c \<and> c \<le> 57 then digits_value (v * 10 + (uint c - 48)) r else v)"

definition atoi :: "bytes \<Rightarrow> int" where
  "atoi z =
     (let s = dropWhile (\<lambda>c. c = 32 \<or> 9 \<le> c \<and> c \<le> 13) z;
          neg = (at s 0 = 45);
          d = (if at s 0 = 45 \<or> at s 0 = 43 then tl s else s);
          v = digits_value 0 d;
          l = (if neg then max (- (2 ^ 63)) (- v) else min (2 ^ 63 - 1) v)
      in signed_take_bit 31 l)"

section \<open>Booleans\<close>

definition safety_zText :: bytes where
  "safety_zText = cstr ''onoffalseyestruextrafull''"

definition safety_iOffset :: "nat list" where
  "safety_iOffset = [0, 1, 2, 4, 9, 12, 15, 20]"

definition safety_iLength :: "nat list" where
  "safety_iLength = [2, 2, 3, 5, 3, 4, 5, 4]"

definition safety_iValue :: "nat list" where
  "safety_iValue = [1, 0, 0, 0, 1, 1, 3, 2]"

fun safety_loop :: "nat list \<Rightarrow> bytes \<Rightarrow> int \<Rightarrow> bool \<Rightarrow> u8 \<Rightarrow> u8" where
  "safety_loop [] z n omitFull dflt = dflt"
| "safety_loop (i # is) z n omitFull dflt =
     (if int (safety_iLength ! i) = n
         \<and> sqlite3_strnicmp (Some (drop (safety_iOffset ! i) safety_zText)) (Some z) n = 0
         \<and> (\<not> omitFull \<or> safety_iValue ! i \<le> 1)
      then word_of_nat (safety_iValue ! i)
      else safety_loop is z n omitFull dflt)"

definition getSafetyLevel :: "bytes \<Rightarrow> bool \<Rightarrow> u8 \<Rightarrow> u8" where
  "getSafetyLevel z omitFull dflt =
     (if sqlite3Isdigit (at z 0) then word_of_int (sqlite3Atoi z)
      else safety_loop [0..<length safety_iLength] z (sqlite3Strlen30 (Some z)) omitFull dflt)"

definition sqlite3GetBoolean :: "bytes \<Rightarrow> u8 \<Rightarrow> int" where
  "sqlite3GetBoolean z dflt = of_bool (getSafetyLevel z True dflt \<noteq> 0)"

section \<open>Printing\<close>

fun dec_digits :: "nat \<Rightarrow> bytes" where
  "dec_digits n =
     (if n < 10 then [word_of_nat (48 + n)] else dec_digits (n div 10) @ [word_of_nat (48 + n mod 10)])"

declare dec_digits.simps [simp del]

definition fmt_d :: "int \<Rightarrow> bytes" where
  "fmt_d i = (if i < 0 then 45 # dec_digits (nat (- i)) else dec_digits (nat i))"

section \<open>Properties\<close>

lemma dec_loop_bounds: "0 \<le> v \<Longrightarrow> dec_loop n i v z = (j, w) \<Longrightarrow> 0 \<le> w"
  by (induction n i v z rule: dec_loop.induct) (auto simp: Let_def split: if_splits)

lemma u32_top_bit:
  assumes "u AND 0x80000000 = (0 :: u32)"
  shows "uint u \<le> 2147483647"
proof -
  have "bit (u AND 0x80000000) 31 \<longleftrightarrow> bit u 31" by (simp add: bit_and_iff)
  with assms have nb: "\<not> bit u 31" by simp
  have "take_bit 31 u = u"
  proof (rule bit_word_eqI)
    fix n assume "n < LENGTH(32)"
    with nb show "bit (take_bit 31 u) n = bit u n"
      by (cases "n = 31") (auto simp: bit_take_bit_iff)
  qed
  then have "uint u = take_bit 31 (uint u)" by (metis unsigned_take_bit_eq)
  also have "\<dots> < 2 ^ 31" by (rule take_bit_int_less_exp)
  finally show ?thesis by simp
qed

lemma sqlite3GetInt32_range:
  assumes "sqlite3GetInt32 z = Some v"
  shows "- (2 ^ 31) \<le> v \<and> v < 2 ^ 31"
proof -
  have hex: "- 2147483648 \<le> uint u \<and> uint u < 2147483648" if "u AND 2147483648 = (0 :: u32)" for u
  proof -
    have "0 \<le> uint u" by simp
    with u32_top_bit [OF that] show ?thesis by linarith
  qed
  have dec: "0 \<le> w" if "dec_loop 11 0 0 y = (j, w)" for y j w
    using dec_loop_bounds [OF _ that] by simp
  show ?thesis
    using assms by (auto simp: sqlite3GetInt32_def Let_def split: if_splits prod.splits dest: hex dec)
qed

abbreviation is_dec :: "u8 \<Rightarrow> bool" where
  "is_dec c \<equiv> 48 \<le> c \<and> c \<le> 57"

lemma dec_char:
  assumes "m < 10"
  shows "is_dec (word_of_nat (48 + m)) \<and> uint (word_of_nat (48 + m) :: u8) = 48 + int m"
proof -
  have u: "unat (word_of_nat (48 + m) :: u8) = 48 + m"
    using assms by (simp add: unat_of_nat del: of_nat_add)
  then have "int (unat (word_of_nat (48 + m) :: u8)) = 48 + int m" by linarith
  then have "uint (word_of_nat (48 + m) :: u8) = 48 + int m" by (simp only: uint_nat)
  with u assms show ?thesis by (simp add: word_le_nat_alt del: of_nat_add)
qed

lemma digits_value_snoc:
  "list_all is_dec d \<Longrightarrow> is_dec x \<Longrightarrow> digits_value v (d @ [x]) = digits_value v d * 10 + (uint x - 48)"
  by (induction d arbitrary: v) auto

lemma dec_digits_value: "list_all is_dec (dec_digits n) \<and> digits_value 0 (dec_digits n) = int n"
proof (induction n rule: dec_digits.induct)
  case (1 n)
  show ?case
  proof (cases "n < 10")
    case True
    then show ?thesis using dec_char [of n] by (simp add: dec_digits.simps [of n])
  next
    case False
    have "int n = int (n div 10) * 10 + int (n mod 10)" by (metis div_mult_mod_eq of_nat_add of_nat_mult of_nat_numeral)
    with False 1 dec_char [of "n mod 10"] show ?thesis
      by (simp add: dec_digits.simps [of n] digits_value_snoc del: of_nat_add)
  qed
qed

lemma dec_digits_hd: "\<exists>c r. dec_digits n = c # r \<and> is_dec c"
proof -
  have "dec_digits n \<noteq> []" by (simp add: dec_digits.simps)
  with dec_digits_value [of n] show ?thesis by (cases "dec_digits n") auto
qed

lemma is_dec_not: "is_dec c \<Longrightarrow> c \<noteq> 45 \<and> c \<noteq> 43 \<and> c \<noteq> 32 \<and> \<not> (9 \<le> c \<and> c \<le> 13)"
  by (auto simp: word_le_nat_alt)

lemma signed_take_bit_small: "- (2 ^ 31) \<le> i \<Longrightarrow> i < 2 ^ 31 \<Longrightarrow> signed_take_bit 31 i = (i :: int)"
  by (rule signed_take_bit_int_eq_self) auto

text \<open>What a pragma prints with \<open>%d\<close>, \<open>atoi\<close> reads back.\<close>

lemma atoi_fmt_d:
  assumes "- (2 ^ 31) \<le> i" and "i < 2 ^ 31"
  shows "atoi (fmt_d i) = i"
proof (cases "i < 0")
  case True
  have "(9 \<le> (45 :: u8) \<and> (45 :: u8) \<le> 13) = False" by (simp add: word_le_nat_alt)
  with True assms show ?thesis
    using dec_digits_value [of "nat (- i)"] signed_take_bit_small [OF assms]
    by (simp add: atoi_def fmt_d_def Let_def max_def)
next
  case False
  obtain c r where d: "dec_digits (nat i) = c # r" and c: "is_dec c" using dec_digits_hd by blast
  show ?thesis
    using dec_digits_value [of "nat i"] signed_take_bit_small [OF assms] False assms is_dec_not [OF c]
    by (auto simp: atoi_def fmt_d_def Let_def min_def d)
qed

end
