(* ===== verification/Codec_State.thy ===== *)
theory Codec_State
  imports Cipher_Util Endian Numtext
begin

text \<open>
  The state of SQLCipher and its memory management: the provider table, the two levels of cipher
  contexts, the process-wide variables of \<^verbatim>\<open>sqlcipher.c\<close>, the allocator with its wiping free, and
  the registration and reference counting of the crypto provider.

  Pointers to byte buffers are \<open>bytes option\<close>, \<open>None\<close> being the null pointer.  The process state
  \<open>'e world\<close> carries an allocator whose failures are an oracle (\<open>w_alloc_ok n\<close> says whether the
  \<open>n\<close>-th request to the system succeeds), the contents of every block at the moment it was
  given back (\<open>w_freed\<close>, newest first), and the entropy source \<open>'e\<close> the provider's random function
  draws from.  Calls to \<open>sqlcipher_log\<close>, to the mutex routines and to \<open>mlock\<close>/\<open>munlock\<close> change
  nothing that is modelled here.
\<close>

section \<open>Provider, contexts, globals\<close>

text \<open>
  The function table of a crypto provider.  \<open>None\<close> from \<open>p_random\<close>, \<open>p_hmac\<close>, \<open>p_kdf\<close> and \<open>p_cipher\<close>
  is a return code other than \<open>SQLITE_OK\<close>; otherwise the bytes written to the output pointer.
  The private \<open>provider_ctx\<close>, which the CommonCrypto provider never uses, is left out.
\<close>

record 'e sqlcipher_provider =
  p_get_provider_name :: bytes
  p_add_random :: "'e \<Rightarrow> bytes \<Rightarrow> int \<times> 'e"
  p_random :: "'e \<Rightarrow> int \<Rightarrow> bytes option \<times> 'e"
  p_hmac :: "int \<Rightarrow> bytes \<Rightarrow> bytes option \<Rightarrow> bytes option \<Rightarrow> bytes option"
  p_kdf :: "int \<Rightarrow> bytes \<Rightarrow> bytes \<Rightarrow> int \<Rightarrow> int \<Rightarrow> bytes option"
  p_cipher :: "int \<Rightarrow> bytes \<Rightarrow> bytes \<Rightarrow> bytes \<Rightarrow> bytes option"
  p_get_cipher :: bytes
  p_get_key_sz :: int
  p_get_iv_sz :: int
  p_get_block_sz :: int
  p_get_hmac_sz :: "int \<Rightarrow> int"
  p_ctx_init :: int
  p_ctx_free :: int
  p_fips_status :: int
  p_get_provider_version :: bytes

record cipher_ctx =
  c_derive_key :: int
  c_pass_sz :: int
  c_key :: "bytes option"
  c_hmac_key :: "bytes option"
  c_pass :: "bytes option"
  c_keyspec :: "bytes option"

record 'e codec_ctx =
  ctx_store_pass :: int
  ctx_kdf_iter :: int
  ctx_fast_kdf_iter :: int
  ctx_kdf_salt_sz :: int
  ctx_key_sz :: int
  ctx_iv_sz :: int
  ctx_block_sz :: int
  ctx_page_sz :: int
  ctx_keyspec_sz :: int
  ctx_reserve_sz :: int
  ctx_hmac_sz :: int
  ctx_plaintext_header_sz :: int
  ctx_hmac_algorithm :: int
  ctx_kdf_algorithm :: int
  ctx_flags :: u32
  ctx_kdf_salt :: "bytes option"
  ctx_hmac_kdf_salt :: "bytes option"
  ctx_buffer :: "bytes option"
  ctx_read_ctx :: "cipher_ctx option"
  ctx_write_ctx :: "cipher_ctx option"
  ctx_provider :: "'e sqlcipher_provider option"

datatype log_target = Log_stdout | Log_stderr | Log_path bytes

record 'e world =
  w_alloc_ok :: "nat \<Rightarrow> bool"
  w_nalloc :: nat
  w_freed :: "bytes list"
  w_entropy :: 'e
  default_flags :: u32
  hmac_salt_mask :: u8
  default_kdf_iter :: int
  default_page_size :: int
  default_plaintext_header_size :: int
  default_hmac_algorithm :: int
  default_kdf_algorithm :: int
  sqlcipher_mem_security_on :: int
  sqlcipher_mem_executed :: int
  sqlcipher_mem_initialized :: int
  sqlcipher_activate_count :: u32
  default_provider :: "'e sqlcipher_provider option"
  sqlcipher_static_mutex :: "bool list"
  sqlcipher_log_file :: "log_target option"
  sqlcipher_log_device :: int
  sqlcipher_log_level :: u32
  sqlcipher_log_source :: u32
  sqlcipher_log_set :: int

abbreviation (input) FILE_HEADER_SZ :: int where "FILE_HEADER_SZ \<equiv> 16"
abbreviation (input) CIPHER_DECRYPT :: int where "CIPHER_DECRYPT \<equiv> 0"
abbreviation (input) CIPHER_ENCRYPT :: int where "CIPHER_ENCRYPT \<equiv> 1"
abbreviation (input) CIPHER_READ_CTX :: int where "CIPHER_READ_CTX \<equiv> 0"
abbreviation (input) CIPHER_WRITE_CTX :: int where "CIPHER_WRITE_CTX \<equiv> 1"
abbreviation (input) CIPHER_READWRITE_CTX :: int where "CIPHER_READWRITE_CTX \<equiv> 2"
abbreviation (input) FAST_PBKDF2_ITER :: int where "FAST_PBKDF2_ITER \<equiv> 2"

abbreviation (input) SQLCIPHER_HMAC_SHA1 :: int where "SQLCIPHER_HMAC_SHA1 \<equiv> 0"
abbreviation (input) SQLCIPHER_HMAC_SHA256 :: int where "SQLCIPHER_HMAC_SHA256 \<equiv> 1"
abbreviation (input) SQLCIPHER_HMAC_SHA512 :: int where "SQLCIPHER_HMAC_SHA512 \<equiv> 2"

text \<open>The flag bits of \<open>codec_ctx->flags\<close> and the three flag macros.\<close>

definition CIPHER_FLAG_HMAC :: u32 where "CIPHER_FLAG_HMAC = 1"
definition CIPHER_FLAG_LE_PGNO :: u32 where "CIPHER_FLAG_LE_PGNO = 2"
definition CIPHER_FLAG_BE_PGNO :: u32 where "CIPHER_FLAG_BE_PGNO = 4"
definition CIPHER_FLAG_KEY_USED :: u32 where "CIPHER_FLAG_KEY_USED = 8"
definition CIPHER_FLAG_HAS_KDF_SALT :: u32 where "CIPHER_FLAG_HAS_KDF_SALT = 16"

lemmas cipher_flags = CIPHER_FLAG_HMAC_def CIPHER_FLAG_LE_PGNO_def CIPHER_FLAG_BE_PGNO_def
  CIPHER_FLAG_KEY_USED_def CIPHER_FLAG_HAS_KDF_SALT_def

definition flag_get :: "u32 \<Rightarrow> u32 \<Rightarrow> bool" where
  "flag_get f b \<longleftrightarrow> f AND b \<noteq> 0"

definition flag_set :: "u32 \<Rightarrow> u32 \<Rightarrow> u32" where
  "flag_set f b = f OR b"

definition flag_unset :: "u32 \<Rightarrow> u32 \<Rightarrow> u32" where
  "flag_unset f b = f AND NOT b"

lemma flag_get_set [simp]: "flag_get (flag_set f a) b \<longleftrightarrow> flag_get f b \<or> a AND b \<noteq> 0"
  by (auto simp: flag_get_def flag_set_def bit.conj_disj_distrib2 bit_eq_iff bit_simps)

lemma flag_get_unset_same [simp]: "\<not> flag_get (flag_unset f b) b"
  by (simp add: flag_get_def flag_unset_def bit_eq_iff bit_simps)

lemma flag_get_unset_other: "a AND b = 0 \<Longrightarrow> flag_get (flag_unset f a) b = flag_get f b"
proof -
  assume "a AND b = 0"
  then have "NOT a AND b = b" by (auto simp: bit_eq_iff bit_simps)
  then have "(f AND NOT a) AND b = f AND b" by (simp add: and.assoc)
  then show ?thesis by (simp add: flag_get_def flag_unset_def)
qed

lemma flags_disjoint [simp]:
  "CIPHER_FLAG_HMAC \<noteq> 0" "CIPHER_FLAG_HAS_KDF_SALT \<noteq> 0" "CIPHER_FLAG_KEY_USED \<noteq> 0"
  "CIPHER_FLAG_HAS_KDF_SALT AND CIPHER_FLAG_HMAC = 0"
  "CIPHER_FLAG_KEY_USED AND CIPHER_FLAG_HMAC = 0"
  "CIPHER_FLAG_KEY_USED AND CIPHER_FLAG_HAS_KDF_SALT = 0"
  "CIPHER_FLAG_HAS_KDF_SALT AND CIPHER_FLAG_LE_PGNO = 0"
  "CIPHER_FLAG_HAS_KDF_SALT AND CIPHER_FLAG_BE_PGNO = 0"
  "CIPHER_FLAG_KEY_USED AND CIPHER_FLAG_LE_PGNO = 0"
  "CIPHER_FLAG_KEY_USED AND CIPHER_FLAG_BE_PGNO = 0"
  "CIPHER_FLAG_HMAC AND CIPHER_FLAG_HAS_KDF_SALT = 0"
  by (simp_all add: cipher_flags)

text \<open>The initial values of the static variables.\<close>

definition initial_world :: "(nat \<Rightarrow> bool) \<Rightarrow> 'e \<Rightarrow> 'e world" where
  "initial_world ok e =
     \<lparr> w_alloc_ok = ok, w_nalloc = 0, w_freed = [], w_entropy = e,
       default_flags = CIPHER_FLAG_HMAC OR CIPHER_FLAG_LE_PGNO, hmac_salt_mask = 0x3a,
       default_kdf_iter = 256000, default_page_size = 4096, default_plaintext_header_size = 0,
       default_hmac_algorithm = SQLCIPHER_HMAC_SHA512, default_kdf_algorithm = SQLCIPHER_HMAC_SHA512,
       sqlcipher_mem_security_on = 0, sqlcipher_mem_executed = 0, sqlcipher_mem_initialized = 0,
       sqlcipher_activate_count = 0, default_provider = None, sqlcipher_static_mutex = replicate 6 False,
       sqlcipher_log_file = None, sqlcipher_log_device = 0, sqlcipher_log_level = 0,
       sqlcipher_log_source = 0xffffffff, sqlcipher_log_set = 0 \<rparr>"

section \<open>Memory\<close>

text \<open>\<open>sqlcipher_mem_malloc\<close>: the allocator SQLCipher installs over the system's; true when the
  block is there.\<close>

definition sqlcipher_mem_malloc :: "int \<Rightarrow> 'e world \<Rightarrow> bool \<times> 'e world" where
  "sqlcipher_mem_malloc n w =
     (w_alloc_ok w (w_nalloc w),
      w\<lparr>w_nalloc := Suc (w_nalloc w),
        sqlcipher_mem_executed := (if sqlcipher_mem_executed w = 0 then 1 else sqlcipher_mem_executed w)\<rparr>)"

text \<open>\<open>sqlcipher_mem_free\<close>: with memory security on, the whole block (\<open>xSize\<close> bytes) is wiped first.\<close>

definition sqlcipher_mem_free :: "bytes \<Rightarrow> 'e world \<Rightarrow> 'e world" where
  "sqlcipher_mem_free p w =
     (let w = w\<lparr>sqlcipher_mem_executed := (if sqlcipher_mem_executed w = 0 then 1 else sqlcipher_mem_executed w)\<rparr>;
          p = (if sqlcipher_mem_security_on w \<noteq> 0 then replicate (length p) 0 else p)
      in w\<lparr>w_freed := p # w_freed w\<rparr>)"

text \<open>\<open>sqlite3Malloc\<close>; a negative size reaches it as a 64-bit unsigned value above the limit.\<close>

definition sqlite3Malloc :: "int \<Rightarrow> 'e world \<Rightarrow> bool \<times> 'e world" where
  "sqlite3Malloc n w =
     (if n = 0 \<or> n < 0 \<or> n > 2147483391 then (False, w) else sqlcipher_mem_malloc n w)"

definition sqlite3_free :: "bytes option \<Rightarrow> 'e world \<Rightarrow> 'e world" where
  "sqlite3_free p w = (case p of None \<Rightarrow> w | Some b \<Rightarrow> sqlcipher_mem_free b w)"

definition sqlcipher_malloc :: "int \<Rightarrow> 'e world \<Rightarrow> bytes option \<times> 'e world" where
  "sqlcipher_malloc sz w =
     (let (ok, w) = sqlite3Malloc sz w in (if ok then Some (replicate (nat sz) 0) else None, w))"

definition sqlcipher_free :: "bytes option \<Rightarrow> int \<Rightarrow> 'e world \<Rightarrow> 'e world option" where
  "sqlcipher_free ptr sz w =
     do { p \<leftarrow> sqlcipher_memset ptr 0 sz; Some (sqlite3_free p w) }"

text \<open>\<open>if(p) sqlcipher_free(p, sz)\<close>, the form most callers use.\<close>

definition free_if :: "bytes option \<Rightarrow> int \<Rightarrow> 'e world \<Rightarrow> 'e world option" where
  "free_if p sz w = (if p \<noteq> None then sqlcipher_free p sz w else Some w)"

lemma sqlcipher_free_exact:
  "int (length b) = sz \<Longrightarrow> sqlcipher_free (Some b) sz w =
     Some (w\<lparr>w_freed := replicate (length b) 0 # w_freed w,
             sqlcipher_mem_executed := (if sqlcipher_mem_executed w = 0 then 1 else sqlcipher_mem_executed w)\<rparr>)"
  by (auto simp: sqlcipher_free_def sqlcipher_memset_def fill_whole sqlite3_free_def
      sqlcipher_mem_free_def Let_def)

text \<open>The blocks given back so far hold nothing but zeros.\<close>

definition freed_wiped :: "'e world \<Rightarrow> bool" where
  "freed_wiped w \<longleftrightarrow> (\<forall>b \<in> set (w_freed w). \<forall>x \<in> set b. x = 0)"

end
