(* ===== verification/Crypto_Provider.thy ===== *)
theory Crypto_Provider
  imports Codec_State
begin

text \<open>
  The CommonCrypto provider (\<^verbatim>\<open>crypto_cc.c\<close>), the one the iOS build links, and the registration and
  reference counting of providers (\<open>sqlcipher_register_provider\<close>, \<open>sqlcipher_activate\<close>,
  \<open>sqlcipher_deactivate\<close>).

  Apple's CommonCrypto and Security frameworks are not part of the repository: they are the
  parameter \<open>('e, 'h, 'c) commoncrypto\<close>, with \<open>'h\<close> an HMAC context and \<open>'c\<close> a cryptor handle.  What
  the code relies on of them is \<open>commoncrypto_ok\<close>.  The locale \<open>crypto_provider\<close> states what the page
  codec needs of any provider; its interpretation shows that the \<open>sqlcipher_cc_*\<close> functions deliver
  it.
\<close>

section \<open>The frameworks\<close>

datatype cc_digest = CC_SHA1 | CC_SHA256 | CC_SHA512

record ('e, 'h, 'c) commoncrypto =
  SecRandomCopyBytes :: "'e \<Rightarrow> nat \<Rightarrow> bytes option \<times> 'e"
  CCHmacInit :: "cc_digest \<Rightarrow> bytes \<Rightarrow> 'h"
  CCHmacUpdate :: "'h \<Rightarrow> bytes \<Rightarrow> 'h"
  CCHmacFinal :: "'h \<Rightarrow> bytes"
  CCKeyDerivationPBKDF :: "bytes \<Rightarrow> bytes \<Rightarrow> cc_digest \<Rightarrow> int \<Rightarrow> nat \<Rightarrow> bytes option"
  CCCryptorCreate :: "bool \<Rightarrow> bytes \<Rightarrow> bytes \<Rightarrow> 'c option"
  CCCryptorUpdate :: "'c \<Rightarrow> bytes \<Rightarrow> (bytes \<times> 'c) option"
  CCCryptorFinal :: "'c \<Rightarrow> (bytes \<times> 'c) option"
  CCCryptorRelease :: "'c \<Rightarrow> bool"
  CFBundleShortVersion :: "bytes option"

fun digest_length :: "cc_digest \<Rightarrow> nat" where
  "digest_length CC_SHA1 = 20"
| "digest_length CC_SHA256 = 32"
| "digest_length CC_SHA512 = 64"

section \<open>The provider functions\<close>

definition sqlcipher_cc_add_random :: "'e \<Rightarrow> bytes \<Rightarrow> int \<times> 'e" where
  "sqlcipher_cc_add_random e buffer = (SQLITE_OK, e)"

definition sqlcipher_cc_random :: "('e, 'h, 'c) commoncrypto \<Rightarrow> 'e \<Rightarrow> int \<Rightarrow> bytes option \<times> 'e" where
  "sqlcipher_cc_random cc e n = SecRandomCopyBytes cc e (nat n)"

definition sqlcipher_cc_get_provider_name :: bytes where
  "sqlcipher_cc_get_provider_name = cstr ''commoncrypto''"

definition sqlcipher_cc_get_provider_version :: "('e, 'h, 'c) commoncrypto \<Rightarrow> bytes" where
  "sqlcipher_cc_get_provider_version cc =
     (case CFBundleShortVersion cc of None \<Rightarrow> cstr ''unknown'' | Some v \<Rightarrow> v)"

definition cc_algorithm :: "int \<Rightarrow> cc_digest option" where
  "cc_algorithm algorithm =
     (if algorithm = SQLCIPHER_HMAC_SHA1 then Some CC_SHA1
      else if algorithm = SQLCIPHER_HMAC_SHA256 then Some CC_SHA256
      else if algorithm = SQLCIPHER_HMAC_SHA512 then Some CC_SHA512
      else None)"

definition sqlcipher_cc_hmac ::
    "('e, 'h, 'c) commoncrypto \<Rightarrow> int \<Rightarrow> bytes \<Rightarrow> bytes option \<Rightarrow> bytes option \<Rightarrow> bytes option" where
  "sqlcipher_cc_hmac cc algorithm hmac_key inb in2 =
     (case inb of
        None \<Rightarrow> None
      | Some x \<Rightarrow>
         (case cc_algorithm algorithm of
            None \<Rightarrow> None
          | Some a \<Rightarrow>
              let h = CCHmacInit cc a hmac_key;
                  h = CCHmacUpdate cc h x;
                  h = (case in2 of None \<Rightarrow> h | Some y \<Rightarrow> CCHmacUpdate cc h y)
              in Some (CCHmacFinal cc h)))"

definition sqlcipher_cc_kdf ::
    "('e, 'h, 'c) commoncrypto \<Rightarrow> int \<Rightarrow> bytes \<Rightarrow> bytes \<Rightarrow> int \<Rightarrow> int \<Rightarrow> bytes option" where
  "sqlcipher_cc_kdf cc algorithm pass salt workfactor key_sz =
     (case cc_algorithm algorithm of
        None \<Rightarrow> None
      | Some a \<Rightarrow> CCKeyDerivationPBKDF cc pass salt a workfactor (nat key_sz))"

definition sqlcipher_cc_cipher ::
    "('e, 'h, 'c) commoncrypto \<Rightarrow> int \<Rightarrow> bytes \<Rightarrow> bytes \<Rightarrow> bytes \<Rightarrow> bytes option" where
  "sqlcipher_cc_cipher cc mode key iv inb =
     do { cryptor \<leftarrow> CCCryptorCreate cc (mode = CIPHER_ENCRYPT) key iv;
          (out1, cryptor) \<leftarrow> CCCryptorUpdate cc cryptor inb;
          (out2, cryptor) \<leftarrow> CCCryptorFinal cc cryptor;
          if CCCryptorRelease cc cryptor then Some (out1 @ out2) else None }"

definition sqlcipher_cc_get_cipher :: bytes where
  "sqlcipher_cc_get_cipher = cstr ''aes-256-cbc''"

definition sqlcipher_cc_get_key_sz :: int where
  "sqlcipher_cc_get_key_sz = 32"

definition sqlcipher_cc_get_iv_sz :: int where
  "sqlcipher_cc_get_iv_sz = 16"

definition sqlcipher_cc_get_block_sz :: int where
  "sqlcipher_cc_get_block_sz = 16"

definition sqlcipher_cc_get_hmac_sz :: "int \<Rightarrow> int" where
  "sqlcipher_cc_get_hmac_sz algorithm =
     (case cc_algorithm algorithm of Some a \<Rightarrow> int (digest_length a) | None \<Rightarrow> 0)"

definition sqlcipher_cc_ctx_init :: int where
  "sqlcipher_cc_ctx_init = SQLITE_OK"

definition sqlcipher_cc_ctx_free :: int where
  "sqlcipher_cc_ctx_free = SQLITE_OK"

definition sqlcipher_cc_fips_status :: int where
  "sqlcipher_cc_fips_status = 0"

definition sqlcipher_cc_setup :: "('e, 'h, 'c) commoncrypto \<Rightarrow> 'e sqlcipher_provider" where
  "sqlcipher_cc_setup cc =
     \<lparr> p_get_provider_name = sqlcipher_cc_get_provider_name,
       p_add_random = sqlcipher_cc_add_random,
       p_random = sqlcipher_cc_random cc,
       p_hmac = sqlcipher_cc_hmac cc,
       p_kdf = sqlcipher_cc_kdf cc,
       p_cipher = sqlcipher_cc_cipher cc,
       p_get_cipher = sqlcipher_cc_get_cipher,
       p_get_key_sz = sqlcipher_cc_get_key_sz,
       p_get_iv_sz = sqlcipher_cc_get_iv_sz,
       p_get_block_sz = sqlcipher_cc_get_block_sz,
       p_get_hmac_sz = sqlcipher_cc_get_hmac_sz,
       p_ctx_init = sqlcipher_cc_ctx_init,
       p_ctx_free = sqlcipher_cc_ctx_free,
       p_fips_status = sqlcipher_cc_fips_status,
       p_get_provider_version = sqlcipher_cc_get_provider_version cc \<rparr>"

section \<open>What a provider promises\<close>

text \<open>The documented behaviour of the frameworks that SQLCipher relies on: sizes, and that AES-CBC
  without padding under the same 32-byte key and 16-byte vector decrypts what it encrypted.\<close>

definition commoncrypto_ok :: "('e, 'h, 'c) commoncrypto \<Rightarrow> bool" where
  "commoncrypto_ok cc \<longleftrightarrow>
     (\<forall>e n r e'. SecRandomCopyBytes cc e n = (Some r, e') \<longrightarrow> length r = n)
   \<and> (\<forall>a k xs. length (CCHmacFinal cc (foldl (CCHmacUpdate cc) (CCHmacInit cc a k) xs)) = digest_length a)
   \<and> (\<forall>p s a i n k. CCKeyDerivationPBKDF cc p s a i n = Some k \<longrightarrow> length k = n)
   \<and> (\<forall>m k iv x y. sqlcipher_cc_cipher cc m k iv x = Some y \<longrightarrow> length y = length x)
   \<and> (\<forall>k iv x y. length k = 32 \<longrightarrow> length iv = 16 \<longrightarrow> 16 dvd length x \<longrightarrow>
        sqlcipher_cc_cipher cc 1 k iv x = Some y \<longrightarrow> sqlcipher_cc_cipher cc 0 k iv y = Some x)"

locale crypto_provider =
  fixes ok :: "'p \<Rightarrow> bool"
    and prov :: "'p \<Rightarrow> 'e sqlcipher_provider"
  assumes key_sz_pos: "ok p \<Longrightarrow> 0 < p_get_key_sz (prov p)"
    and key_sz_le: "ok p \<Longrightarrow> p_get_key_sz (prov p) \<le> 64"
    and iv_sz_pos: "ok p \<Longrightarrow> 0 < p_get_iv_sz (prov p)"
    and iv_sz_le: "ok p \<Longrightarrow> p_get_iv_sz (prov p) \<le> 64"
    and block_sz_pos: "ok p \<Longrightarrow> 0 < p_get_block_sz (prov p)"
    and block_dvd_header: "ok p \<Longrightarrow> p_get_block_sz (prov p) dvd 16"
    and hmac_sz_bounds: "ok p \<Longrightarrow> 0 \<le> p_get_hmac_sz (prov p) a \<and> p_get_hmac_sz (prov p) a \<le> 64"
    and random_length: "ok p \<Longrightarrow> 0 \<le> n \<Longrightarrow> p_random (prov p) e n = (Some r, e') \<Longrightarrow> int (length r) = n"
    and hmac_length: "ok p \<Longrightarrow> p_hmac (prov p) a k u v = Some m \<Longrightarrow> int (length m) = p_get_hmac_sz (prov p) a"
    and kdf_length: "ok p \<Longrightarrow> 0 \<le> n \<Longrightarrow> p_kdf (prov p) a pw s i n = Some k \<Longrightarrow> int (length k) = n"
    and cipher_length: "ok p \<Longrightarrow> p_cipher (prov p) md k iv x = Some y \<Longrightarrow> length y = length x"
    and cipher_inverse: "ok p \<Longrightarrow> int (length k) = p_get_key_sz (prov p) \<Longrightarrow>
        int (length iv) = p_get_iv_sz (prov p) \<Longrightarrow> p_get_block_sz (prov p) dvd int (length x) \<Longrightarrow>
        p_cipher (prov p) 1 k iv x = Some y \<Longrightarrow> p_cipher (prov p) 0 k iv y = Some x"

interpretation cc: crypto_provider commoncrypto_ok sqlcipher_cc_setup
proof (unfold_locales, goal_cases)
  case (7 p a)
  show ?case
    by (simp add: sqlcipher_cc_setup_def sqlcipher_cc_get_hmac_sz_def cc_algorithm_def)
next
  case (8 p n e r e')
  then have "length r = nat n"
    by (auto simp: sqlcipher_cc_setup_def sqlcipher_cc_random_def commoncrypto_ok_def)
  with 8 show ?case by simp
next
  case (9 p a k u v m)
  then have len: "length (CCHmacFinal p (foldl (CCHmacUpdate p) (CCHmacInit p d k) xs)) = digest_length d" for d xs
    by (simp add: commoncrypto_ok_def)
  from 9 show ?case
    using len [of _ "[the u]"] len [of _ "[the u, the v]"]
    by (auto simp: sqlcipher_cc_setup_def sqlcipher_cc_hmac_def sqlcipher_cc_get_hmac_sz_def Let_def
        split: option.splits)
next
  case (10 p n a pw s i k)
  then show ?case
    by (fastforce simp: sqlcipher_cc_setup_def sqlcipher_cc_kdf_def commoncrypto_ok_def split: option.splits)
next
  case (12 p k iv x y)
  then have "16 dvd length x" "length k = 32" "length iv = 16"
    by (simp_all add: sqlcipher_cc_setup_def sqlcipher_cc_get_key_sz_def sqlcipher_cc_get_iv_sz_def
        sqlcipher_cc_get_block_sz_def) presburger+
  with 12 show ?case by (auto simp: sqlcipher_cc_setup_def commoncrypto_ok_def)
qed (auto simp: sqlcipher_cc_setup_def sqlcipher_cc_get_key_sz_def sqlcipher_cc_get_iv_sz_def
    sqlcipher_cc_get_block_sz_def sqlcipher_cc_random_def commoncrypto_ok_def)

section \<open>Registration and reference counting\<close>

text \<open>
  The source compares the addresses of the tables: \<open>is_current\<close> says whether the table passed in
  is the registered one itself, in which case it is not freed.  \<open>sizeof\<close> of the table is 17
  pointers; the free wipes all of them.
\<close>

definition sizeof_provider :: int where "sizeof_provider = 136"

definition free_provider_table :: "'e world \<Rightarrow> 'e world" where
  "free_provider_table w = sqlite3_free (Some (replicate (nat sizeof_provider) 0)) w"

definition sqlcipher_register_provider ::
    "bool \<Rightarrow> 'e sqlcipher_provider \<Rightarrow> 'e world \<Rightarrow> int \<times> 'e world" where
  "sqlcipher_register_provider is_current p w =
     (let w = (if default_provider w \<noteq> None \<and> \<not> is_current then free_provider_table w else w)
      in (SQLITE_OK, w\<lparr>default_provider := Some p\<rparr>))"

definition sqlcipher_get_provider :: "'e world \<Rightarrow> 'e sqlcipher_provider option" where
  "sqlcipher_get_provider w = default_provider w"

text \<open>\<open>sqlcipher_activate\<close>; \<open>sqlcipher_mutex\<close> slots are true while a mutex is allocated.  The
  block for the provider table is the only allocation, and its failure makes \<open>sqlcipher_cc_setup\<close>
  write through a null pointer (\<open>None\<close>).\<close>

definition sqlcipher_activate :: "'e sqlcipher_provider \<Rightarrow> 'e world \<Rightarrow> 'e world option" where
  "sqlcipher_activate cc_table w =
     (let w = (if sqlcipher_activate_count w = 0 then
                 (let w = w\<lparr>sqlcipher_static_mutex := replicate 6 True\<rparr> in
                  if sqlcipher_log_set w = 0 then
                    (let w = (if sqlcipher_log_level w = 0 then w\<lparr>sqlcipher_log_level := 2\<rparr> else w);
                         w = (if sqlcipher_log_device w = 0 \<and> sqlcipher_log_file w = None
                              then w\<lparr>sqlcipher_log_device := 1\<rparr> else w)
                     in w\<lparr>sqlcipher_log_set := 1\<rparr>)
                  else w)
               else w)
      in do {
        w \<leftarrow> (if sqlcipher_get_provider w = None then
                (case sqlcipher_malloc sizeof_provider w of
                   (None, w) \<Rightarrow> None
                 | (Some _, w) \<Rightarrow> Some (snd (sqlcipher_register_provider False cc_table w)))
              else Some w);
        Some (w\<lparr>sqlcipher_activate_count := sqlcipher_activate_count w + 1\<rparr>) })"

definition sqlcipher_deactivate :: "'e world \<Rightarrow> 'e world" where
  "sqlcipher_deactivate w =
     (let w = w\<lparr>sqlcipher_activate_count := sqlcipher_activate_count w - 1\<rparr> in
      if sqlcipher_activate_count w < 1 then
        (let w = (if default_provider w \<noteq> None
                  then (free_provider_table w)\<lparr>default_provider := None\<rparr>
                  else w);
             w = (if sqlcipher_activate_count w = 0
                  then w\<lparr>sqlcipher_static_mutex := replicate 6 False\<rparr> else w)
         in w\<lparr>sqlcipher_activate_count := 0\<rparr>)
      else w)"

text \<open>
  The life of the registration: connections come (\<open>sqlcipher_activate\<close>, from a codec attach) and go
  (\<open>sqlcipher_deactivate\<close>, from freeing an attached codec, so only while the count is positive).
  The 32-bit count is assumed not to wrap.
\<close>

inductive prov_step :: "'e sqlcipher_provider \<Rightarrow> 'e world \<Rightarrow> 'e world \<Rightarrow> bool" for p where
  activate: "sqlcipher_activate_count w + 1 \<noteq> 0 \<Longrightarrow> sqlcipher_activate p w = Some w' \<Longrightarrow> prov_step p w w'"
| deactivate: "sqlcipher_activate_count w \<noteq> 0 \<Longrightarrow> prov_step p w (sqlcipher_deactivate w)"

inductive prov_reachable :: "'e sqlcipher_provider \<Rightarrow> 'e world \<Rightarrow> 'e world \<Rightarrow> bool" for p w0 where
  start: "prov_reachable p w0 w0"
| step: "prov_reachable p w0 w \<Longrightarrow> prov_step p w w' \<Longrightarrow> prov_reachable p w0 w'"

inductive_cases prov_stepE: "prov_step p w w'"

definition activation_inv :: "'e world \<Rightarrow> bool" where
  "activation_inv w \<longleftrightarrow>
     (default_provider w \<noteq> None \<longleftrightarrow> sqlcipher_activate_count w \<noteq> 0)
     \<and> sqlcipher_static_mutex w = replicate 6 (sqlcipher_activate_count w \<noteq> 0)"

lemma activate_frame:
  assumes "sqlcipher_activate p w = Some w'"
  shows "sqlcipher_activate_count w' = sqlcipher_activate_count w + 1"
    and "default_provider w' = (case default_provider w of None \<Rightarrow> Some p | Some q \<Rightarrow> Some q)"
    and "sqlcipher_static_mutex w' =
      (if sqlcipher_activate_count w = 0 then replicate 6 True else sqlcipher_static_mutex w)"
  using assms
  by (auto simp: sqlcipher_activate_def sqlcipher_get_provider_def sqlcipher_register_provider_def
      sqlcipher_malloc_def sqlite3Malloc_def sqlcipher_mem_malloc_def Let_def
      split: if_splits option.splits prod.splits)

lemma word_less_1 [simp]: "(c :: u32) < 1 \<longleftrightarrow> c = 0"
  by (simp add: word_less_nat_alt unat_eq_zero)

lemma deactivate_frame:
  shows "sqlcipher_activate_count (sqlcipher_deactivate w) = sqlcipher_activate_count w - 1"
    and "default_provider (sqlcipher_deactivate w) =
      (if sqlcipher_activate_count w = 1 then None else default_provider w)"
    and "sqlcipher_static_mutex (sqlcipher_deactivate w) =
      (if sqlcipher_activate_count w = 1 then replicate 6 False else sqlcipher_static_mutex w)"
  by (auto simp: sqlcipher_deactivate_def free_provider_table_def sqlite3_free_def
      sqlcipher_mem_free_def Let_def)

lemma prov_step_inv: "prov_step p w w' \<Longrightarrow> activation_inv w \<Longrightarrow> activation_inv w'"
  by (erule prov_stepE)
     (auto simp: activation_inv_def activate_frame deactivate_frame split: option.splits if_splits)

lemma prov_reachable_inv: "prov_reachable p w0 w \<Longrightarrow> activation_inv w0 \<Longrightarrow> activation_inv w"
  by (induction rule: prov_reachable.induct) (auto intro: prov_step_inv)

end
