(* ===== verification/Pager_State.thy ===== *)
theory Pager_State
  imports Codec_State
begin

text \<open>
  The part of the b-tree and pager that the codec touches (\<^verbatim>\<open>btree.c\<close>, \<^verbatim>\<open>pager.c\<close>): page size and
  reserve, the auto-vacuum and secure-delete settings, the pager's error state, the method that
  fetches pages, the database file.  A codec context points back at its b-tree (\<open>ctx->pBt\<close>); the
  operations below therefore take the \<open>btree\<close> as an argument next to the context.
\<close>

section \<open>State\<close>

text \<open>An open file: its bytes, and whether the system's read calls fail.\<close>

record os_file =
  f_bytes :: bytes
  f_read_fails :: bool

datatype getter = getPageError | getPageMMap | getPageNormal

record btree =
  bt_autoVacuum :: bool
  bt_incrVacuum :: bool
  bt_btsFlags :: u16
  bt_pageSize :: int
  bt_usableSize :: int
  bt_nReserveWanted :: int
  pg_fd :: "os_file option"
  pg_memDb :: bool
  pg_errCode :: int
  pg_eState :: int
  pg_xGet :: getter
  pg_bUseFetch :: bool
  pg_szMmap :: int
  pg_hasCodec :: bool
  pg_pageSize :: int
  pg_nReserve :: int
  pg_lckPgno :: u32
  pg_dbSize :: int
  pg_nRef :: int
  pg_iDataVersion :: u32
  db_errCode :: int
  db_nextPagesize :: int

abbreviation (input) PAGER_OPEN :: int where "PAGER_OPEN \<equiv> 0"
abbreviation (input) PAGER_ERROR :: int where "PAGER_ERROR \<equiv> 6"
abbreviation (input) SQLITE_IOERR_READ :: int where "SQLITE_IOERR_READ \<equiv> 266"
abbreviation (input) SQLITE_IOERR_SHORT_READ :: int where "SQLITE_IOERR_SHORT_READ \<equiv> 522"

definition BTS_PAGESIZE_FIXED :: u16 where "BTS_PAGESIZE_FIXED = 2"
definition BTS_SECURE_DELETE :: u16 where "BTS_SECURE_DELETE = 4"
definition BTS_FAST_SECURE :: u16 where "BTS_FAST_SECURE = 12"

section \<open>Files\<close>

text \<open>
  \<open>unixRead\<close> into \<open>buf\<close>, through \<open>sqlite3OsRead\<close>: an incomplete read zero-fills the rest of the
  requested range and says so; \<open>pread\<close> refuses a negative offset.
\<close>

definition sqlite3OsRead :: "os_file \<Rightarrow> bytes \<Rightarrow> int \<Rightarrow> int \<Rightarrow> (int \<times> bytes) option" where
  "sqlite3OsRead fd buf amt offset =
     (if f_read_fails fd \<or> offset < 0 then Some (SQLITE_IOERR_READ, buf)
      else (let got = take (nat amt) (drop (nat offset) (f_bytes fd)) in
            if int (length got) = amt
            then do { buf \<leftarrow> poke buf 0 got; Some (SQLITE_OK, buf) }
            else do { buf \<leftarrow> poke buf 0 (got @ replicate (nat amt - length got) 0);
                      Some (SQLITE_IOERR_SHORT_READ, buf) }))"

definition sqlite3OsFileSize :: "os_file \<Rightarrow> int" where
  "sqlite3OsFileSize fd = int (length (f_bytes fd))"

section \<open>Pager\<close>

definition setGetterMethod :: "btree \<Rightarrow> btree" where
  "setGetterMethod bt =
     bt\<lparr>pg_xGet := (if pg_errCode bt \<noteq> 0 then getPageError
                    else if pg_bUseFetch bt \<and> \<not> pg_hasCodec bt then getPageMMap
                    else getPageNormal)\<rparr>"

definition sqlite3pager_error :: "btree \<Rightarrow> int \<Rightarrow> btree" where
  "sqlite3pager_error bt err = setGetterMethod (bt\<lparr>pg_errCode := err, pg_eState := PAGER_ERROR\<rparr>)"

definition pager_reset :: "btree \<Rightarrow> btree" where
  "pager_reset bt = bt\<lparr>pg_iDataVersion := pg_iDataVersion bt + 1\<rparr>"

definition sqlite3pager_is_sj_pgno :: "btree \<Rightarrow> u32 \<Rightarrow> bool" where
  "sqlite3pager_is_sj_pgno bt pgno \<longleftrightarrow> pg_lckPgno bt = pgno"

definition pagerFixMaplimit :: "btree \<Rightarrow> btree" where
  "pagerFixMaplimit bt =
     (if pg_fd bt \<noteq> None then setGetterMethod (bt\<lparr>pg_bUseFetch := (pg_szMmap bt > 0)\<rparr>) else bt)"

text \<open>
  \<open>sqlite3PagerSetPagesize\<close>; the codec registers no size-change callback, so \<open>pagerReportSize\<close> does
  nothing.  Both allocations (the temporary page and the new page cache) can fail.
\<close>

definition sqlite3PagerSetPagesize :: "btree \<Rightarrow> int \<Rightarrow> 'e world \<Rightarrow> int \<times> btree \<times> 'e world" where
  "sqlite3PagerSetPagesize bt nReserve w =
     (let pageSize = bt_pageSize bt;
          (rc, bt, w) =
            (if (\<not> pg_memDb bt \<or> pg_dbSize bt = 0) \<and> pg_nRef bt = 0
                \<and> pageSize \<noteq> 0 \<and> pageSize \<noteq> pg_pageSize bt
             then
               (let nByte = (case pg_fd bt of
                               Some fd \<Rightarrow> if pg_eState bt > PAGER_OPEN then sqlite3OsFileSize fd else 0
                             | None \<Rightarrow> 0);
                    (tmp, w) = sqlite3Malloc (pageSize + 8) w
                in if \<not> tmp then (SQLITE_NOMEM, bt, w)
                   else (let bt = pager_reset bt; (cache, w) = sqlite3Malloc pageSize w
                         in if \<not> cache then (SQLITE_NOMEM, bt, w)
                            else (SQLITE_OK,
                                  bt\<lparr>pg_dbSize := (nByte + pageSize - 1) div pageSize,
                                     pg_pageSize := pageSize,
                                     pg_lckPgno := word_of_int (0x40000000 div pageSize) + 1\<rparr>, w)))
             else (SQLITE_OK, bt, w));
          bt = bt\<lparr>bt_pageSize := pg_pageSize bt\<rparr>
      in if rc = SQLITE_OK
         then (rc, pagerFixMaplimit (bt\<lparr>pg_nReserve := (if nReserve < 0 then pg_nReserve bt else nReserve)\<rparr>), w)
         else (rc, bt, w))"

section \<open>B-tree\<close>

definition sqlite3BtreeSetPageSize ::
    "btree \<Rightarrow> int \<Rightarrow> int \<Rightarrow> bool \<Rightarrow> 'e world \<Rightarrow> int \<times> btree \<times> 'e world" where
  "sqlite3BtreeSetPageSize bt pageSize nReserve iFix w =
     (let bt = bt\<lparr>bt_nReserveWanted := nReserve mod 256\<rparr>;
          x = bt_pageSize bt - bt_usableSize bt;
          nReserve = (if nReserve < x then x else nReserve)
      in if bt_btsFlags bt AND BTS_PAGESIZE_FIXED \<noteq> 0 then (SQLITE_READONLY, bt, w)
         else
           (let bt = (if 512 \<le> pageSize \<and> pageSize \<le> 65536 \<and> (pageSize - 1) AND pageSize = 0
                      then bt\<lparr>bt_pageSize := (if nReserve > 32 \<and> pageSize = 512 then 1024 else pageSize)\<rparr>
                      else bt);
                (rc, bt, w) = sqlite3PagerSetPagesize bt nReserve w;
                bt = bt\<lparr>bt_usableSize := bt_pageSize bt - nReserve mod 65536\<rparr>;
                bt = (if iFix then bt\<lparr>bt_btsFlags := bt_btsFlags bt OR BTS_PAGESIZE_FIXED\<rparr> else bt)
            in (rc, bt, w)))"

definition sqlite3BtreeGetRequestedReserve :: "btree \<Rightarrow> int" where
  "sqlite3BtreeGetRequestedReserve bt =
     (let n1 = bt_nReserveWanted bt; n2 = bt_pageSize bt - bt_usableSize bt
      in if n1 > n2 then n1 else n2)"

definition sqlite3BtreeSecureDelete :: "btree \<Rightarrow> int \<Rightarrow> int \<times> btree" where
  "sqlite3BtreeSecureDelete bt newFlag =
     (let bt = (if newFlag \<ge> 0
                then bt\<lparr>bt_btsFlags := (bt_btsFlags bt AND NOT BTS_FAST_SECURE)
                                         OR (BTS_SECURE_DELETE * word_of_int newFlag)\<rparr>
                else bt)
      in (uint ((bt_btsFlags bt AND BTS_FAST_SECURE) div BTS_SECURE_DELETE), bt))"

definition sqlite3BtreeSetAutoVacuum :: "btree \<Rightarrow> int \<Rightarrow> int \<times> btree" where
  "sqlite3BtreeSetAutoVacuum bt autoVacuum =
     (let av = (word_of_int autoVacuum :: u8) in
      if bt_btsFlags bt AND BTS_PAGESIZE_FIXED \<noteq> 0 \<and> (av \<noteq> 0) \<noteq> bt_autoVacuum bt
      then (SQLITE_READONLY, bt)
      else (SQLITE_OK, bt\<lparr>bt_autoVacuum := (av \<noteq> 0), bt_incrVacuum := (av = 2)\<rparr>))"

definition sqlite3BtreeGetAutoVacuum :: "btree \<Rightarrow> int" where
  "sqlite3BtreeGetAutoVacuum bt =
     (if \<not> bt_autoVacuum bt then 0 else if \<not> bt_incrVacuum bt then 1 else 2)"

section \<open>Facts\<close>

lemma pager_error_facts [simp]:
  "pg_errCode (sqlite3pager_error bt e) = e" "pg_eState (sqlite3pager_error bt e) = 6"
  "e \<noteq> 0 \<Longrightarrow> pg_xGet (sqlite3pager_error bt e) = getPageError"
  "bt_autoVacuum (sqlite3pager_error bt e) = bt_autoVacuum bt"
  "bt_incrVacuum (sqlite3pager_error bt e) = bt_incrVacuum bt"
  "pg_fd (sqlite3pager_error bt e) = pg_fd bt"
  by (simp_all add: sqlite3pager_error_def setGetterMethod_def)

lemma auto_vacuum_roundtrip:
  "sqlite3BtreeSetAutoVacuum bt av = (0, bt') \<Longrightarrow> 0 \<le> av \<Longrightarrow> av \<le> 2 \<Longrightarrow>
     sqlite3BtreeGetAutoVacuum bt' = av"
proof -
  assume a: "sqlite3BtreeSetAutoVacuum bt av = (0, bt')" and "0 \<le> av" "av \<le> 2"
  then consider "av = 0" | "av = 1" | "av = 2" by linarith
  then show ?thesis
    using a by cases (auto simp: sqlite3BtreeSetAutoVacuum_def sqlite3BtreeGetAutoVacuum_def
        split: if_splits)
qed

lemma os_read_length: "sqlite3OsRead fd buf amt off = Some (rc, buf') \<Longrightarrow> length buf' = length buf"
  by (auto simp: sqlite3OsRead_def Let_def dest: poke_length split: if_splits bind_splits)

lemma os_read_defined:
  assumes "0 \<le> amt" "amt \<le> int (length buf)"
  shows "\<exists>rc buf'. sqlite3OsRead fd buf amt off = Some (rc, buf') \<and> length buf' = length buf"
proof -
  let ?got = "take (nat amt) (drop (nat off) (f_bytes fd))"
  have l: "int (length ?got) \<le> amt" "length (?got @ replicate (nat amt - length ?got) 0) = nat amt"
    using assms by auto
  show ?thesis
    using poke_defined [of 0 ?got buf] poke_defined [of 0 "?got @ replicate (nat amt - length ?got) 0" buf]
      l assms by (auto simp: sqlite3OsRead_def Let_def)
qed

end
