(* ===== verification/Codec_Ctx.thy ===== *)
theory Codec_Ctx
  imports Crypto_Provider Pager_State
begin

text \<open>
  The cipher contexts and their settings (\<^verbatim>\<open>sqlcipher.c\<close>, from \<open>sqlcipher_cipher_ctx_init\<close> to
  \<open>sqlcipher_codec_ctx_free\<close>).  A \<open>codec_ctx\<close> has one \<open>cipher_ctx\<close> for reading and one for writing; a
  rekey writes with the new key while the journal and the pages not yet rewritten still use the
  old one.  \<open>codec_wf\<close> is the invariant of a context that \<open>sqlcipher_codec_ctx_init\<close> establishes and
  the setters keep.

  A pointer copied by \<open>memcpy(target, source, sizeof(cipher_ctx))\<close> is a copy of the block here.
\<close>

section \<open>Cipher contexts\<close>

definition sizeof_cipher_ctx :: int where "sizeof_cipher_ctx = 40"
definition sizeof_codec_ctx :: int where "sizeof_codec_ctx = 128"

definition free_struct :: "int \<Rightarrow> 'e world \<Rightarrow> 'e world" where
  "free_struct sz w = sqlite3_free (Some (replicate (nat sz) 0)) w"

definition empty_cipher_ctx :: cipher_ctx where
  "empty_cipher_ctx = \<lparr> c_derive_key = 0, c_pass_sz = 0, c_key = None, c_hmac_key = None,
     c_pass = None, c_keyspec = None \<rparr>"

definition sqlcipher_cipher_ctx_init ::
    "'e codec_ctx \<Rightarrow> 'e world \<Rightarrow> int \<times> cipher_ctx option \<times> 'e world" where
  "sqlcipher_cipher_ctx_init ctx w =
     (case sqlcipher_malloc sizeof_cipher_ctx w of
        (None, w) \<Rightarrow> (SQLITE_NOMEM, None, w)
      | (Some _, w) \<Rightarrow>
          let (key, w) = sqlcipher_malloc (ctx_key_sz ctx) w;
              (hmac_key, w) = sqlcipher_malloc (ctx_key_sz ctx) w;
              c = empty_cipher_ctx\<lparr>c_key := key, c_hmac_key := hmac_key\<rparr>
          in if key = None then (SQLITE_NOMEM, Some c, w)
             else if hmac_key = None then (SQLITE_NOMEM, Some c, w)
             else (SQLITE_OK, Some c, w))"

definition sqlcipher_cipher_ctx_free ::
    "'e codec_ctx \<Rightarrow> cipher_ctx option \<Rightarrow> 'e world \<Rightarrow> 'e world option" where
  "sqlcipher_cipher_ctx_free ctx iCtx w =
     do { c \<leftarrow> iCtx;
          w \<leftarrow> free_if (c_key c) (ctx_key_sz ctx) w;
          w \<leftarrow> free_if (c_hmac_key c) (ctx_key_sz ctx) w;
          w \<leftarrow> free_if (c_pass c) (c_pass_sz c) w;
          w \<leftarrow> free_if (c_keyspec c) (ctx_keyspec_sz ctx) w;
          Some (free_struct sizeof_cipher_ctx w) }"

definition sqlcipher_codec_ctx_reserve_setup :: "'e codec_ctx \<Rightarrow> (int \<times> 'e codec_ctx) option" where
  "sqlcipher_codec_ctx_reserve_setup ctx =
     do { p \<leftarrow> ctx_provider ctx;
          let base_reserve = ctx_iv_sz ctx;
          let ctx = ctx\<lparr>ctx_hmac_sz := p_get_hmac_sz p (ctx_hmac_algorithm ctx)\<rparr>;
          let reserve = (if flag_get (ctx_flags ctx) CIPHER_FLAG_HMAC
                         then base_reserve + ctx_hmac_sz ctx else base_reserve);
          let reserve = (if ctx_block_sz ctx > 0
                         then if reserve mod ctx_block_sz ctx = 0 then reserve
                              else (reserve div ctx_block_sz ctx + 1) * ctx_block_sz ctx
                         else reserve);
          Some (SQLITE_OK, ctx\<lparr>ctx_reserve_sz := reserve\<rparr>) }"

text \<open>\<open>sqlcipher_cipher_ctx_cmp\<close>: 0 when the passphrases agree.  The disjunct on the pointers holds
  for two null pointers; for two pointers to the same block the comparison of the bytes agrees with
  it.\<close>

definition sqlcipher_cipher_ctx_cmp :: "cipher_ctx \<Rightarrow> cipher_ctx \<Rightarrow> int option" where
  "sqlcipher_cipher_ctx_cmp c1 c2 =
     (if c_pass_sz c1 = c_pass_sz c2 then
        (if c_pass c1 = None \<and> c_pass c2 = None then Some 0
         else do { a \<leftarrow> c_pass c1; b \<leftarrow> c_pass c2; sqlcipher_memcmp a b (c_pass_sz c1) })
      else Some 1)"

text \<open>One of the two tails of \<open>sqlcipher_cipher_ctx_copy\<close>: a fresh block for the pointer field
  that \<open>upd\<close> updates of the target, filled with the source's \<open>n\<close> bytes.\<close>

definition copy_field ::
    "((bytes option \<Rightarrow> bytes option) \<Rightarrow> cipher_ctx \<Rightarrow> cipher_ctx) \<Rightarrow> bytes option \<Rightarrow> int \<Rightarrow>
     cipher_ctx \<times> 'e world \<Rightarrow> (int \<times> cipher_ctx \<times> 'e world) option" where
  "copy_field upd src n = (\<lambda>(target, w).
     (case sqlcipher_malloc n w of
        (None, w) \<Rightarrow> Some (SQLITE_NOMEM, upd (\<lambda>_. None) target, w)
      | (Some b, w) \<Rightarrow>
          do { s \<leftarrow> src;
               d \<leftarrow> peek s 0 n;
               b \<leftarrow> poke b 0 d;
               Some (SQLITE_OK, upd (\<lambda>_. Some b) target, w) }))"

definition sqlcipher_cipher_ctx_copy ::
    "'e codec_ctx \<Rightarrow> cipher_ctx \<Rightarrow> cipher_ctx \<Rightarrow> 'e world \<Rightarrow> (int \<times> cipher_ctx \<times> 'e world) option" where
  "sqlcipher_cipher_ctx_copy ctx target source w =
     do { key \<leftarrow> c_key target;
          hmac_key \<leftarrow> c_hmac_key target;
          w \<leftarrow> free_if (c_pass target) (c_pass_sz target) w;
          w \<leftarrow> free_if (c_keyspec target) (ctx_keyspec_sz ctx) w;
          skey \<leftarrow> c_key source;
          d \<leftarrow> peek skey 0 (ctx_key_sz ctx);
          key \<leftarrow> poke key 0 d;
          shmac \<leftarrow> c_hmac_key source;
          d \<leftarrow> peek shmac 0 (ctx_key_sz ctx);
          hmac_key \<leftarrow> poke hmac_key 0 d;
          let target = source\<lparr>c_key := Some key, c_hmac_key := Some hmac_key\<rparr>;
          on_ok
            (if c_pass source \<noteq> None \<and> c_pass_sz source \<noteq> 0
             then copy_field c_pass_update (c_pass source) (c_pass_sz source) (target, w)
             else Some (SQLITE_OK, target, w))
            (\<lambda>(target, w).
               if c_keyspec source \<noteq> None
               then copy_field c_keyspec_update (c_keyspec source) (ctx_keyspec_sz ctx) (target, w)
               else Some (SQLITE_OK, target, w)) }"

definition sqlcipher_cipher_ctx_set_keyspec ::
    "'e codec_ctx \<Rightarrow> cipher_ctx \<Rightarrow> bytes \<Rightarrow> 'e world \<Rightarrow> (int \<times> cipher_ctx \<times> 'e world) option" where
  "sqlcipher_cipher_ctx_set_keyspec ctx c key w =
     do { w \<leftarrow> free_if (c_keyspec c) (ctx_keyspec_sz ctx) w;
          (case sqlcipher_malloc (ctx_keyspec_sz ctx) w of
             (None, w) \<Rightarrow> Some (SQLITE_NOMEM, c\<lparr>c_keyspec := None\<rparr>, w)
           | (Some ks, w) \<Rightarrow>
               do { ks \<leftarrow> poke ks 0 [120];
                    ks \<leftarrow> poke ks 1 [39];
                    t \<leftarrow> cipher_bin2hex key (ctx_key_sz ctx) (drop 2 ks);
                    let ks = take 2 ks @ t;
                    salt \<leftarrow> ctx_kdf_salt ctx;
                    let o' = nat (ctx_key_sz ctx * 2 + 2);
                    t \<leftarrow> cipher_bin2hex salt (ctx_kdf_salt_sz ctx) (drop o' ks);
                    let ks = take o' ks @ t;
                    ks \<leftarrow> poke ks (ctx_keyspec_sz ctx - 1) [39];
                    Some (SQLITE_OK, c\<lparr>c_keyspec := Some ks\<rparr>, w) }) }"

definition sqlcipher_set_derive_key :: "'e codec_ctx \<Rightarrow> int \<Rightarrow> 'e codec_ctx" where
  "sqlcipher_set_derive_key ctx d =
     ctx\<lparr>ctx_read_ctx := map_option (c_derive_key_update (\<lambda>_. d)) (ctx_read_ctx ctx),
         ctx_write_ctx := map_option (c_derive_key_update (\<lambda>_. d)) (ctx_write_ctx ctx)\<rparr>"

definition sqlcipher_cipher_ctx_set_pass ::
    "cipher_ctx \<Rightarrow> bytes option \<Rightarrow> int \<Rightarrow> 'e world \<Rightarrow> (int \<times> cipher_ctx \<times> 'e world) option" where
  "sqlcipher_cipher_ctx_set_pass c zKey nKey w =
     do { w \<leftarrow> free_if (c_pass c) (c_pass_sz c) w;
          let c = c\<lparr>c_pass := None, c_pass_sz := 0\<rparr>;
          (case zKey of
             None \<Rightarrow> Some (SQLITE_OK, c, w)
           | Some z \<Rightarrow>
               if nKey = 0 then Some (SQLITE_OK, c, w)
               else (case sqlcipher_malloc nKey w of
                       (None, w) \<Rightarrow> Some (SQLITE_NOMEM, c\<lparr>c_pass_sz := nKey\<rparr>, w)
                     | (Some b, w) \<Rightarrow>
                         do { d \<leftarrow> peek z 0 nKey;
                              b \<leftarrow> poke b 0 d;
                              Some (SQLITE_OK, c\<lparr>c_pass_sz := nKey, c_pass := Some b\<rparr>, w) })) }"

text \<open>The sub-context \<open>for_ctx ? write_ctx : read_ctx\<close>, and storing it back.\<close>

definition sel_ctx :: "'e codec_ctx \<Rightarrow> int \<Rightarrow> cipher_ctx option" where
  "sel_ctx ctx for_ctx = (if for_ctx \<noteq> 0 then ctx_write_ctx ctx else ctx_read_ctx ctx)"

definition upd_ctx :: "'e codec_ctx \<Rightarrow> int \<Rightarrow> cipher_ctx \<Rightarrow> 'e codec_ctx" where
  "upd_ctx ctx for_ctx c =
     (if for_ctx \<noteq> 0 then ctx\<lparr>ctx_write_ctx := Some c\<rparr> else ctx\<lparr>ctx_read_ctx := Some c\<rparr>)"

definition sqlcipher_codec_ctx_set_pass ::
    "'e codec_ctx \<Rightarrow> bytes option \<Rightarrow> int \<Rightarrow> int \<Rightarrow> 'e world \<Rightarrow> (int \<times> 'e codec_ctx \<times> 'e world) option" where
  "sqlcipher_codec_ctx_set_pass ctx zKey nKey for_ctx w =
     do { c \<leftarrow> sel_ctx ctx for_ctx;
          (rc, c, w) \<leftarrow> sqlcipher_cipher_ctx_set_pass c zKey nKey w;
          if rc \<noteq> SQLITE_OK then Some (rc, upd_ctx ctx for_ctx c, w)
          else do {
            let c = c\<lparr>c_derive_key := 1\<rparr>;
            let ctx = upd_ctx ctx for_ctx c;
            if for_ctx = 2 then
              do { other \<leftarrow> ctx_read_ctx ctx;
                   (rc, other, w) \<leftarrow> sqlcipher_cipher_ctx_copy ctx other c w;
                   Some (rc, ctx\<lparr>ctx_read_ctx := Some other\<rparr>, w) }
            else Some (SQLITE_OK, ctx, w) } }"

section \<open>Settings\<close>

definition sqlcipher_codec_ctx_set_kdf_iter :: "'e codec_ctx \<Rightarrow> int \<Rightarrow> int \<times> 'e codec_ctx" where
  "sqlcipher_codec_ctx_set_kdf_iter ctx n =
     (SQLITE_OK, sqlcipher_set_derive_key (ctx\<lparr>ctx_kdf_iter := n\<rparr>) 1)"

definition sqlcipher_codec_ctx_set_fast_kdf_iter :: "'e codec_ctx \<Rightarrow> int \<Rightarrow> int \<times> 'e codec_ctx" where
  "sqlcipher_codec_ctx_set_fast_kdf_iter ctx n =
     (SQLITE_OK, sqlcipher_set_derive_key (ctx\<lparr>ctx_fast_kdf_iter := n\<rparr>) 1)"

definition sqlcipher_set_default_use_hmac :: "int \<Rightarrow> 'e world \<Rightarrow> 'e world" where
  "sqlcipher_set_default_use_hmac use w =
     (if use \<noteq> 0 then w\<lparr>default_flags := flag_set (default_flags w) CIPHER_FLAG_HMAC\<rparr>
      else w\<lparr>default_flags := flag_unset (default_flags w) CIPHER_FLAG_HMAC\<rparr>)"

definition sqlcipher_codec_ctx_set_use_hmac :: "'e codec_ctx \<Rightarrow> int \<Rightarrow> (int \<times> 'e codec_ctx) option" where
  "sqlcipher_codec_ctx_set_use_hmac ctx use =
     (let ctx = (if use \<noteq> 0 then ctx\<lparr>ctx_flags := flag_set (ctx_flags ctx) CIPHER_FLAG_HMAC\<rparr>
                 else ctx\<lparr>ctx_flags := flag_unset (ctx_flags ctx) CIPHER_FLAG_HMAC\<rparr>)
      in sqlcipher_codec_ctx_reserve_setup ctx)"

definition sqlcipher_codec_ctx_set_plaintext_header_size :: "'e codec_ctx \<Rightarrow> int \<Rightarrow> int \<times> 'e codec_ctx" where
  "sqlcipher_codec_ctx_set_plaintext_header_size ctx sz =
     (if sz \<ge> 0 \<and> ctx_block_sz ctx > 0 \<and> sz mod ctx_block_sz ctx = 0
         \<and> sz < ctx_page_sz ctx - ctx_reserve_sz ctx
      then (SQLITE_OK, ctx\<lparr>ctx_plaintext_header_sz := sz\<rparr>)
      else (SQLITE_ERROR, ctx\<lparr>ctx_plaintext_header_sz := -1\<rparr>))"

definition sqlcipher_codec_ctx_set_hmac_algorithm :: "'e codec_ctx \<Rightarrow> int \<Rightarrow> (int \<times> 'e codec_ctx) option" where
  "sqlcipher_codec_ctx_set_hmac_algorithm ctx algorithm =
     sqlcipher_codec_ctx_reserve_setup (ctx\<lparr>ctx_hmac_algorithm := algorithm\<rparr>)"

definition sqlcipher_codec_ctx_set_kdf_algorithm :: "'e codec_ctx \<Rightarrow> int \<Rightarrow> int \<times> 'e codec_ctx" where
  "sqlcipher_codec_ctx_set_kdf_algorithm ctx algorithm = (SQLITE_OK, ctx\<lparr>ctx_kdf_algorithm := algorithm\<rparr>)"

definition sqlcipher_codec_ctx_set_error :: "btree \<Rightarrow> int \<Rightarrow> btree" where
  "sqlcipher_codec_ctx_set_error bt err = (sqlite3pager_error bt err)\<lparr>db_errCode := err\<rparr>"

definition sqlcipher_codec_ctx_init_kdf_salt ::
    "btree \<Rightarrow> 'e codec_ctx \<Rightarrow> 'e world \<Rightarrow> (int \<times> 'e codec_ctx \<times> 'e world) option" where
  "sqlcipher_codec_ctx_init_kdf_salt bt ctx w =
     (if flag_get (ctx_flags ctx) CIPHER_FLAG_HAS_KDF_SALT then Some (SQLITE_OK, ctx, w)
      else do {
        salt \<leftarrow> ctx_kdf_salt ctx;
        (ok, salt) \<leftarrow> (case pg_fd bt of
                         None \<Rightarrow> Some (False, salt)
                       | Some fd \<Rightarrow> do { (rc, salt) \<leftarrow> sqlite3OsRead fd salt (ctx_kdf_salt_sz ctx) 0;
                                         Some (rc = SQLITE_OK, salt) });
        let ctx = ctx\<lparr>ctx_kdf_salt := Some salt\<rparr>;
        if ok then Some (SQLITE_OK, ctx\<lparr>ctx_flags := flag_set (ctx_flags ctx) CIPHER_FLAG_HAS_KDF_SALT\<rparr>, w)
        else do {
          p \<leftarrow> ctx_provider ctx;
          (case p_random p (w_entropy w) (ctx_kdf_salt_sz ctx) of
             (None, e) \<Rightarrow> Some (SQLITE_ERROR, ctx, w\<lparr>w_entropy := e\<rparr>)
           | (Some r, e) \<Rightarrow>
               do { salt \<leftarrow> poke salt 0 r;
                    Some (SQLITE_OK, ctx\<lparr>ctx_kdf_salt := Some salt,
                            ctx_flags := flag_set (ctx_flags ctx) CIPHER_FLAG_HAS_KDF_SALT\<rparr>,
                          w\<lparr>w_entropy := e\<rparr>) }) } })"

definition sqlcipher_codec_ctx_set_kdf_salt ::
    "'e codec_ctx \<Rightarrow> bytes \<Rightarrow> int \<Rightarrow> (int \<times> 'e codec_ctx) option" where
  "sqlcipher_codec_ctx_set_kdf_salt ctx salt sz =
     (if sz \<ge> ctx_kdf_salt_sz ctx then
        do { b \<leftarrow> ctx_kdf_salt ctx;
             d \<leftarrow> peek salt 0 (ctx_kdf_salt_sz ctx);
             b \<leftarrow> poke b 0 d;
             Some (SQLITE_OK, ctx\<lparr>ctx_kdf_salt := Some b,
                     ctx_flags := flag_set (ctx_flags ctx) CIPHER_FLAG_HAS_KDF_SALT\<rparr>) }
      else Some (SQLITE_ERROR, ctx))"

definition sqlcipher_codec_ctx_get_kdf_salt ::
    "btree \<Rightarrow> 'e codec_ctx \<Rightarrow> 'e world \<Rightarrow> (int \<times> bytes option \<times> 'e codec_ctx \<times> 'e world) option" where
  "sqlcipher_codec_ctx_get_kdf_salt bt ctx w =
     do { (rc, ctx, w) \<leftarrow> (if \<not> flag_get (ctx_flags ctx) CIPHER_FLAG_HAS_KDF_SALT
                            then sqlcipher_codec_ctx_init_kdf_salt bt ctx w
                            else Some (SQLITE_OK, ctx, w));
          Some (rc, ctx_kdf_salt ctx, ctx, w) }"

definition sqlcipher_codec_ctx_set_pagesize ::
    "'e codec_ctx \<Rightarrow> int \<Rightarrow> 'e world \<Rightarrow> (int \<times> 'e codec_ctx \<times> 'e world) option" where
  "sqlcipher_codec_ctx_set_pagesize ctx sz w =
     (if \<not> (sz \<noteq> 0 \<and> sz AND (sz - 1) = 0) \<or> sz < 512 \<or> sz > 65536 then Some (SQLITE_ERROR, ctx, w)
      else do {
        w \<leftarrow> free_if (ctx_buffer ctx) (ctx_page_sz ctx) w;
        (case sqlcipher_malloc sz w of
           (None, w) \<Rightarrow> Some (SQLITE_NOMEM, ctx\<lparr>ctx_page_sz := sz, ctx_buffer := None\<rparr>, w)
         | (Some b, w) \<Rightarrow> Some (SQLITE_OK, ctx\<lparr>ctx_page_sz := sz, ctx_buffer := Some b\<rparr>, w)) })"

section \<open>Construction and destruction\<close>

definition zero_codec_ctx :: "'e codec_ctx" where
  "zero_codec_ctx =
     \<lparr> ctx_store_pass = 0, ctx_kdf_iter = 0, ctx_fast_kdf_iter = 0, ctx_kdf_salt_sz = 0, ctx_key_sz = 0,
       ctx_iv_sz = 0, ctx_block_sz = 0, ctx_page_sz = 0, ctx_keyspec_sz = 0, ctx_reserve_sz = 0,
       ctx_hmac_sz = 0, ctx_plaintext_header_sz = 0, ctx_hmac_algorithm = 0, ctx_kdf_algorithm = 0,
       ctx_flags = 0, ctx_kdf_salt = None, ctx_hmac_kdf_salt = None, ctx_buffer = None,
       ctx_read_ctx = None, ctx_write_ctx = None, ctx_provider = None \<rparr>"

text \<open>
  \<open>sqlcipher_codec_ctx_init\<close> in its three stages: the blocks and the provider, the settings taken
  from the defaults, the two sub-contexts with the key.
\<close>

definition ctx_init_provider :: "'e codec_ctx \<times> 'e world \<Rightarrow> (int \<times> 'e codec_ctx \<times> 'e world) option" where
  "ctx_init_provider = (\<lambda>(ctx, w).
     do { let ctx = ctx\<lparr>ctx_kdf_salt_sz := FILE_HEADER_SZ\<rparr>;
          let (salt, w) = sqlcipher_malloc (ctx_kdf_salt_sz ctx) w;
          let ctx = ctx\<lparr>ctx_kdf_salt := salt\<rparr>;
          if salt = None then Some (SQLITE_NOMEM, ctx, w) else do {
          let (hsalt, w) = sqlcipher_malloc (ctx_kdf_salt_sz ctx) w;
          let ctx = ctx\<lparr>ctx_hmac_kdf_salt := hsalt\<rparr>;
          if hsalt = None then Some (SQLITE_NOMEM, ctx, w) else do {
          let ctx = ctx\<lparr>ctx_flags := default_flags w\<rparr>;
          let (pm, w) = sqlcipher_malloc sizeof_provider w;
          if pm = None then Some (SQLITE_NOMEM, ctx, w) else do {
          p \<leftarrow> default_provider w;
          let ctx = ctx\<lparr>ctx_provider := Some p\<rparr>;
          if p_ctx_init p \<noteq> SQLITE_OK then Some (p_ctx_init p, ctx, w) else do {
          let ctx = ctx\<lparr>ctx_key_sz := p_get_key_sz p, ctx_iv_sz := p_get_iv_sz p,
                        ctx_block_sz := p_get_block_sz p\<rparr>;
          Some (SQLITE_OK, ctx\<lparr>ctx_keyspec_sz := (ctx_key_sz ctx + ctx_kdf_salt_sz ctx) * 2 + 3\<rparr>, w) } } } } })"

definition ctx_init_settings :: "'e codec_ctx \<times> 'e world \<Rightarrow> (int \<times> 'e codec_ctx \<times> 'e world) option" where
  "ctx_init_settings = (\<lambda>(ctx, w).
     on_ok (sqlcipher_codec_ctx_set_pagesize ctx (default_page_size w) w) (\<lambda>(ctx, w).
       (case sqlcipher_codec_ctx_set_kdf_iter ctx (default_kdf_iter w) of (rc, ctx) \<Rightarrow>
        if rc \<noteq> SQLITE_OK then Some (rc, ctx, w) else
       (case sqlcipher_codec_ctx_set_fast_kdf_iter ctx FAST_PBKDF2_ITER of (rc, ctx) \<Rightarrow>
        if rc \<noteq> SQLITE_OK then Some (rc, ctx, w) else
        do { (rc, ctx) \<leftarrow> sqlcipher_codec_ctx_set_hmac_algorithm ctx (default_hmac_algorithm w);
             if rc \<noteq> SQLITE_OK then Some (rc, ctx, w) else do {
             (rc, ctx) \<leftarrow> sqlcipher_codec_ctx_set_use_hmac ctx
                            (of_bool (flag_get (default_flags w) CIPHER_FLAG_HMAC));
             if rc \<noteq> SQLITE_OK then Some (rc, ctx, w) else
             (case sqlcipher_codec_ctx_set_kdf_algorithm ctx (default_kdf_algorithm w) of (rc, ctx) \<Rightarrow>
              if rc \<noteq> SQLITE_OK then Some (rc, ctx, w) else
             (case sqlcipher_codec_ctx_set_plaintext_header_size ctx (default_plaintext_header_size w) of
                (rc, ctx) \<Rightarrow> Some (rc, ctx, w))) } }))))"

definition ctx_init_keys ::
    "bytes option \<Rightarrow> int \<Rightarrow> 'e codec_ctx \<times> 'e world \<Rightarrow> (int \<times> 'e codec_ctx \<times> 'e world) option" where
  "ctx_init_keys zKey nKey = (\<lambda>(ctx, w).
     (case sqlcipher_cipher_ctx_init ctx w of (rc, c, w) \<Rightarrow>
      let ctx = ctx\<lparr>ctx_read_ctx := c\<rparr> in
      if rc \<noteq> SQLITE_OK then Some (rc, ctx, w) else
     (case sqlcipher_cipher_ctx_init ctx w of (rc, c, w) \<Rightarrow>
      let ctx = ctx\<lparr>ctx_write_ctx := c\<rparr> in
      if rc \<noteq> SQLITE_OK then Some (rc, ctx, w) else
      on_ok (sqlcipher_codec_ctx_set_pass ctx zKey nKey 0 w) (\<lambda>(ctx, w).
        do { wc \<leftarrow> ctx_write_ctx ctx;
             rcx \<leftarrow> ctx_read_ctx ctx;
             (rc, wc, w) \<leftarrow> sqlcipher_cipher_ctx_copy ctx wc rcx w;
             Some (rc, ctx\<lparr>ctx_write_ctx := Some wc\<rparr>, w) }))))"

definition sqlcipher_codec_ctx_init ::
    "bytes option \<Rightarrow> int \<Rightarrow> 'e world \<Rightarrow> (int \<times> 'e codec_ctx option \<times> 'e world) option" where
  "sqlcipher_codec_ctx_init zKey nKey w =
     (case sqlcipher_malloc sizeof_codec_ctx w of
        (None, w) \<Rightarrow> Some (SQLITE_NOMEM, None, w)
      | (Some _, w) \<Rightarrow>
          map_option (\<lambda>(rc, ctx, w). (rc, Some ctx, w))
            (on_ok (on_ok (ctx_init_provider (zero_codec_ctx, w)) ctx_init_settings)
                   (ctx_init_keys zKey nKey)))"

definition sqlcipher_codec_ctx_free :: "'e codec_ctx \<Rightarrow> 'e world \<Rightarrow> 'e world option" where
  "sqlcipher_codec_ctx_free ctx w =
     do { w \<leftarrow> free_if (ctx_kdf_salt ctx) (ctx_kdf_salt_sz ctx) w;
          w \<leftarrow> free_if (ctx_hmac_kdf_salt ctx) (ctx_kdf_salt_sz ctx) w;
          w \<leftarrow> free_if (ctx_buffer ctx) (ctx_page_sz ctx) w;
          let w = (if ctx_provider ctx \<noteq> None then free_struct sizeof_provider w else w);
          w \<leftarrow> sqlcipher_cipher_ctx_free ctx (ctx_read_ctx ctx) w;
          w \<leftarrow> sqlcipher_cipher_ctx_free ctx (ctx_write_ctx ctx) w;
          Some (free_struct sizeof_codec_ctx w) }"

section \<open>The invariant\<close>

text \<open>A block of exactly the given size.\<close>

definition block_of :: "int \<Rightarrow> bytes option \<Rightarrow> bool" where
  "block_of n p \<longleftrightarrow> (\<exists>b. p = Some b \<and> int (length b) = n)"

lemma block_of_Some [simp]: "block_of n (Some b) \<longleftrightarrow> int (length b) = n"
  by (simp add: block_of_def)

lemma block_of_None [simp]: "\<not> block_of n None"
  by (simp add: block_of_def)

definition cipher_ctx_wf :: "'e codec_ctx \<Rightarrow> cipher_ctx option \<Rightarrow> bool" where
  "cipher_ctx_wf ctx co \<longleftrightarrow>
     (case co of None \<Rightarrow> False
      | Some c \<Rightarrow> block_of (ctx_key_sz ctx) (c_key c) \<and> block_of (ctx_key_sz ctx) (c_hmac_key c)
          \<and> (c_pass c = None \<longrightarrow> c_pass_sz c = 0)
          \<and> (c_pass c \<noteq> None \<longrightarrow> c_pass_sz c > 0 \<and> block_of (c_pass_sz c) (c_pass c))
          \<and> (c_keyspec c \<noteq> None \<longrightarrow> block_of (ctx_keyspec_sz ctx) (c_keyspec c)))"

definition page_size_ok :: "int \<Rightarrow> bool" where
  "page_size_ok n \<longleftrightarrow> 512 \<le> n \<and> n \<le> 65536 \<and> n AND (n - 1) = 0"

definition round_up :: "int \<Rightarrow> int \<Rightarrow> int" where
  "round_up n b = (n + b - 1) div b * b"

definition sizes_wf :: "'e sqlcipher_provider \<Rightarrow> 'e codec_ctx \<Rightarrow> bool" where
  "sizes_wf p ctx \<longleftrightarrow>
     ctx_provider ctx = Some p
   \<and> ctx_key_sz ctx = p_get_key_sz p \<and> ctx_iv_sz ctx = p_get_iv_sz p \<and> ctx_block_sz ctx = p_get_block_sz p
   \<and> ctx_hmac_sz ctx = p_get_hmac_sz p (ctx_hmac_algorithm ctx)
   \<and> ctx_reserve_sz ctx = round_up (ctx_iv_sz ctx
       + (if flag_get (ctx_flags ctx) CIPHER_FLAG_HMAC then ctx_hmac_sz ctx else 0)) (ctx_block_sz ctx)
   \<and> ctx_kdf_salt_sz ctx = 16 \<and> ctx_keyspec_sz ctx = (ctx_key_sz ctx + 16) * 2 + 3
   \<and> page_size_ok (ctx_page_sz ctx)"

definition codec_wf :: "'e sqlcipher_provider \<Rightarrow> 'e codec_ctx \<Rightarrow> bool" where
  "codec_wf p ctx \<longleftrightarrow>
     sizes_wf p ctx
   \<and> block_of 16 (ctx_kdf_salt ctx) \<and> block_of 16 (ctx_hmac_kdf_salt ctx)
   \<and> block_of (ctx_page_sz ctx) (ctx_buffer ctx)
   \<and> cipher_ctx_wf ctx (ctx_read_ctx ctx) \<and> cipher_ctx_wf ctx (ctx_write_ctx ctx)"

text \<open>The plaintext header leaves room for the reserve on page 1 (or marks an invalid setting).\<close>

definition header_fits :: "'e codec_ctx \<Rightarrow> bool" where
  "header_fits ctx \<longleftrightarrow>
     ctx_plaintext_header_sz ctx = -1
   \<or> (0 \<le> ctx_plaintext_header_sz ctx \<and> ctx_block_sz ctx dvd ctx_plaintext_header_sz ctx
      \<and> ctx_plaintext_header_sz ctx < ctx_page_sz ctx - ctx_reserve_sz ctx)"

section \<open>What the operations keep\<close>

text \<open>
  \<open>mem_step w w'\<close>: from \<open>w\<close> to \<open>w'\<close> only memory was taken and given back, everything given back was
  wiped, and random bytes may have been drawn.
\<close>

definition mem_step :: "'e world \<Rightarrow> 'e world \<Rightarrow> bool" where
  "mem_step w w' \<longleftrightarrow>
     w'\<lparr>w_nalloc := w_nalloc w, sqlcipher_mem_executed := sqlcipher_mem_executed w,
        w_freed := w_freed w, w_entropy := w_entropy w\<rparr> = w
   \<and> (\<exists>z. w_freed w' = z @ w_freed w \<and> (\<forall>b \<in> set z. set b \<subseteq> {0}))"

lemma mem_step_refl [simp, intro]: "mem_step w w"
  by (simp add: mem_step_def)

lemma mem_step_trans [trans]: "mem_step w w' \<Longrightarrow> mem_step w' w'' \<Longrightarrow> mem_step w w''"
proof -
  assume a: "mem_step w w'" and b: "mem_step w' w''"
  from a obtain z where z: "w_freed w' = z @ w_freed w" "\<forall>b \<in> set z. set b \<subseteq> {0}"
    unfolding mem_step_def by blast
  from b obtain z' where z': "w_freed w'' = z' @ w_freed w'" "\<forall>b \<in> set z'. set b \<subseteq> {0}"
    unfolding mem_step_def by blast
  have "w''\<lparr>w_nalloc := w_nalloc w, sqlcipher_mem_executed := sqlcipher_mem_executed w,
        w_freed := w_freed w, w_entropy := w_entropy w\<rparr> = w"
    using a b by (cases w; cases w'; cases w'') (auto simp: mem_step_def)
  moreover have "\<forall>b \<in> set (z' @ z). set b \<subseteq> {0}" using z(2) z'(2) by (simp add: ball_Un)
  ultimately show ?thesis
    unfolding mem_step_def using z(1) z'(1) by (intro conjI exI [of _ "z' @ z"]) simp_all
qed

lemma mem_step_fields:
  assumes "mem_step w w'"
  shows "default_flags w' = default_flags w" "default_kdf_iter w' = default_kdf_iter w"
    "default_page_size w' = default_page_size w"
    "default_plaintext_header_size w' = default_plaintext_header_size w"
    "default_hmac_algorithm w' = default_hmac_algorithm w"
    "default_kdf_algorithm w' = default_kdf_algorithm w"
    "default_provider w' = default_provider w" "hmac_salt_mask w' = hmac_salt_mask w"
    "sqlcipher_activate_count w' = sqlcipher_activate_count w"
    "sqlcipher_static_mutex w' = sqlcipher_static_mutex w"
    "sqlcipher_mem_security_on w' = sqlcipher_mem_security_on w"
    "w_alloc_ok w' = w_alloc_ok w"
  using assms by (cases w; cases w'; simp add: mem_step_def; blast)+

lemma mem_step_wiped: "mem_step w w' \<Longrightarrow> freed_wiped w \<Longrightarrow> freed_wiped w'"
  by (auto simp: mem_step_def freed_wiped_def)

text \<open>A request for \<open>n\<close> bytes can fail: the system has no memory, or the size is not a legal one.\<close>

definition may_fail :: "'e world \<Rightarrow> int \<Rightarrow> bool" where
  "may_fail w n \<longleftrightarrow> \<not> (\<forall>i. w_alloc_ok w i) \<or> n \<le> 0 \<or> n > 2147483391"

lemma malloc_step:
  assumes "sqlcipher_malloc n w = (r, w')"
  shows "mem_step w w'" and "r = Some b \<Longrightarrow> b = replicate (nat n) 0 \<and> 0 < n"
    and "r = None \<Longrightarrow> may_fail w n"
  using assms
  by (auto simp: sqlcipher_malloc_def sqlite3Malloc_def sqlcipher_mem_malloc_def mem_step_def may_fail_def
      split: if_splits prod.splits)

lemma may_fail_step: "mem_step w w' \<Longrightarrow> may_fail w' n = may_fail w n"
  by (simp add: may_fail_def mem_step_fields)

lemma free_step:
  assumes "p \<noteq> None \<Longrightarrow> block_of n p"
  shows "\<exists>w'. free_if p n w = Some w' \<and> mem_step w w'"
proof (cases p)
  case None
  then show ?thesis by (simp add: free_if_def)
next
  case (Some b)
  then have "int (length b) = n" using assms by (auto simp: block_of_def)
  with Some show ?thesis
    by (auto simp: free_if_def sqlcipher_free_exact mem_step_def)
qed

lemma free_struct_step: "mem_step w (free_struct n w)"
  by (auto simp: mem_step_def free_struct_def sqlite3_free_def sqlcipher_mem_free_def Let_def)

lemma cipher_ctx_free_step:
  assumes "cipher_ctx_wf ctx c"
  shows "\<exists>w'. sqlcipher_cipher_ctx_free ctx c w = Some w' \<and> mem_step w w'"
proof -
  obtain cc where c: "c = Some cc" using assms by (auto simp: cipher_ctx_wf_def split: option.splits)
  note wf = assms [unfolded c cipher_ctx_wf_def, simplified]
  obtain w1 where 1: "free_if (c_key cc) (ctx_key_sz ctx) w = Some w1" "mem_step w w1"
    using free_step wf by blast
  obtain w2 where 2: "free_if (c_hmac_key cc) (ctx_key_sz ctx) w1 = Some w2" "mem_step w1 w2"
    using free_step wf by blast
  obtain w3 where 3: "free_if (c_pass cc) (c_pass_sz cc) w2 = Some w3" "mem_step w2 w3"
    using free_step [of "c_pass cc" "c_pass_sz cc" w2] wf by (auto split: if_splits)
  obtain w4 where 4: "free_if (c_keyspec cc) (ctx_keyspec_sz ctx) w3 = Some w4" "mem_step w3 w4"
    using free_step [of "c_keyspec cc" "ctx_keyspec_sz ctx" w3] wf by auto
  have "mem_step w (free_struct sizeof_cipher_ctx w4)"
    using 1 2 3 4 free_struct_step mem_step_trans by metis
  then show ?thesis
    using 1 2 3 4 by (simp add: sqlcipher_cipher_ctx_free_def c)
qed

lemma codec_ctx_free_step:
  assumes "codec_wf p ctx"
  shows "\<exists>w'. sqlcipher_codec_ctx_free ctx w = Some w' \<and> mem_step w w'"
proof -
  note wf = assms [unfolded codec_wf_def sizes_wf_def]
  obtain w1 where 1: "free_if (ctx_kdf_salt ctx) (ctx_kdf_salt_sz ctx) w = Some w1" "mem_step w w1"
    using free_step wf by metis
  obtain w2 where 2: "free_if (ctx_hmac_kdf_salt ctx) (ctx_kdf_salt_sz ctx) w1 = Some w2" "mem_step w1 w2"
    using free_step wf by metis
  obtain w3 where 3: "free_if (ctx_buffer ctx) (ctx_page_sz ctx) w2 = Some w3" "mem_step w2 w3"
    using free_step wf by metis
  let ?w = "free_struct sizeof_provider w3"
  obtain w4 where 4: "sqlcipher_cipher_ctx_free ctx (ctx_read_ctx ctx) ?w = Some w4" "mem_step ?w w4"
    using cipher_ctx_free_step wf by metis
  obtain w5 where 5: "sqlcipher_cipher_ctx_free ctx (ctx_write_ctx ctx) w4 = Some w5" "mem_step w4 w5"
    using cipher_ctx_free_step wf by metis
  have "mem_step w (free_struct sizeof_codec_ctx w5)"
    using 1 2 3 4 5 free_struct_step mem_step_trans by metis
  then show ?thesis
    using 1 2 3 4 5 wf by (simp add: sqlcipher_codec_ctx_free_def)
qed

subsection \<open>Passphrases and keys\<close>

text \<open>The passphrase the arguments \<open>zKey\<close>, \<open>nKey\<close> of the API stand for, and that they are readable.\<close>

definition pass_of :: "bytes option \<Rightarrow> int \<Rightarrow> bytes option" where
  "pass_of zKey nKey = (case zKey of None \<Rightarrow> None | Some z \<Rightarrow> if nKey = 0 then None else Some (take (nat nKey) z))"

definition key_arg_ok :: "bytes option \<Rightarrow> int \<Rightarrow> bool" where
  "key_arg_ok zKey nKey \<longleftrightarrow> (case zKey of None \<Rightarrow> True | Some z \<Rightarrow> nKey \<le> int (length z))"

lemma copy_block: "int (length b) = n \<Longrightarrow> int (length d) = n \<Longrightarrow> peek d 0 n = Some d \<and> poke b 0 d = Some d"
  by (simp add: peek_whole poke_whole)

lemma copy_field_step:
  assumes "block_of n src"
  obtains rc w' where "copy_field upd src n (t, w) = Some (rc, upd (\<lambda>_. if rc = 0 then src else None) t, w')"
    "mem_step w w'" "rc = 0 \<or> rc = 7 \<and> may_fail w n"
proof -
  obtain d where d: "src = Some d" "int (length d) = n" using assms by (auto simp: block_of_def)
  obtain r w' where m: "sqlcipher_malloc n w = (r, w')" by fastforce
  show thesis
  proof (cases r)
    case None
    then show thesis using that [of 7 w'] m malloc_step(1,3) [OF m] by (simp add: copy_field_def)
  next
    case (Some b)
    with malloc_step(2) [OF m] have "int (length b) = n" by auto
    from copy_block [OF this d(2)] show thesis
      using that [of 0 w'] m malloc_step(1) [OF m] Some d by (simp add: copy_field_def)
  qed
qed

lemma set_pass_step:
  assumes wf: "cipher_ctx_wf ctx (Some c)" and key: "key_arg_ok zKey nKey"
  obtains (ok) c' w' where "sqlcipher_cipher_ctx_set_pass c zKey nKey w = Some (0, c', w')" "mem_step w w'"
      "cipher_ctx_wf ctx (Some c')"
      "c' = c\<lparr>c_pass := pass_of zKey nKey, c_pass_sz := (if pass_of zKey nKey = None then 0 else nKey)\<rparr>"
  | (nomem) w' where "sqlcipher_cipher_ctx_set_pass c zKey nKey w = Some (7, c\<lparr>c_pass := None, c_pass_sz := nKey\<rparr>, w')"
      "mem_step w w'" "may_fail w nKey"
proof -
  obtain w1 where w1: "free_if (c_pass c) (c_pass_sz c) w = Some w1" "mem_step w w1"
    using free_step [of "c_pass c" "c_pass_sz c" w] wf by (auto simp: cipher_ctx_wf_def split: if_splits)
  show thesis
  proof (cases "zKey = None \<or> nKey = 0")
    case True
    then have "pass_of zKey nKey = None"
      and "sqlcipher_cipher_ctx_set_pass c zKey nKey w = Some (0, c\<lparr>c_pass := None, c_pass_sz := 0\<rparr>, w1)"
      using w1(1) by (auto simp: sqlcipher_cipher_ctx_set_pass_def pass_of_def Let_def split: option.splits)
    then show thesis
      using ok w1(2) wf by (simp add: cipher_ctx_wf_def)
  next
    case False
    then obtain z where z: "zKey = Some z" "nKey \<le> int (length z)" "nKey \<noteq> 0"
      using key by (auto simp: key_arg_ok_def)
    obtain r w2 where m: "sqlcipher_malloc nKey w1 = (r, w2)" by fastforce
    have step: "mem_step w w2" using w1(2) malloc_step(1) [OF m] mem_step_trans by blast
    show thesis
    proof (cases r)
      case None
      then show thesis
        using nomem w1 m z step malloc_step(3) [OF m] by (simp add: sqlcipher_cipher_ctx_set_pass_def Let_def may_fail_step)
    next
      case (Some b)
      with malloc_step(2) [OF m] have b: "b = replicate (nat nKey) 0" "0 < nKey" by auto
      with z have "peek z 0 nKey = Some (take (nat nKey) z)" by (simp add: peek_def)
      then have "sqlcipher_cipher_ctx_set_pass c zKey nKey w =
          Some (0, c\<lparr>c_pass := Some (take (nat nKey) z), c_pass_sz := nKey\<rparr>, w2)"
        using w1(1) m z Some b by (simp add: sqlcipher_cipher_ctx_set_pass_def poke_whole Let_def)
      then show thesis
        using ok step wf b z by (simp add: cipher_ctx_wf_def block_of_def pass_of_def)
    qed
  qed
qed

lemma set_pass_wipe:
  assumes "cipher_ctx_wf ctx (Some c)"
  shows "\<exists>w'. sqlcipher_cipher_ctx_set_pass c None 0 w = Some (0, c\<lparr>c_pass := None, c_pass_sz := 0\<rparr>, w')
     \<and> mem_step w w' \<and> cipher_ctx_wf ctx (Some (c\<lparr>c_pass := None, c_pass_sz := 0\<rparr>))"
proof -
  obtain w1 where "free_if (c_pass c) (c_pass_sz c) w = Some w1" "mem_step w w1"
    using free_step [of "c_pass c" "c_pass_sz c" w] assms by (auto simp: cipher_ctx_wf_def split: if_splits)
  then show ?thesis using assms
    by (auto simp: sqlcipher_cipher_ctx_set_pass_def cipher_ctx_wf_def)
qed

lemma copy_step:
  assumes t: "cipher_ctx_wf ctx (Some t)" and s: "cipher_ctx_wf ctx (Some s)"
  obtains rc c' w' where "sqlcipher_cipher_ctx_copy ctx t s w = Some (rc, c', w')" "mem_step w w'"
    "rc = 0 \<or> rc = 7 \<and> (may_fail w (ctx_keyspec_sz ctx) \<or> c_pass s \<noteq> None \<and> may_fail w (c_pass_sz s))"
    "rc = 0 \<Longrightarrow> c' = s"
proof -
  obtain kt ht ks hs where keys: "c_key t = Some kt" "c_hmac_key t = Some ht" "c_key s = Some ks" "c_hmac_key s = Some hs"
    and len: "int (length kt) = ctx_key_sz ctx" "int (length ht) = ctx_key_sz ctx"
      "int (length ks) = ctx_key_sz ctx" "int (length hs) = ctx_key_sz ctx"
    using t s by (auto simp: cipher_ctx_wf_def block_of_def)
  note cp = copy_block [OF len(1,3)] copy_block [OF len(2,4)]
  obtain w1 where w1: "free_if (c_pass t) (c_pass_sz t) w = Some w1" "mem_step w w1"
    using free_step [of "c_pass t" "c_pass_sz t" w] t by (auto simp: cipher_ctx_wf_def split: if_splits)
  obtain w2 where w2: "free_if (c_keyspec t) (ctx_keyspec_sz ctx) w1 = Some w2" "mem_step w1 w2"
    using free_step [of "c_keyspec t" "ctx_keyspec_sz ctx" w1] t by (auto simp: cipher_ctx_wf_def)
  have t_s: "s\<lparr>c_key := Some ks, c_hmac_key := Some hs\<rparr> = s" using keys by simp
  let ?A = "if c_pass s \<noteq> None \<and> c_pass_sz s \<noteq> 0
     then copy_field c_pass_update (c_pass s) (c_pass_sz s) (s, w2) else Some (SQLITE_OK, s, w2)"
  let ?B = "\<lambda>(target, w). if c_keyspec s \<noteq> None
     then copy_field c_keyspec_update (c_keyspec s) (ctx_keyspec_sz ctx) (target, w) else Some (SQLITE_OK, target, w)"
  have pre: "sqlcipher_cipher_ctx_copy ctx t s w = on_ok ?A ?B"
    using keys w1(1) w2(1) cp by (simp add: sqlcipher_cipher_ctx_copy_def t_s Let_def)
  obtain rc1 c1 w3 where A: "?A = Some (rc1, c1, w3)" "mem_step w2 w3"
    "rc1 = 0 \<or> rc1 = 7 \<and> c_pass s \<noteq> None \<and> may_fail w2 (c_pass_sz s)" "rc1 = 0 \<longrightarrow> c1 = s"
  proof (cases "c_pass s = None")
    case True
    then show thesis using that [of 0 s w2] by simp
  next
    case False
    then have "block_of (c_pass_sz s) (c_pass s)" "c_pass_sz s \<noteq> 0" using s by (auto simp: cipher_ctx_wf_def)
    then show thesis using that False by (elim copy_field_step [of _ _ c_pass_update s w2]) auto
  qed
  obtain rc c' w' where B: "?B (s, w3) = Some (rc, c', w')" "mem_step w3 w'"
    "rc = 0 \<or> rc = 7 \<and> may_fail w3 (ctx_keyspec_sz ctx)" "rc = 0 \<longrightarrow> c' = s"
  proof (cases "c_keyspec s = None")
    case True
    then show thesis using that [of 0 s w3] by simp
  next
    case False
    then have "block_of (ctx_keyspec_sz ctx) (c_keyspec s)" using s by (auto simp: cipher_ctx_wf_def)
    then show thesis using that False by (elim copy_field_step [of _ _ c_keyspec_update s w3]) auto
  qed
  have step: "mem_step w w2" "mem_step w w3" "mem_step w w'" using w1(2) w2(2) A(2) B(2) mem_step_trans by metis+
  show thesis
  proof (cases "rc1 = 0")
    case True
    then show thesis using that [of rc c' w'] pre A B step may_fail_step [OF step(2)] by auto
  next
    case False
    then show thesis using that [of rc1 c1 w3] pre A step may_fail_step [OF step(1)] by auto
  qed
qed

subsection \<open>Key specifications\<close>

text \<open>What \<open>sqlcipher_cipher_ctx_set_keyspec\<close> writes: \<open>x'\<close>, the key and the salt in hexadecimal, \<open>'\<close>.\<close>

definition keyspec_text :: "bytes \<Rightarrow> bytes \<Rightarrow> bytes" where
  "keyspec_text key salt = [120, 39] @ concat (map hex2 key) @ concat (map hex2 salt) @ [39]"

lemma length_keyspec_text [simp]: "length (keyspec_text key salt) = 2 * length key + 2 * length salt + 3"
  by (simp add: keyspec_text_def)

lemma keyspec_layout:
  assumes "length key = Suc k" "length salt = Suc m"
    and "n = 2 * int (length key) + 2 * int (length salt) + 3"
  shows "do { ks \<leftarrow> poke (replicate (nat n) 0) 0 [120];
              ks \<leftarrow> poke ks 1 [39];
              t \<leftarrow> cipher_bin2hex key (int (length key)) (drop 2 ks);
              let ks = take 2 ks @ t;
              let o' = nat (int (length key) * 2 + 2);
              t \<leftarrow> cipher_bin2hex salt (int (length salt)) (drop o' ks);
              let ks = take o' ks @ t;
              poke ks (n - 1) [39] } = Some (keyspec_text key salt)"
proof -
  let ?a = "length key" and ?b = "length salt"
  let ?K = "concat (map hex2 key)" and ?S = "concat (map hex2 salt)"
  have n: "nat n = 2 + (2 * ?a + (2 * ?b + 1))" "nat (n - 1) = 2 + 2 * ?a + 2 * ?b" using assms(3) by auto
  have 1: "poke (replicate (nat n) 0) 0 [120] = Some (120 # replicate (nat n - Suc 0) 0)"
    using n by (simp add: poke_def)
  have 2: "poke (120 # replicate (nat n - Suc 0) 0) 1 [39] = Some ([120, 39] @ replicate (nat n - 2) 0)"
    using n by (simp add: poke_def)
  have 3: "cipher_bin2hex key (int ?a) (replicate (nat n - 2) 0) = Some (?K @ 0 # replicate (2 * ?b) 0)"
    using assms(1) n by (subst cipher_bin2hex_closed) (simp_all add: poke_def)
  have o': "nat (int ?a * 2 + 2) = 2 + 2 * ?a" by linarith
  have 4: "cipher_bin2hex salt (int ?b) (0 # replicate (2 * ?b) 0) = Some (?S @ [0])"
    using assms(2) by (subst cipher_bin2hex_closed) (simp_all add: poke_def)
  have 5: "poke ([120, 39] @ ?K @ ?S @ [0]) (n - 1) [39] = Some (keyspec_text key salt)"
    using n assms(3) by (simp add: poke_def keyspec_text_def)
  show ?thesis
    using 3 4 5 by (simp add: 1 2 o' Let_def)
qed

lemma set_keyspec_step:
  assumes c: "c_keyspec c = None \<or> block_of (ctx_keyspec_sz ctx) (c_keyspec c)"
    and salt: "ctx_kdf_salt ctx = Some salt" "int (length salt) = ctx_kdf_salt_sz ctx" "0 < ctx_kdf_salt_sz ctx"
    and key: "int (length key) = ctx_key_sz ctx" "0 < ctx_key_sz ctx"
    and sz: "ctx_keyspec_sz ctx = (ctx_key_sz ctx + ctx_kdf_salt_sz ctx) * 2 + 3"
  obtains (ok) w' where "sqlcipher_cipher_ctx_set_keyspec ctx c key w =
        Some (0, c\<lparr>c_keyspec := Some (keyspec_text key salt)\<rparr>, w')" "mem_step w w'"
  | (nomem) w' where "sqlcipher_cipher_ctx_set_keyspec ctx c key w = Some (7, c\<lparr>c_keyspec := None\<rparr>, w')" "mem_step w w'"
      "may_fail w (ctx_keyspec_sz ctx)"
proof -
  obtain w1 where w1: "free_if (c_keyspec c) (ctx_keyspec_sz ctx) w = Some w1" "mem_step w w1"
    using free_step [of "c_keyspec c" "ctx_keyspec_sz ctx" w] c by auto
  obtain r w2 where m: "sqlcipher_malloc (ctx_keyspec_sz ctx) w1 = (r, w2)" by fastforce
  have step: "mem_step w w2" using w1(2) malloc_step(1) [OF m] mem_step_trans by metis
  show thesis
  proof (cases r)
    case None
    then show thesis
      using nomem m w1 step malloc_step(3) [OF m] by (simp add: sqlcipher_cipher_ctx_set_keyspec_def may_fail_step)
  next
    case (Some b)
    then have b: "b = replicate (nat (ctx_keyspec_sz ctx)) 0" using malloc_step(2) [OF m] by simp
    obtain k m' where "length key = Suc k" "length salt = Suc m'"
      using key salt by (cases key; cases salt) auto
    from keyspec_layout [OF this, of "ctx_keyspec_sz ctx"] show thesis
      using ok m w1 step Some b salt key sz
      by (auto simp: sqlcipher_cipher_ctx_set_keyspec_def Let_def algebra_simps bind_eq_Some_conv)
  qed
qed

subsection \<open>Reserve and settings\<close>

lemma round_up_props:
  assumes "0 < b" "0 \<le> n"
  shows "n \<le> round_up n b" "b dvd round_up n b" "round_up n b < n + b"
    "round_up n b = (if n mod b = 0 then n else (n div b + 1) * b)"
proof -
  have split_n: "n = n div b * b + n mod b" by simp
  show eq: "round_up n b = (if n mod b = 0 then n else (n div b + 1) * b)"
  proof (cases "n mod b = 0")
    case True
    then obtain k where "n = k * b" by (metis dvd_def mod_0_imp_dvd mult.commute)
    moreover have "(k * b + b - 1) div b = k"
      using assms(1) div_mult_self1 [of b "b - 1" k] by (simp add: algebra_simps div_pos_pos_trivial)
    ultimately show ?thesis using True by (simp add: round_up_def)
  next
    case False
    have m: "0 < n mod b" "n mod b < b" using assms False pos_mod_bound [of b n] pos_mod_sign [of b n] by linarith+
    have "n + b - 1 = (n mod b - 1) + (n div b + 1) * b" using split_n by (simp add: algebra_simps)
    then have "(n + b - 1) div b = n div b + 1"
      using m by (intro int_div_pos_eq [of _ b _ "n mod b - 1"]) (auto simp: algebra_simps)
    then show ?thesis using False by (simp add: round_up_def)
  qed
  have lt: "n mod b < b" "0 \<le> n mod b" using assms by simp_all
  have up: "(n div b + 1) * b = n - n mod b + b" using split_n by (simp add: algebra_simps)
  have pos: "0 < n mod b" if "n mod b \<noteq> 0" using that lt by linarith
  show "b dvd round_up n b" by (simp add: round_up_def)
  have "n \<le> round_up n b \<and> round_up n b < n + b"
  proof (cases "n mod b = 0")
    case True
    with eq assms show ?thesis by simp
  next
    case False
    with eq up have "round_up n b = n - n mod b + b" by simp
    with pos [OF False] lt show ?thesis by linarith
  qed
  then show "n \<le> round_up n b" "round_up n b < n + b" by blast+
qed

text \<open>What a provider's sizes must satisfy for the layout of a page to make sense.\<close>

definition provider_sizes :: "'e sqlcipher_provider \<Rightarrow> bool" where
  "provider_sizes p \<longleftrightarrow> 0 < p_get_key_sz p \<and> p_get_key_sz p \<le> 64 \<and> 0 < p_get_iv_sz p \<and> p_get_iv_sz p \<le> 64
     \<and> 0 < p_get_block_sz p \<and> p_get_block_sz p dvd 16
     \<and> (\<forall>a. 0 \<le> p_get_hmac_sz p a \<and> p_get_hmac_sz p a \<le> 64)"

context crypto_provider
begin

lemma sizes_ok: "ok p \<Longrightarrow> provider_sizes (prov p)"
  using key_sz_pos key_sz_le iv_sz_pos iv_sz_le block_sz_pos block_dvd_header hmac_sz_bounds
  by (simp add: provider_sizes_def)

end

lemma sizes_reserve:
  assumes "provider_sizes p" "sizes_wf p ctx"
  shows "ctx_iv_sz ctx \<le> ctx_reserve_sz ctx" "ctx_reserve_sz ctx \<le> 143"
    "ctx_block_sz ctx dvd ctx_reserve_sz ctx"
    "flag_get (ctx_flags ctx) CIPHER_FLAG_HMAC \<Longrightarrow> ctx_iv_sz ctx + ctx_hmac_sz ctx \<le> ctx_reserve_sz ctx"
    "0 \<le> ctx_hmac_sz ctx" "0 < ctx_iv_sz ctx" "0 < ctx_key_sz ctx"
proof -
  let ?n = "ctx_iv_sz ctx + (if flag_get (ctx_flags ctx) CIPHER_FLAG_HMAC then ctx_hmac_sz ctx else 0)"
  let ?b = "ctx_block_sz ctx"
  have b: "0 < ?b" "?b \<le> 16"
    using assms by (auto simp: provider_sizes_def sizes_wf_def dest: zdvd_imp_le)
  have n: "0 \<le> ?n" "?n \<le> 128" and h: "0 \<le> ctx_hmac_sz ctx" and k: "0 < ctx_iv_sz ctx" "0 < ctx_key_sz ctx"
    using assms by (auto simp: provider_sizes_def sizes_wf_def add_mono [of _ 64 _ 64, simplified])
  have r: "ctx_reserve_sz ctx = round_up ?n ?b" using assms by (simp add: sizes_wf_def)
  note ru = round_up_props [OF b(1) n(1), folded r]
  show "ctx_iv_sz ctx \<le> ctx_reserve_sz ctx" using ru(1) h by (simp split: if_splits)
  show "ctx_reserve_sz ctx \<le> 143" using ru(3) n b by linarith
  show "?b dvd ctx_reserve_sz ctx" by (rule ru(2))
  show "ctx_iv_sz ctx + ctx_hmac_sz ctx \<le> ctx_reserve_sz ctx" if "flag_get (ctx_flags ctx) CIPHER_FLAG_HMAC"
    using ru(1) that by simp
  show "0 \<le> ctx_hmac_sz ctx" "0 < ctx_iv_sz ctx" "0 < ctx_key_sz ctx" by (fact h k)+
qed

lemma reserve_setup_eq:
  assumes "provider_sizes p" "ctx_provider ctx = Some p" "ctx_iv_sz ctx = p_get_iv_sz p"
    "ctx_block_sz ctx = p_get_block_sz p"
  shows "sqlcipher_codec_ctx_reserve_setup ctx =
     Some (0, ctx\<lparr>ctx_hmac_sz := p_get_hmac_sz p (ctx_hmac_algorithm ctx),
       ctx_reserve_sz := round_up (ctx_iv_sz ctx + (if flag_get (ctx_flags ctx) CIPHER_FLAG_HMAC
          then p_get_hmac_sz p (ctx_hmac_algorithm ctx) else 0)) (ctx_block_sz ctx)\<rparr>)"
proof -
  have b: "0 < ctx_block_sz ctx" and iv: "0 \<le> ctx_iv_sz ctx" and h: "0 \<le> p_get_hmac_sz p a" for a
    using assms by (auto simp: provider_sizes_def)
  let ?h = "p_get_hmac_sz p (ctx_hmac_algorithm ctx)"
  have "0 \<le> ctx_iv_sz ctx + ?h" using iv h [of "ctx_hmac_algorithm ctx"] by simp
  from round_up_props(4) [OF b this] round_up_props(4) [OF b iv] show ?thesis
    using assms b by (auto simp: sqlcipher_codec_ctx_reserve_setup_def Let_def)
qed

lemma cipher_ctx_wf_cong:
  "ctx_key_sz ctx' = ctx_key_sz ctx \<Longrightarrow> ctx_keyspec_sz ctx' = ctx_keyspec_sz ctx \<Longrightarrow>
     cipher_ctx_wf ctx' c = cipher_ctx_wf ctx c"
  by (simp add: cipher_ctx_wf_def cong: option.case_cong)

lemma codec_wf_cong:
  assumes "codec_wf p ctx" "sizes_wf p ctx'"
    "ctx_kdf_salt ctx' = ctx_kdf_salt ctx" "ctx_hmac_kdf_salt ctx' = ctx_hmac_kdf_salt ctx"
    "ctx_buffer ctx' = ctx_buffer ctx" "ctx_page_sz ctx' = ctx_page_sz ctx"
    "ctx_read_ctx ctx' = ctx_read_ctx ctx" "ctx_write_ctx ctx' = ctx_write_ctx ctx"
  shows "codec_wf p ctx'"
  using assms cipher_ctx_wf_cong [of ctx' ctx] by (simp add: codec_wf_def sizes_wf_def)

lemma set_use_hmac_wf:
  assumes "provider_sizes p" "codec_wf p ctx"
  shows "\<exists>ctx'. sqlcipher_codec_ctx_set_use_hmac ctx use = Some (0, ctx') \<and> codec_wf p ctx'
     \<and> flag_get (ctx_flags ctx') CIPHER_FLAG_HMAC = (use \<noteq> 0)"
proof -
  note s = assms(2) [unfolded codec_wf_def sizes_wf_def]
  let ?c = "if use \<noteq> 0 then ctx\<lparr>ctx_flags := flag_set (ctx_flags ctx) CIPHER_FLAG_HMAC\<rparr>
            else ctx\<lparr>ctx_flags := flag_unset (ctx_flags ctx) CIPHER_FLAG_HMAC\<rparr>"
  have f: "flag_get (ctx_flags ?c) CIPHER_FLAG_HMAC = (use \<noteq> 0)"
    by simp
  have r: "sqlcipher_codec_ctx_set_use_hmac ctx use = sqlcipher_codec_ctx_reserve_setup ?c"
    by (simp add: sqlcipher_codec_ctx_set_use_hmac_def Let_def)
  show ?thesis
    unfolding r using s f
    by (subst reserve_setup_eq [OF assms(1)])
       (auto intro: codec_wf_cong [OF assms(2)] simp: sizes_wf_def)
qed

lemma set_hmac_algorithm_wf:
  assumes "provider_sizes p" "codec_wf p ctx"
  shows "\<exists>ctx'. sqlcipher_codec_ctx_set_hmac_algorithm ctx a = Some (0, ctx') \<and> codec_wf p ctx'
     \<and> ctx_hmac_algorithm ctx' = a"
proof -
  note s = assms(2) [unfolded codec_wf_def sizes_wf_def]
  show ?thesis
    unfolding sqlcipher_codec_ctx_set_hmac_algorithm_def using s
    by (subst reserve_setup_eq [OF assms(1)])
       (auto intro: codec_wf_cong [OF assms(2)] simp: sizes_wf_def)
qed

lemma set_pagesize_step:
  assumes "ctx_buffer ctx = None \<or> block_of (ctx_page_sz ctx) (ctx_buffer ctx)"
  obtains (bad) "\<not> page_size_ok sz" "sqlcipher_codec_ctx_set_pagesize ctx sz w = Some (1, ctx, w)"
  | (ok) w' where "page_size_ok sz" "mem_step w w'"
      "sqlcipher_codec_ctx_set_pagesize ctx sz w =
         Some (0, ctx\<lparr>ctx_page_sz := sz, ctx_buffer := Some (replicate (nat sz) 0)\<rparr>, w')"
  | (nomem) w' where "page_size_ok sz" "mem_step w w'" "may_fail w sz"
      "sqlcipher_codec_ctx_set_pagesize ctx sz w = Some (7, ctx\<lparr>ctx_page_sz := sz, ctx_buffer := None\<rparr>, w')"
proof (cases "page_size_ok sz")
  case False
  then show thesis
    using bad by (auto simp: sqlcipher_codec_ctx_set_pagesize_def page_size_ok_def)
next
  case True
  then have g: "\<not> (\<not> (sz \<noteq> 0 \<and> sz AND (sz - 1) = 0) \<or> sz < 512 \<or> sz > 65536)" by (simp add: page_size_ok_def)
  obtain w1 where w1: "free_if (ctx_buffer ctx) (ctx_page_sz ctx) w = Some w1" "mem_step w w1"
    using free_step [of "ctx_buffer ctx" "ctx_page_sz ctx" w] assms by auto
  obtain r w2 where m: "sqlcipher_malloc sz w1 = (r, w2)" by fastforce
  have step: "mem_step w w2" using w1(2) malloc_step(1) [OF m] mem_step_trans by metis
  show thesis
  proof (cases r)
    case None
    then show thesis
      using nomem True g m w1 step malloc_step(3) [OF m] may_fail_step [OF w1(2)]
      by (simp add: sqlcipher_codec_ctx_set_pagesize_def)
  next
    case (Some b)
    then show thesis
      using ok True g m w1 step malloc_step(2) [OF m] by (simp add: sqlcipher_codec_ctx_set_pagesize_def)
  qed
qed

lemma set_pagesize_wf:
  assumes "codec_wf p ctx" "sqlcipher_codec_ctx_set_pagesize ctx sz w = Some (0, ctx', w')"
  shows "codec_wf p ctx' \<and> ctx_page_sz ctx' = sz"
proof -
  have "ctx_buffer ctx = None \<or> block_of (ctx_page_sz ctx) (ctx_buffer ctx)"
    using assms(1) by (simp add: codec_wf_def)
  then show ?thesis
  proof (cases rule: set_pagesize_step [where sz = sz and w = w])
    case bad
    then show ?thesis using assms(2) by simp
  next
    case (ok v)
    have "cipher_ctx_wf (ctx\<lparr>ctx_page_sz := sz, ctx_buffer := B\<rparr>) c = cipher_ctx_wf ctx c" for B c
      by (rule cipher_ctx_wf_cong) simp_all
    with ok show ?thesis
      using assms by (auto simp: codec_wf_def sizes_wf_def block_of_def page_size_ok_def)
  next
    case (nomem v)
    then show ?thesis using assms(2) by simp
  qed
qed

lemma codec_wf_header: "codec_wf p (ctx\<lparr>ctx_plaintext_header_sz := n\<rparr>) = codec_wf p ctx"
  using cipher_ctx_wf_cong [of "ctx\<lparr>ctx_plaintext_header_sz := n\<rparr>" ctx]
  by (simp add: codec_wf_def sizes_wf_def)

lemma set_plaintext_header_size_wf:
  assumes "sqlcipher_codec_ctx_set_plaintext_header_size ctx n = (rc, ctx')"
  shows "codec_wf p ctx \<Longrightarrow> codec_wf p ctx'" "header_fits ctx'"
    "rc = 0 \<longleftrightarrow> ctx_plaintext_header_sz ctx' = n \<and> 0 \<le> n"
  using assms
  by (auto simp: sqlcipher_codec_ctx_set_plaintext_header_size_def header_fits_def codec_wf_header split: if_splits)

subsection \<open>Initialisation\<close>

text \<open>The context after the first stage.\<close>

definition staged_ctx :: "'e sqlcipher_provider \<Rightarrow> u32 \<Rightarrow> 'e codec_ctx" where
  "staged_ctx p flags = zero_codec_ctx\<lparr>ctx_kdf_salt_sz := 16, ctx_kdf_salt := Some (replicate 16 0),
     ctx_hmac_kdf_salt := Some (replicate 16 0), ctx_flags := flags, ctx_provider := Some p,
     ctx_key_sz := p_get_key_sz p, ctx_iv_sz := p_get_iv_sz p, ctx_block_sz := p_get_block_sz p,
     ctx_keyspec_sz := (p_get_key_sz p + 16) * 2 + 3\<rparr>"

lemma malloc_cases:
  obtains (ok) w' where "sqlcipher_malloc n w = (Some (replicate (nat n) 0), w')" "mem_step w w'" "0 < n"
  | (nomem) w' where "sqlcipher_malloc n w = (None, w')" "mem_step w w'" "may_fail w n"
proof -
  obtain r w' where m: "sqlcipher_malloc n w = (r, w')" by fastforce
  show thesis using ok nomem m malloc_step [OF m] by (cases r) auto
qed

lemma ctx_init_provider_step:
  assumes "default_provider w = Some p" "p_ctx_init p = 0"
  obtains (ok) w' where "ctx_init_provider (zero_codec_ctx, w) = Some (0, staged_ctx p (default_flags w), w')" "mem_step w w'"
  | (nomem) ctx' w' where "ctx_init_provider (zero_codec_ctx, w) = Some (7, ctx', w')" "mem_step w w'"
      "may_fail w 16 \<or> may_fail w sizeof_provider"
proof (cases rule: malloc_cases [of 16 w])
  case (nomem w')
  then show thesis using that(2) [of _ w'] by (simp add: ctx_init_provider_def zero_codec_ctx_def)
next
  case 1: (ok w1)
  show thesis
  proof (cases rule: malloc_cases [of 16 w1])
    case (nomem w')
    then show thesis
      using that(2) [of _ w'] 1 mem_step_trans [of w w1 w'] may_fail_step [OF 1(2)]
      by (simp add: ctx_init_provider_def zero_codec_ctx_def)
  next
    case 2: (ok w2)
    have w2: "mem_step w w2" using 1 2 mem_step_trans by metis
    show thesis
    proof (cases rule: malloc_cases [of sizeof_provider w2])
      case (nomem w')
      then show thesis
        using that(2) [of _ w'] 1 2 mem_step_trans [OF w2, of w'] may_fail_step [OF w2]
        by (simp add: ctx_init_provider_def zero_codec_ctx_def)
    next
      case 3: (ok w3)
      have w3: "mem_step w w3" using w2 3 mem_step_trans by metis
      then show thesis
        using that(1) [of w3] 1 2 3 assms mem_step_fields(1,7) [OF w3] mem_step_fields(1) [OF w2]
        by (simp add: ctx_init_provider_def zero_codec_ctx_def staged_ctx_def)
    qed
  qed
qed

lemma hmac_flag_same:
  "flag_get f CIPHER_FLAG_HMAC \<Longrightarrow> flag_set f CIPHER_FLAG_HMAC = f"
  "\<not> flag_get f CIPHER_FLAG_HMAC \<Longrightarrow> flag_unset f CIPHER_FLAG_HMAC = f"
proof -
  have odd: "flag_get f CIPHER_FLAG_HMAC \<longleftrightarrow> bit f 0"
    by (simp add: flag_get_def CIPHER_FLAG_HMAC_def and_one_eq bit_0 odd_iff_mod_2_eq_one)
  show "flag_set f CIPHER_FLAG_HMAC = f" if "flag_get f CIPHER_FLAG_HMAC"
    using that odd by (intro bit_word_eqI) (auto simp: flag_set_def CIPHER_FLAG_HMAC_def bit_simps)
  show "flag_unset f CIPHER_FLAG_HMAC = f" if "\<not> flag_get f CIPHER_FLAG_HMAC"
    using that odd by (intro bit_word_eqI) (auto simp: flag_unset_def CIPHER_FLAG_HMAC_def bit_simps intro!: gr0I)
qed

text \<open>The context with the default settings of the process, before the header size is set.\<close>

definition reserve_for :: "'e sqlcipher_provider \<Rightarrow> u32 \<Rightarrow> int \<Rightarrow> int" where
  "reserve_for p flags alg = round_up (p_get_iv_sz p
     + (if flag_get flags CIPHER_FLAG_HMAC then p_get_hmac_sz p alg else 0)) (p_get_block_sz p)"

definition default_ctx :: "'e sqlcipher_provider \<Rightarrow> 'e world \<Rightarrow> 'e codec_ctx" where
  "default_ctx p w = (staged_ctx p (default_flags w))\<lparr>ctx_page_sz := default_page_size w,
     ctx_buffer := Some (replicate (nat (default_page_size w)) 0), ctx_kdf_iter := default_kdf_iter w,
     ctx_fast_kdf_iter := 2, ctx_hmac_algorithm := default_hmac_algorithm w,
     ctx_kdf_algorithm := default_kdf_algorithm w, ctx_hmac_sz := p_get_hmac_sz p (default_hmac_algorithm w),
     ctx_reserve_sz := reserve_for p (default_flags w) (default_hmac_algorithm w),
     ctx_plaintext_header_sz := default_plaintext_header_size w\<rparr>"

definition default_settings_ok :: "'e sqlcipher_provider \<Rightarrow> 'e world \<Rightarrow> bool" where
  "default_settings_ok p w \<longleftrightarrow> page_size_ok (default_page_size w)
     \<and> 0 \<le> default_plaintext_header_size w \<and> p_get_block_sz p dvd default_plaintext_header_size w
     \<and> default_plaintext_header_size w
         < default_page_size w - reserve_for p (default_flags w) (default_hmac_algorithm w)"

lemma set_use_hmac_default:
  assumes "ctx_flags ctx = f"
  shows "sqlcipher_codec_ctx_set_use_hmac ctx (of_bool (flag_get f CIPHER_FLAG_HMAC)) =
     sqlcipher_codec_ctx_reserve_setup ctx"
  using assms hmac_flag_same [of f] by (cases ctx) (auto simp: sqlcipher_codec_ctx_set_use_hmac_def)

lemma ctx_init_settings_step:
  assumes "provider_sizes p"
  obtains (ok) w' where "ctx_init_settings (staged_ctx p (default_flags w), w) = Some (0, default_ctx p w, w')"
      "mem_step w w'" "default_settings_ok p w"
  | (bad) ctx' w' rc where "ctx_init_settings (staged_ctx p (default_flags w), w) = Some (rc, ctx', w')" "rc \<noteq> 0"
      "mem_step w w'" "\<not> default_settings_ok p w \<or> may_fail w (default_page_size w)"
proof -
  let ?c = "staged_ctx p (default_flags w)"
  have "ctx_buffer ?c = None \<or> block_of (ctx_page_sz ?c) (ctx_buffer ?c)"
    by (simp add: staged_ctx_def zero_codec_ctx_def)
  then show thesis
  proof (cases rule: set_pagesize_step [where sz = "default_page_size w" and w = w])
    case 1: bad
    then show thesis
      by (intro bad [of 1 ?c w]) (simp_all add: ctx_init_settings_def default_settings_ok_def)
  next
    case (nomem v)
    then show thesis
      by (intro bad [of 7 _ v]) (simp_all add: ctx_init_settings_def)
  next
    case 1: (ok v)
    let ?d = "default_ctx p w"
    have "0 < p_get_block_sz p" using assms by (simp add: provider_sizes_def)
    then have hdr: "sqlcipher_codec_ctx_set_plaintext_header_size (?d\<lparr>ctx_plaintext_header_sz := 0\<rparr>)
           (default_plaintext_header_size w) =
         (if default_settings_ok p w then (0, ?d) else (1, ?d\<lparr>ctx_plaintext_header_sz := -1\<rparr>))"
      using 1(1) by (auto simp: sqlcipher_codec_ctx_set_plaintext_header_size_def default_settings_ok_def
          default_ctx_def staged_ctx_def zero_codec_ctx_def dvd_eq_mod_eq_0)
    have run: "ctx_init_settings (?c, w) =
       (case sqlcipher_codec_ctx_set_plaintext_header_size (?d\<lparr>ctx_plaintext_header_sz := 0\<rparr>)
           (default_plaintext_header_size w) of (rc, ctx) \<Rightarrow> Some (rc, ctx, v))"
      using 1 mem_step_fields [OF 1(2)]
      by (simp add: ctx_init_settings_def sqlcipher_codec_ctx_set_kdf_iter_def
          sqlcipher_codec_ctx_set_fast_kdf_iter_def sqlcipher_set_derive_key_def
          sqlcipher_codec_ctx_set_hmac_algorithm_def sqlcipher_codec_ctx_set_kdf_algorithm_def
          reserve_setup_eq [OF assms] set_use_hmac_default staged_ctx_def zero_codec_ctx_def
          default_ctx_def reserve_for_def)
    show thesis
    proof (cases "default_settings_ok p w")
      case True
      then show thesis using ok [of v] run hdr 1(2) by simp
    next
      case False
      then show thesis using bad [of 1 "?d\<lparr>ctx_plaintext_header_sz := -1\<rparr>" v] run hdr 1(2) by simp
    qed
  qed
qed

definition fresh_cipher_ctx :: "int \<Rightarrow> cipher_ctx" where
  "fresh_cipher_ctx n = empty_cipher_ctx\<lparr>c_key := Some (replicate (nat n) 0), c_hmac_key := Some (replicate (nat n) 0)\<rparr>"

lemma cipher_ctx_init_step:
  obtains (ok) w' where "sqlcipher_cipher_ctx_init ctx w = (0, Some (fresh_cipher_ctx (ctx_key_sz ctx)), w')" "mem_step w w'"
  | (nomem) c w' where "sqlcipher_cipher_ctx_init ctx w = (7, c, w')" "mem_step w w'"
      "may_fail w sizeof_cipher_ctx \<or> may_fail w (ctx_key_sz ctx)"
proof (cases rule: malloc_cases [of sizeof_cipher_ctx w])
  case 1: (nomem w')
  then show thesis using nomem [of None w'] by (simp add: sqlcipher_cipher_ctx_init_def)
next
  case 1: (ok w1)
  obtain k w2 where k: "sqlcipher_malloc (ctx_key_sz ctx) w1 = (k, w2)" by fastforce
  obtain h w3 where h: "sqlcipher_malloc (ctx_key_sz ctx) w2 = (h, w3)" by fastforce
  have s: "mem_step w w1" "mem_step w w2" "mem_step w w3"
    using 1 malloc_step(1) [OF k] malloc_step(1) [OF h] mem_step_trans by metis+
  show thesis
  proof (cases "k = None \<or> h = None")
    case True
    then have "may_fail w (ctx_key_sz ctx)"
      using malloc_step(3) [OF k] malloc_step(3) [OF h] s may_fail_step by metis
    with True show thesis
      using 1 k h s nomem [of "Some (empty_cipher_ctx\<lparr>c_key := k, c_hmac_key := h\<rparr>)" w3]
      by (auto simp: sqlcipher_cipher_ctx_init_def Let_def)
  next
    case False
    then show thesis
      using 1 k h s ok [of w3] malloc_step(2) [OF k] malloc_step(2) [OF h]
      by (auto simp: sqlcipher_cipher_ctx_init_def fresh_cipher_ctx_def)
  qed
qed

text \<open>The sub-context both sides start from: the passphrase stored, the key still to be derived.\<close>

definition keyed_cipher_ctx :: "int \<Rightarrow> bytes option \<Rightarrow> int \<Rightarrow> cipher_ctx" where
  "keyed_cipher_ctx n zKey nKey = (fresh_cipher_ctx n)\<lparr>c_pass := pass_of zKey nKey,
     c_pass_sz := (if pass_of zKey nKey = None then 0 else nKey), c_derive_key := 1\<rparr>"

lemma ctx_init_keys_step:
  assumes key: "key_arg_ok zKey nKey" and sz: "0 < ctx_key_sz ctx"
  obtains (ok) w' where "ctx_init_keys zKey nKey (ctx, w) =
      Some (0, ctx\<lparr>ctx_read_ctx := Some (keyed_cipher_ctx (ctx_key_sz ctx) zKey nKey),
                   ctx_write_ctx := Some (keyed_cipher_ctx (ctx_key_sz ctx) zKey nKey)\<rparr>, w')" "mem_step w w'"
    "cipher_ctx_wf ctx (Some (keyed_cipher_ctx (ctx_key_sz ctx) zKey nKey))"
  | (nomem) ctx' w' where "ctx_init_keys zKey nKey (ctx, w) = Some (7, ctx', w')" "mem_step w w'"
    "\<exists>n \<in> {sizeof_cipher_ctx, ctx_key_sz ctx, nKey, ctx_keyspec_sz ctx}. may_fail w n"
proof (cases rule: cipher_ctx_init_step [of ctx w])
  case 1: (nomem c w')
  then show thesis by (intro nomem) (auto simp: ctx_init_keys_def Let_def)
next
  case 1: (ok w1)
  let ?f = "fresh_cipher_ctx (ctx_key_sz ctx)" and ?k = "keyed_cipher_ctx (ctx_key_sz ctx) zKey nKey"
  let ?c1 = "ctx\<lparr>ctx_read_ctx := Some ?f\<rparr>"
  let ?c2 = "?c1\<lparr>ctx_write_ctx := Some ?f\<rparr>"
  have wf0: "cipher_ctx_wf ctx (Some ?f)"
    using sz by (simp add: cipher_ctx_wf_def fresh_cipher_ctx_def empty_cipher_ctx_def block_of_def)
  have sel: "sel_ctx ?c2 0 = Some ?f" "upd_ctx ?c2 0 c = ?c2\<lparr>ctx_read_ctx := Some c\<rparr>" for c
    by (simp_all add: sel_ctx_def upd_ctx_def)
  show thesis
  proof (cases rule: cipher_ctx_init_step [of ?c1 w1])
    case 2: (nomem c w')
    then show thesis using 1 mem_step_trans [of w w1 w'] may_fail_step [OF 1(2)]
      by (intro nomem [of "?c1\<lparr>ctx_write_ctx := c\<rparr>" w']) (auto simp: ctx_init_keys_def Let_def)
  next
    case 2: (ok w2)
    have s2: "mem_step w w2" using 1 2 mem_step_trans by metis
    from wf0 key show thesis
    proof (cases rule: set_pass_step [where w = w2])
      case 3: (nomem w')
      then show thesis using 1 2 mem_step_trans [OF s2, of w'] may_fail_step [OF s2]
        by (intro nomem [of "?c2\<lparr>ctx_read_ctx := Some (?f\<lparr>c_pass := None, c_pass_sz := nKey\<rparr>)\<rparr>" w'])
           (auto simp: ctx_init_keys_def Let_def sqlcipher_codec_ctx_set_pass_def sel)
    next
      case 3: (ok c' w3)
      have s3: "mem_step w w3" using s2 3 mem_step_trans by metis
      have k: "c'\<lparr>c_derive_key := 1\<rparr> = ?k" using 3 by (simp add: keyed_cipher_ctx_def)
      let ?c3 = "?c2\<lparr>ctx_read_ctx := Some ?k\<rparr>"
      have wf: "cipher_ctx_wf ctx (Some ?k)" using 3(3) k [symmetric] by (simp add: cipher_ctx_wf_def)
      have pz: "may_fail w (c_pass_sz ?k) \<Longrightarrow> c_pass ?k \<noteq> None \<Longrightarrow> may_fail w nKey"
        by (simp add: keyed_cipher_ctx_def split: if_splits)
      have run: "ctx_init_keys zKey nKey (ctx, w) =
          do { (rc, wc, v) \<leftarrow> sqlcipher_cipher_ctx_copy ?c3 ?f ?k w3;
               Some (rc, ?c3\<lparr>ctx_write_ctx := Some wc\<rparr>, v) }"
        using 1 2 3 k by (simp add: ctx_init_keys_def Let_def sqlcipher_codec_ctx_set_pass_def sel)
      have "cipher_ctx_wf ?c3 (Some ?f)" "cipher_ctx_wf ?c3 (Some ?k)"
        using wf0 wf cipher_ctx_wf_cong [of ?c3 ctx] by simp_all
      then obtain rc d w4 where 4: "sqlcipher_cipher_ctx_copy ?c3 ?f ?k w3 = Some (rc, d, w4)" "mem_step w3 w4"
        "rc = 0 \<or> rc = 7 \<and> (may_fail w3 (ctx_keyspec_sz ?c3) \<or> c_pass ?k \<noteq> None \<and> may_fail w3 (c_pass_sz ?k))" "rc = 0 \<Longrightarrow> d = ?k"
        by (rule copy_step [where w = w3]) blast
      have s4: "mem_step w w4" using s3 4 mem_step_trans by metis
      show thesis
      proof (cases "rc = 0")
        case True
        then show thesis using ok run 4 s4 wf by simp
      next
        case False
        then show thesis
          using run 4 s4 may_fail_step [OF s3] pz by (intro nomem [of "?c3\<lparr>ctx_write_ctx := Some d\<rparr>" w4]) auto
      qed
    qed
  qed
qed

text \<open>The context a successful initialisation returns.\<close>

definition opened_ctx :: "'e sqlcipher_provider \<Rightarrow> 'e world \<Rightarrow> bytes option \<Rightarrow> int \<Rightarrow> 'e codec_ctx" where
  "opened_ctx p w zKey nKey = (default_ctx p w)\<lparr>
     ctx_read_ctx := Some (keyed_cipher_ctx (p_get_key_sz p) zKey nKey),
     ctx_write_ctx := Some (keyed_cipher_ctx (p_get_key_sz p) zKey nKey)\<rparr>"

definition init_sizes :: "'e sqlcipher_provider \<Rightarrow> 'e world \<Rightarrow> int \<Rightarrow> int set" where
  "init_sizes p w nKey = {sizeof_codec_ctx, 16, sizeof_provider, default_page_size w, sizeof_cipher_ctx,
     p_get_key_sz p, nKey, (p_get_key_sz p + 16) * 2 + 3}"

lemma default_ctx_sizes:
  assumes "default_settings_ok p w"
  shows "sizes_wf p (default_ctx p w)" "header_fits (default_ctx p w)"
    "ctx_key_sz (default_ctx p w) = p_get_key_sz p" "ctx_keyspec_sz (default_ctx p w) = (p_get_key_sz p + 16) * 2 + 3"
  using assms by (auto simp: sizes_wf_def header_fits_def default_ctx_def staged_ctx_def zero_codec_ctx_def
      default_settings_ok_def reserve_for_def page_size_ok_def)

lemma default_ctx_step: "mem_step w w' \<Longrightarrow> default_ctx p w' = default_ctx p w"
  by (simp add: default_ctx_def mem_step_fields)

lemma opened_ctx_wf:
  assumes "default_settings_ok p w"
    and "cipher_ctx_wf (default_ctx p w) (Some (keyed_cipher_ctx (p_get_key_sz p) zKey nKey))"
  shows "codec_wf p (opened_ctx p w zKey nKey)" "header_fits (opened_ctx p w zKey nKey)"
proof -
  have "cipher_ctx_wf (opened_ctx p w zKey nKey) c = cipher_ctx_wf (default_ctx p w) c" for c
    by (rule cipher_ctx_wf_cong) (simp_all add: opened_ctx_def)
  moreover have "block_of 16 (ctx_kdf_salt (default_ctx p w))" "block_of 16 (ctx_hmac_kdf_salt (default_ctx p w))"
    "block_of (ctx_page_sz (default_ctx p w)) (ctx_buffer (default_ctx p w))"
    using assms(1) by (simp_all add: default_ctx_def staged_ctx_def block_of_def default_settings_ok_def page_size_ok_def)
  moreover have "sizes_wf p (opened_ctx p w zKey nKey) = sizes_wf p (default_ctx p w)"
    by (simp add: sizes_wf_def opened_ctx_def)
  ultimately show "codec_wf p (opened_ctx p w zKey nKey)"
    using assms(2) default_ctx_sizes(1) [OF assms(1)]
    by (simp add: codec_wf_def) (simp add: opened_ctx_def)
  show "header_fits (opened_ctx p w zKey nKey)"
    using default_ctx_sizes(2) [OF assms(1)] by (simp add: header_fits_def opened_ctx_def)
qed

lemma codec_ctx_init_step:
  assumes p: "default_provider w = Some p" "p_ctx_init p = 0" "provider_sizes p" and key: "key_arg_ok zKey nKey"
  obtains (ok) w' where "sqlcipher_codec_ctx_init zKey nKey w = Some (0, Some (opened_ctx p w zKey nKey), w')"
      "mem_step w w'" "codec_wf p (opened_ctx p w zKey nKey)" "header_fits (opened_ctx p w zKey nKey)"
  | (bad) rc c w' where "sqlcipher_codec_ctx_init zKey nKey w = Some (rc, c, w')" "rc \<noteq> 0" "mem_step w w'"
      "\<not> default_settings_ok p w \<or> (\<exists>n \<in> init_sizes p w nKey. may_fail w n)"
proof (cases rule: malloc_cases [of sizeof_codec_ctx w])
  case (nomem w')
  then show thesis by (intro bad [of 7 None w']) (auto simp: sqlcipher_codec_ctx_init_def init_sizes_def)
next
  case 0: (ok w0)
  note f0 = mem_step_fields [OF 0(2)]
  from p f0 have "default_provider w0 = Some p" by simp
  from this p(2) show thesis
  proof (cases rule: ctx_init_provider_step)
    case (nomem ctx' w')
    then show thesis using 0 mem_step_trans [OF 0(2)] may_fail_step [OF 0(2)]
      by (intro bad [of 7 "Some ctx'" w']) (auto simp: sqlcipher_codec_ctx_init_def init_sizes_def)
  next
    case 1: (ok w1)
    have s1: "mem_step w w1" using 0 1 mem_step_trans by metis
    note f1 = mem_step_fields [OF s1]
    have d: "default_settings_ok p w1 = default_settings_ok p w" "default_ctx p w1 = default_ctx p w"
      using f1 default_ctx_step [OF s1] by (simp_all add: default_settings_ok_def)
    from p(3) show thesis
    proof (cases rule: ctx_init_settings_step [where w = w1])
      case 2: (bad ctx' w' rc)
      then show thesis using 0 1 f0 f1 d mem_step_trans [OF s1] may_fail_step [OF s1]
        by (intro bad [of rc "Some ctx'" w']) (auto simp: sqlcipher_codec_ctx_init_def init_sizes_def)
    next
      case 2: (ok w2)
      have s2: "mem_step w w2" using s1 2 mem_step_trans by metis
      have sz: "default_settings_ok p w" using 2 d by simp
      note ds = default_ctx_sizes [OF sz]
      have "0 < ctx_key_sz (default_ctx p w)" using ds p(3) by (simp add: provider_sizes_def)
      have pre: "sqlcipher_codec_ctx_init zKey nKey w =
          map_option (\<lambda>(rc, ctx, w). (rc, Some ctx, w)) (ctx_init_keys zKey nKey (default_ctx p w, w2))"
        using 0 1 2 f0 f1 d by (simp add: sqlcipher_codec_ctx_init_def)
      from key \<open>0 < ctx_key_sz (default_ctx p w)\<close> show thesis
      proof (cases rule: ctx_init_keys_step [where w = w2])
        case 3: (ok w3)
        then show thesis
          using ok [of w3] pre ds mem_step_trans [OF s2] opened_ctx_wf [OF sz] by (simp add: opened_ctx_def)
      next
        case 3: (nomem ctx' w')
        then show thesis using pre ds mem_step_trans [OF s2] may_fail_step [OF s2]
          by (intro bad [of 7 "Some ctx'" w']) (auto simp: init_sizes_def)
      qed
    qed
  qed
qed

end
