(* ===== verification/Key_Derive.thy ===== *)
theory Key_Derive
  imports Codec_Ctx
begin

text \<open>
  Key derivation (\<open>sqlcipher_cipher_ctx_key_derive\<close>, \<open>sqlcipher_codec_key_derive\<close>,
  \<open>sqlcipher_codec_key_copy\<close>): a raw key \<open>x'<64 hex>'\<close>, a raw key with its salt \<open>x'<96 hex>'\<close>, or PBKDF2 of
  a passphrase; the key specification kept for attaching databases; the separate HMAC key.
  \<open>derive_spec\<close> and \<open>hmac_key_spec\<close> state what the keys must be; \<open>key_derive_step\<close> is the
  refinement.
\<close>

section \<open>Definitions\<close>

text \<open>The test for the form \<open>x'<hex digits of n bytes>'\<close>; the closing quote is not looked at.\<close>

definition is_raw_form :: "bytes \<Rightarrow> int \<Rightarrow> int \<Rightarrow> bool option" where
  "is_raw_form pass pass_sz n =
     (if pass_sz = n * 2 + 3 \<and> sqlite3_strnicmp (Some pass) (Some [120, 39]) 2 = 0
      then cipher_isHex (drop 2 pass) (n * 2) else Some False)"

text \<open>The loop \<open>hmac_kdf_salt[i] ^= hmac_salt_mask\<close> over the first \<open>n\<close> bytes.\<close>

definition mask_salt :: "bytes \<Rightarrow> u8 \<Rightarrow> int \<Rightarrow> bytes option" where
  "mask_salt b msk n =
     do { d \<leftarrow> peek b 0 (max 0 n); poke b 0 (map (\<lambda>x. x XOR msk) d) }"

text \<open>The encryption key: the three ways to obtain it.\<close>

definition derive_enc_key ::
    "'e codec_ctx \<Rightarrow> cipher_ctx \<Rightarrow> bytes \<Rightarrow> (int \<times> 'e codec_ctx \<times> cipher_ctx) option" where
  "derive_enc_key ctx c pass =
     do { key \<leftarrow> c_key c;
          salt \<leftarrow> ctx_kdf_salt ctx;
          raw \<leftarrow> is_raw_form pass (c_pass_sz c) (ctx_key_sz ctx);
          if raw then
            do { key \<leftarrow> cipher_hex2bin (drop 2 pass) (c_pass_sz c - 3) key;
                 Some (SQLITE_OK, ctx, c\<lparr>c_key := Some key\<rparr>) }
          else do {
            raw2 \<leftarrow> is_raw_form pass (c_pass_sz c) (ctx_key_sz ctx + ctx_kdf_salt_sz ctx);
            if raw2 then
              do { key \<leftarrow> cipher_hex2bin (drop 2 pass) (ctx_key_sz ctx * 2) key;
                   salt \<leftarrow> cipher_hex2bin (drop (nat (2 + ctx_key_sz ctx * 2)) pass) (ctx_kdf_salt_sz ctx * 2) salt;
                   Some (SQLITE_OK, ctx\<lparr>ctx_kdf_salt := Some salt\<rparr>, c\<lparr>c_key := Some key\<rparr>) }
            else
              do { p \<leftarrow> ctx_provider ctx;
                   pw \<leftarrow> peek pass 0 (c_pass_sz c);
                   s \<leftarrow> peek salt 0 (ctx_kdf_salt_sz ctx);
                   (case p_kdf p (ctx_kdf_algorithm ctx) pw s (ctx_kdf_iter ctx) (ctx_key_sz ctx) of
                      None \<Rightarrow> Some (SQLITE_ERROR, ctx, c)
                    | Some k \<Rightarrow> do { key \<leftarrow> poke key 0 k; Some (SQLITE_OK, ctx, c\<lparr>c_key := Some key\<rparr>) }) } } }"

text \<open>The HMAC key, from the encryption key and the masked salt.\<close>

definition derive_hmac_key ::
    "'e codec_ctx \<Rightarrow> cipher_ctx \<Rightarrow> u8 \<Rightarrow> (int \<times> 'e codec_ctx \<times> cipher_ctx) option" where
  "derive_hmac_key ctx c msk =
     do { hs \<leftarrow> ctx_hmac_kdf_salt ctx;
          salt \<leftarrow> ctx_kdf_salt ctx;
          d \<leftarrow> peek salt 0 (ctx_kdf_salt_sz ctx);
          hs \<leftarrow> poke hs 0 d;
          hs \<leftarrow> mask_salt hs msk (ctx_kdf_salt_sz ctx);
          let ctx = ctx\<lparr>ctx_hmac_kdf_salt := Some hs\<rparr>;
          p \<leftarrow> ctx_provider ctx;
          key \<leftarrow> c_key c;
          hmac_key \<leftarrow> c_hmac_key c;
          k \<leftarrow> peek key 0 (ctx_key_sz ctx);
          s \<leftarrow> peek hs 0 (ctx_kdf_salt_sz ctx);
          (case p_kdf p (ctx_kdf_algorithm ctx) k s (ctx_fast_kdf_iter ctx) (ctx_key_sz ctx) of
             None \<Rightarrow> Some (SQLITE_ERROR, ctx, c)
           | Some r \<Rightarrow> do { hmac_key \<leftarrow> poke hmac_key 0 r; Some (SQLITE_OK, ctx, c\<lparr>c_hmac_key := Some hmac_key\<rparr>) }) }"

definition sqlcipher_cipher_ctx_key_derive ::
    "btree \<Rightarrow> 'e codec_ctx \<Rightarrow> cipher_ctx \<Rightarrow> 'e world \<Rightarrow> (int \<times> 'e codec_ctx \<times> cipher_ctx \<times> 'e world) option" where
  "sqlcipher_cipher_ctx_key_derive bt ctx c w =
     (case c_pass c of
        None \<Rightarrow> Some (SQLITE_ERROR, ctx, c, w)
      | Some pass \<Rightarrow>
         if c_pass_sz c = 0 then Some (SQLITE_ERROR, ctx, c, w)
         else do {
           (rc, ctx, w) \<leftarrow> (if \<not> flag_get (ctx_flags ctx) CIPHER_FLAG_HAS_KDF_SALT
                             then sqlcipher_codec_ctx_init_kdf_salt bt ctx w
                             else Some (SQLITE_OK, ctx, w));
           if rc \<noteq> SQLITE_OK then Some (rc, ctx, c, w) else do {
           (rc, ctx, c) \<leftarrow> derive_enc_key ctx c pass;
           if rc \<noteq> SQLITE_OK then Some (rc, ctx, c, w) else do {
           key \<leftarrow> c_key c;
           (rc, c, w) \<leftarrow> sqlcipher_cipher_ctx_set_keyspec ctx c key w;
           if rc \<noteq> SQLITE_OK then Some (rc, ctx, c, w) else do {
           (rc, ctx, c) \<leftarrow> (if flag_get (ctx_flags ctx) CIPHER_FLAG_HMAC
                             then derive_hmac_key ctx c (hmac_salt_mask w)
                             else Some (SQLITE_OK, ctx, c));
           if rc \<noteq> SQLITE_OK then Some (rc, ctx, c, w)
           else Some (SQLITE_OK, ctx, c\<lparr>c_derive_key := 0\<rparr>, w) } } } })"

definition codec_derive_read :: "btree \<Rightarrow> 'e codec_ctx \<Rightarrow> 'e world \<Rightarrow> (int \<times> 'e codec_ctx \<times> 'e world) option" where
  "codec_derive_read bt ctx w =
     do { rd \<leftarrow> ctx_read_ctx ctx;
          if c_derive_key rd \<noteq> 0 then
            do { (rc, ctx, rd, w) \<leftarrow> sqlcipher_cipher_ctx_key_derive bt ctx rd w;
                 Some (if rc \<noteq> SQLITE_OK then SQLITE_ERROR else SQLITE_OK, ctx\<lparr>ctx_read_ctx := Some rd\<rparr>, w) }
          else Some (SQLITE_OK, ctx, w) }"

definition codec_derive_write :: "btree \<Rightarrow> 'e codec_ctx \<Rightarrow> 'e world \<Rightarrow> (int \<times> 'e codec_ctx \<times> 'e world) option" where
  "codec_derive_write bt ctx w =
     do { rd \<leftarrow> ctx_read_ctx ctx;
          wr \<leftarrow> ctx_write_ctx ctx;
          if c_derive_key wr \<noteq> 0 then
            do { cmp \<leftarrow> sqlcipher_cipher_ctx_cmp wr rd;
                 if cmp = 0 then
                   do { (rc, wr, w) \<leftarrow> sqlcipher_cipher_ctx_copy ctx wr rd w;
                        Some (if rc \<noteq> SQLITE_OK then SQLITE_ERROR else SQLITE_OK, ctx\<lparr>ctx_write_ctx := Some wr\<rparr>, w) }
                 else
                   do { (rc, ctx, wr, w) \<leftarrow> sqlcipher_cipher_ctx_key_derive bt ctx wr w;
                        Some (if rc \<noteq> SQLITE_OK then SQLITE_ERROR else SQLITE_OK, ctx\<lparr>ctx_write_ctx := Some wr\<rparr>, w) } }
          else Some (SQLITE_OK, ctx, w) }"

definition codec_wipe_pass :: "'e codec_ctx \<Rightarrow> 'e world \<Rightarrow> (int \<times> 'e codec_ctx \<times> 'e world) option" where
  "codec_wipe_pass ctx w =
     (if ctx_store_pass ctx \<noteq> 1 then
        do { rd \<leftarrow> ctx_read_ctx ctx;
             (_, rd, w) \<leftarrow> sqlcipher_cipher_ctx_set_pass rd None 0 w;
             wr \<leftarrow> ctx_write_ctx ctx;
             (_, wr, w) \<leftarrow> sqlcipher_cipher_ctx_set_pass wr None 0 w;
             Some (SQLITE_OK, ctx\<lparr>ctx_read_ctx := Some rd, ctx_write_ctx := Some wr\<rparr>, w) }
      else Some (SQLITE_OK, ctx, w))"

definition sqlcipher_codec_key_derive ::
    "btree \<Rightarrow> 'e codec_ctx \<Rightarrow> 'e world \<Rightarrow> (int \<times> 'e codec_ctx \<times> 'e world) option" where
  "sqlcipher_codec_key_derive bt ctx w =
     on_ok (codec_derive_read bt ctx w) (\<lambda>(ctx, w).
     on_ok (codec_derive_write bt ctx w) (\<lambda>(ctx, w).
     codec_wipe_pass ctx w))"

definition sqlcipher_codec_key_copy :: "'e codec_ctx \<Rightarrow> int \<Rightarrow> 'e world \<Rightarrow> (int \<times> 'e codec_ctx \<times> 'e world) option" where
  "sqlcipher_codec_key_copy ctx src w =
     do { rd \<leftarrow> ctx_read_ctx ctx;
          wr \<leftarrow> ctx_write_ctx ctx;
          if src = CIPHER_READ_CTX then
            do { (rc, wr, w) \<leftarrow> sqlcipher_cipher_ctx_copy ctx wr rd w; Some (rc, ctx\<lparr>ctx_write_ctx := Some wr\<rparr>, w) }
          else
            do { (rc, rd, w) \<leftarrow> sqlcipher_cipher_ctx_copy ctx rd wr w; Some (rc, ctx\<lparr>ctx_read_ctx := Some rd\<rparr>, w) } }"

section \<open>Specification\<close>

text \<open>What the keys are, as functions of the passphrase and the salt.\<close>

definition raw_form :: "bytes \<Rightarrow> nat \<Rightarrow> bool" where
  "raw_form pass n \<longleftrightarrow> length pass = n * 2 + 3 \<and> map UpperToLower (take 2 pass) = map UpperToLower [120, 39]
     \<and> list_all is_hex_digit (take (n * 2) (drop 2 pass))"

definition derive_spec :: "'e sqlcipher_provider \<Rightarrow> 'e codec_ctx \<Rightarrow> bytes \<Rightarrow> bytes \<Rightarrow> (bytes \<times> bytes) option" where
  "derive_spec p ctx salt pass =
     (let k = nat (ctx_key_sz ctx) in
      if raw_form pass k then Some (hexpairs (take (k * 2) (drop 2 pass)), salt)
      else if raw_form pass (k + 16)
      then Some (hexpairs (take (k * 2) (drop 2 pass)), hexpairs (take 32 (drop (2 + k * 2) pass)))
      else map_option (\<lambda>key. (key, salt))
             (p_kdf p (ctx_kdf_algorithm ctx) pass salt (ctx_kdf_iter ctx) (ctx_key_sz ctx)))"

definition hmac_key_spec :: "'e sqlcipher_provider \<Rightarrow> 'e codec_ctx \<Rightarrow> u8 \<Rightarrow> bytes \<Rightarrow> bytes \<Rightarrow> bytes option" where
  "hmac_key_spec p ctx msk key salt =
     p_kdf p (ctx_kdf_algorithm ctx) key (map (\<lambda>x. x XOR msk) salt) (ctx_fast_kdf_iter ctx) (ctx_key_sz ctx)"

section \<open>The code meets the specification\<close>

lemma raw_prefix:
  "sqlite3_strnicmp (Some pass) (Some [120, 39]) 2 = 0 \<longleftrightarrow>
     map UpperToLower (take 2 pass) = map UpperToLower [120, 39]"
proof -
  have "strnicmp_loop pass [120, 39] 2 = 0 \<longleftrightarrow>
      map UpperToLower (take (length [120, 39 :: u8]) pass) = map UpperToLower [120, 39]"
    by (rule strnicmp_loop_prefix) simp_all
  then show ?thesis by (simp add: sqlite3_strnicmp_def numeral_2_eq_2)
qed

lemma is_raw_form_eq:
  assumes "int (length pass) = sz" "0 \<le> n"
  shows "is_raw_form pass sz n = Some (raw_form pass (nat n))"
proof (cases "sz = n * 2 + 3")
  case True
  then have len: "length pass = nat n * 2 + 3" using assms by linarith
  have n2: "nat (n * 2) = nat n * 2" using assms by simp
  show ?thesis
    using True assms len by (simp add: is_raw_form_def raw_prefix cipher_isHex_closed raw_form_def n2 del: list.map)
next
  case False
  then have "length pass \<noteq> nat n * 2 + 3" using assms by auto
  with False show ?thesis by (auto simp: is_raw_form_def raw_form_def)
qed

lemma mask_salt_eq: "int (length b) = n \<Longrightarrow> mask_salt b m n = Some (map (\<lambda>x. x XOR m) b)"
  by (simp add: mask_salt_def peek_whole poke_whole)

context crypto_provider
begin

lemma derive_enc_key_eq:
  assumes ok: "ok p" and sz: "sizes_wf (prov p) ctx"
    and c: "block_of (ctx_key_sz ctx) (c_key c)" and salt: "ctx_kdf_salt ctx = Some salt" "length salt = 16"
    and pass: "int (length pass) = c_pass_sz c"
  shows "derive_enc_key ctx c pass =
     (case derive_spec (prov p) ctx salt pass of
        None \<Rightarrow> Some (1, ctx, c)
      | Some (key, salt') \<Rightarrow> Some (0, ctx\<lparr>ctx_kdf_salt := Some salt'\<rparr>, c\<lparr>c_key := Some key\<rparr>))"
    (is "?L = ?R")
proof -
  obtain key where key: "c_key c = Some key" "int (length key) = ctx_key_sz ctx"
    using c by (auto simp: block_of_def)
  define k where "k = nat (ctx_key_sz ctx)"
  have k: "ctx_key_sz ctx = int k" "length key = k" "0 < k"
    using key(2) sizes_reserve(7) [OF sizes_ok [OF ok] sz] by (auto simp: k_def)
  have ssz: "ctx_kdf_salt_sz ctx = 16" and prov: "ctx_provider ctx = Some (prov p)"
    using sz by (simp_all add: sizes_wf_def)
  have rf: "is_raw_form pass (c_pass_sz c) (int k) = Some (raw_form pass k)"
    "is_raw_form pass (c_pass_sz c) (int k + 16) = Some (raw_form pass (k + 16))"
    using is_raw_form_eq [OF pass, of "int k"] is_raw_form_eq [OF pass, of "int k + 16"]
    by (simp_all add: nat_add_distrib)
  consider (raw) "raw_form pass k" | (raw2) "\<not> raw_form pass k" "raw_form pass (k + 16)"
    | (kdf) "\<not> raw_form pass k" "\<not> raw_form pass (k + 16)" by blast
  then show ?thesis
  proof cases
    case raw
    then have len: "length pass = k * 2 + 3" by (simp add: raw_form_def)
    then have n: "c_pass_sz c - 3 = int (k * 2)" using pass by simp
    have "cipher_hex2bin (drop 2 pass) (c_pass_sz c - 3) key = Some (hexpairs (take (k * 2) (drop 2 pass)))"
      unfolding n using len k by (subst cipher_hex2bin_closed) (simp_all add: poke_whole nat_mult_distrib)
    with raw show ?thesis using key salt k rf by (simp add: derive_enc_key_def derive_spec_def)
  next
    case raw2
    then have len: "length pass = k * 2 + 35" by (simp add: raw_form_def)
    have n: "nat (int k * 2) = k * 2" "nat (2 + int k * 2) = 2 + k * 2" by linarith+
    have "cipher_hex2bin (drop 2 pass) (int k * 2) key = Some (hexpairs (take (k * 2) (drop 2 pass)))"
      using len k by (subst cipher_hex2bin_closed) (auto simp: poke_whole n)
    moreover have "cipher_hex2bin (drop (2 + k * 2) pass) 32 salt = Some (hexpairs (take 32 (drop (2 + k * 2) pass)))"
      using len salt by (subst cipher_hex2bin_closed) (auto simp: poke_whole)
    ultimately show ?thesis using raw2 key salt k rf ssz by (simp add: derive_enc_key_def derive_spec_def n)
  next
    case kdf
    have "length r = k" if "p_kdf (prov p) a pw s i (int k) = Some r" for a pw s i r
      using kdf_length [OF ok _ that] by simp
    with kdf show ?thesis using key salt k rf ssz prov pass
      by (auto simp: derive_enc_key_def derive_spec_def peek_whole poke_whole split: option.splits)
  qed
qed

lemma derive_spec_lengths:
  assumes "ok p" "0 \<le> ctx_key_sz ctx" "derive_spec (prov p) ctx salt pass = Some (key, salt')" "length salt = 16"
  shows "int (length key) = ctx_key_sz ctx" "length salt' = 16"
  using assms kdf_length [OF assms(1,2)]
  by (auto simp: derive_spec_def raw_form_def Let_def split: if_splits)

lemma derive_hmac_key_eq:
  assumes ok: "ok p" and sz: "sizes_wf (prov p) ctx"
    and c: "c_key c = Some key" "int (length key) = ctx_key_sz ctx" "block_of (ctx_key_sz ctx) (c_hmac_key c)"
    and salt: "ctx_kdf_salt ctx = Some salt" "length salt = 16" and hs: "block_of 16 (ctx_hmac_kdf_salt ctx)"
  shows "derive_hmac_key ctx c m =
     (let ctx' = ctx\<lparr>ctx_hmac_kdf_salt := Some (map (\<lambda>x. x XOR m) salt)\<rparr> in
      case hmac_key_spec (prov p) ctx m key salt of
        None \<Rightarrow> Some (1, ctx', c)
      | Some hk \<Rightarrow> Some (0, ctx', c\<lparr>c_hmac_key := Some hk\<rparr>))"
proof -
  obtain h hk where h: "ctx_hmac_kdf_salt ctx = Some h" "length h = 16"
    and hk: "c_hmac_key c = Some hk" "int (length hk) = ctx_key_sz ctx"
    using hs c by (auto simp: block_of_def)
  have ssz: "ctx_kdf_salt_sz ctx = 16" and prov: "ctx_provider ctx = Some (prov p)"
    using sz by (simp_all add: sizes_wf_def)
  have k: "0 \<le> ctx_key_sz ctx" using sizes_reserve(7) [OF sizes_ok [OF ok] sz] by simp
  have len: "length r = length hk" if "p_kdf (prov p) a pw s i (ctx_key_sz ctx) = Some r" for a pw s i r
    using kdf_length [OF ok k that] hk by simp
  show ?thesis
    using h hk c salt ssz prov len
    by (auto simp: derive_hmac_key_def hmac_key_spec_def peek_whole poke_whole mask_salt_eq Let_def
        split: option.splits)
qed

end

text \<open>A context that differs from \<open>ctx\<close> in its salts only, and in the flag that says a salt is there.\<close>

definition salted :: "'e codec_ctx \<Rightarrow> 'e codec_ctx \<Rightarrow> bool" where
  "salted ctx ctx' \<longleftrightarrow>
     ctx'\<lparr>ctx_kdf_salt := ctx_kdf_salt ctx, ctx_hmac_kdf_salt := ctx_hmac_kdf_salt ctx, ctx_flags := ctx_flags ctx\<rparr> = ctx
   \<and> block_of 16 (ctx_kdf_salt ctx') \<and> block_of 16 (ctx_hmac_kdf_salt ctx')
   \<and> ctx_flags ctx' \<in> {ctx_flags ctx, flag_set (ctx_flags ctx) CIPHER_FLAG_HAS_KDF_SALT}"

lemma salted_fields:
  assumes "salted ctx ctx'"
  shows "ctx_key_sz ctx' = ctx_key_sz ctx" "ctx_keyspec_sz ctx' = ctx_keyspec_sz ctx"
    "ctx_page_sz ctx' = ctx_page_sz ctx" "ctx_buffer ctx' = ctx_buffer ctx"
    "ctx_read_ctx ctx' = ctx_read_ctx ctx" "ctx_write_ctx ctx' = ctx_write_ctx ctx"
    "ctx_provider ctx' = ctx_provider ctx" "ctx_kdf_algorithm ctx' = ctx_kdf_algorithm ctx"
    "ctx_kdf_iter ctx' = ctx_kdf_iter ctx" "ctx_fast_kdf_iter ctx' = ctx_fast_kdf_iter ctx"
    "ctx_plaintext_header_sz ctx' = ctx_plaintext_header_sz ctx" "ctx_reserve_sz ctx' = ctx_reserve_sz ctx"
    "ctx_block_sz ctx' = ctx_block_sz ctx" "ctx_store_pass ctx' = ctx_store_pass ctx"
    "ctx_iv_sz ctx' = ctx_iv_sz ctx" "ctx_hmac_sz ctx' = ctx_hmac_sz ctx"
    "ctx_hmac_algorithm ctx' = ctx_hmac_algorithm ctx" "ctx_kdf_salt_sz ctx' = ctx_kdf_salt_sz ctx"
  using assms by (cases ctx; cases ctx'; simp add: salted_def; blast)+

lemma salted_flags:
  assumes "salted ctx ctx'"
  shows "flag_get (ctx_flags ctx') CIPHER_FLAG_HMAC = flag_get (ctx_flags ctx) CIPHER_FLAG_HMAC"
    "flag_get (ctx_flags ctx') CIPHER_FLAG_LE_PGNO = flag_get (ctx_flags ctx) CIPHER_FLAG_LE_PGNO"
    "flag_get (ctx_flags ctx') CIPHER_FLAG_BE_PGNO = flag_get (ctx_flags ctx) CIPHER_FLAG_BE_PGNO"
    "flag_get (ctx_flags ctx) CIPHER_FLAG_HAS_KDF_SALT \<Longrightarrow> flag_get (ctx_flags ctx') CIPHER_FLAG_HAS_KDF_SALT"
  using assms by (auto simp: salted_def)

lemma salted_wf: "salted ctx ctx' \<Longrightarrow> codec_wf p ctx \<Longrightarrow> codec_wf p ctx'"
  using salted_fields [of ctx ctx'] salted_flags [of ctx ctx'] cipher_ctx_wf_cong [of ctx' ctx]
  by (simp add: codec_wf_def sizes_wf_def) (simp add: salted_def)

lemma salted_refl: "codec_wf p ctx \<Longrightarrow> salted ctx ctx"
  by (simp add: salted_def codec_wf_def)

lemma salted_trans:
  assumes a: "salted x y" and b: "salted y z"
  shows "salted x z"
proof -
  have "z\<lparr>ctx_kdf_salt := ctx_kdf_salt x, ctx_hmac_kdf_salt := ctx_hmac_kdf_salt x, ctx_flags := ctx_flags x\<rparr> = x"
    using a b by (cases x; cases y; cases z) (auto simp: salted_def)
  moreover have "flag_set (flag_set f a) a = flag_set f a" for f a
    by (simp add: flag_set_def or.assoc)
  ultimately show ?thesis using a b by (auto simp: salted_def)
qed

lemma salted_kdf_salt: "salted ctx ctx' \<Longrightarrow> length s = 16 \<Longrightarrow> salted ctx (ctx'\<lparr>ctx_kdf_salt := Some s\<rparr>)"
  by (cases ctx; cases ctx') (auto simp: salted_def block_of_def)

lemma salted_hmac_salt: "salted ctx ctx' \<Longrightarrow> length s = 16 \<Longrightarrow> salted ctx (ctx'\<lparr>ctx_hmac_kdf_salt := Some s\<rparr>)"
  by (cases ctx; cases ctx') (auto simp: salted_def block_of_def)

lemma salted_has_salt:
  "codec_wf p ctx \<Longrightarrow> length s = 16 \<Longrightarrow>
     salted ctx (ctx\<lparr>ctx_kdf_salt := Some s, ctx_flags := flag_set (ctx_flags ctx) CIPHER_FLAG_HAS_KDF_SALT\<rparr>)"
  by (cases ctx) (auto simp: salted_def block_of_def codec_wf_def)

lemma mem_step_entropy: "mem_step w (w\<lparr>w_entropy := e\<rparr>)"
  by (simp add: mem_step_def)

text \<open>The salt of a database: the first 16 bytes of its file when they can be read.\<close>

lemma os_read_salt:
  assumes "length salt = 16" "\<not> f_read_fails fd" "16 \<le> length (f_bytes fd)"
  shows "sqlite3OsRead fd salt 16 0 = Some (0, take 16 (f_bytes fd))"
  using assms by (simp add: sqlite3OsRead_def poke_whole)

context crypto_provider
begin

lemma init_kdf_salt_step:
  assumes pok: "ok p" and wf: "codec_wf (prov p) ctx"
  obtains (ok) ctx' w' where "sqlcipher_codec_ctx_init_kdf_salt bt ctx w = Some (0, ctx', w')" "mem_step w w'"
      "salted ctx ctx'" "flag_get (ctx_flags ctx') CIPHER_FLAG_HAS_KDF_SALT"
      "flag_get (ctx_flags ctx) CIPHER_FLAG_HAS_KDF_SALT \<Longrightarrow> ctx' = ctx"
      "ctx_hmac_kdf_salt ctx' = ctx_hmac_kdf_salt ctx"
  | (err) ctx' w' where "sqlcipher_codec_ctx_init_kdf_salt bt ctx w = Some (1, ctx', w')" "mem_step w w'" "salted ctx ctx'"
proof (cases "flag_get (ctx_flags ctx) CIPHER_FLAG_HAS_KDF_SALT")
  case True
  then show thesis
    using that(1) [of ctx w] salted_refl [OF wf] by (simp add: sqlcipher_codec_ctx_init_kdf_salt_def)
next
  case False
  obtain salt where salt: "ctx_kdf_salt ctx = Some salt" "length salt = 16"
    using wf by (auto simp: codec_wf_def block_of_def)
  have ssz: "ctx_kdf_salt_sz ctx = 16" and prov: "ctx_provider ctx = Some (prov p)"
    using wf by (simp_all add: codec_wf_def sizes_wf_def)
  let ?rd = "case pg_fd bt of None \<Rightarrow> Some (False, salt)
     | Some fd \<Rightarrow> do { (rc, salt) \<leftarrow> sqlite3OsRead fd salt (ctx_kdf_salt_sz ctx) 0; Some (rc = SQLITE_OK, salt) }"
  obtain got s1 where rd: "?rd = Some (got, s1)" "length s1 = 16"
  proof (cases "pg_fd bt")
    case None
    then show thesis using that [of False salt] salt by simp
  next
    case (Some fd)
    then show thesis using that os_read_defined [of 16 salt fd 0] salt ssz by auto
  qed
  let ?f = "flag_set (ctx_flags ctx) CIPHER_FLAG_HAS_KDF_SALT"
  have run: "sqlcipher_codec_ctx_init_kdf_salt bt ctx w =
     (if got then Some (0, ctx\<lparr>ctx_kdf_salt := Some s1, ctx_flags := ?f\<rparr>, w)
      else (case p_random (prov p) (w_entropy w) 16 of
              (None, e) \<Rightarrow> Some (1, ctx\<lparr>ctx_kdf_salt := Some s1\<rparr>, w\<lparr>w_entropy := e\<rparr>)
            | (Some r, e) \<Rightarrow> do { salt \<leftarrow> poke s1 0 r;
                Some (0, ctx\<lparr>ctx_kdf_salt := Some salt, ctx_flags := ?f\<rparr>, w\<lparr>w_entropy := e\<rparr>) }))"
    unfolding sqlcipher_codec_ctx_init_kdf_salt_def using False salt(1) prov
    by (simp add: Let_def ssz rd(1) split: option.splits prod.splits)
  obtain r e where r: "p_random (prov p) (w_entropy w) 16 = (r, e)" by fastforce
  consider "got" | "\<not> got" "r = None" | s2 where "\<not> got" "r = Some s2" by (cases r) auto
  then show thesis
  proof cases
    case 1
    show thesis
      by (rule that(1) [OF _ mem_step_refl salted_has_salt [OF wf rd(2)]]) (use run False 1 in simp_all)
  next
    case 2
    show thesis
      by (rule that(2) [OF _ mem_step_entropy salted_kdf_salt [OF salted_refl [OF wf] rd(2)]]) (use run r 2 in simp)
  next
    case 3
    then have s2: "length s2 = 16" using random_length [OF pok _ r [unfolded 3]] by simp
    show thesis
      by (rule that(1) [OF _ mem_step_entropy salted_has_salt [OF wf s2]])
         (use run r False rd(2) s2 3 in \<open>simp_all add: poke_whole\<close>)
  qed
qed

end

lemma key_derive_no_pass:
  "c_pass c = None \<or> c_pass_sz c = 0 \<Longrightarrow> sqlcipher_cipher_ctx_key_derive bt ctx c w = Some (1, ctx, c, w)"
  by (cases "c_pass c") (auto simp: sqlcipher_cipher_ctx_key_derive_def)

text \<open>The keys of \<open>c\<close> are those the specification gives for the encryption key and salt.\<close>

definition keyed_by :: "'e sqlcipher_provider \<Rightarrow> 'e codec_ctx \<Rightarrow> u8 \<Rightarrow> cipher_ctx \<Rightarrow> bytes \<Rightarrow> bytes \<Rightarrow> bool" where
  "keyed_by p ctx m c key salt \<longleftrightarrow> c_key c = Some key \<and> c_keyspec c = Some (keyspec_text key salt)
     \<and> (flag_get (ctx_flags ctx) CIPHER_FLAG_HMAC \<longrightarrow> c_hmac_key c = hmac_key_spec p ctx m key salt)"

context crypto_provider
begin

text \<open>
  The derivation once the salt is there: the keys are those of the specification, or the
  provider's key derivation failed, or memory ran out.
\<close>

lemma key_derive_salted:
  assumes pok: "ok p" and wf: "codec_wf (prov p) ctx" and c: "cipher_ctx_wf ctx (Some c)"
    and pass: "c_pass c = Some pass" and has: "flag_get (ctx_flags ctx) CIPHER_FLAG_HAS_KDF_SALT"
    and salt: "ctx_kdf_salt ctx = Some salt"
  obtains (ok) key salt' ctx' c' w' where "derive_spec (prov p) ctx salt pass = Some (key, salt')"
      "sqlcipher_cipher_ctx_key_derive bt ctx c w = Some (0, ctx', c', w')" "mem_step w w'" "salted ctx ctx'"
      "ctx_kdf_salt ctx' = Some salt'" "keyed_by (prov p) ctx (hmac_salt_mask w) c' key salt'"
      "cipher_ctx_wf ctx (Some c')" "c_pass c' = c_pass c" "c_pass_sz c' = c_pass_sz c" "c_derive_key c' = 0"
  | (err) rc ctx' c' w' where "rc \<noteq> 0" "sqlcipher_cipher_ctx_key_derive bt ctx c w = Some (rc, ctx', c', w')"
      "mem_step w w'" "salted ctx ctx'" "cipher_ctx_wf ctx (Some c')"
proof -
  note sal = salted_refl [OF wf]
  have sz: "sizes_wf (prov p) ctx" and hs: "block_of 16 (ctx_hmac_kdf_salt ctx)" and sl: "length salt = 16"
    using wf salt by (auto simp: codec_wf_def block_of_def)
  have ps: "int (length pass) = c_pass_sz c" "c_pass_sz c \<noteq> 0"
    and cw: "block_of (ctx_key_sz ctx) (c_key c)" "block_of (ctx_key_sz ctx) (c_hmac_key c)"
      "c_keyspec c = None \<or> block_of (ctx_keyspec_sz ctx) (c_keyspec c)"
    using c pass by (auto simp: cipher_ctx_wf_def block_of_def)
  note enc = derive_enc_key_eq [OF pok sz cw(1) salt sl ps(1)]
  show thesis
  proof (cases "derive_spec (prov p) ctx salt pass")
    case None
    then show thesis using has pass ps sal c enc
      by (intro err [of 1 ctx c w]) (auto simp: sqlcipher_cipher_ctx_key_derive_def)
  next
    case (Some ks)
    obtain key salt' where ks: "ks = (key, salt')" by fastforce
    note ksz = sizes_reserve(7) [OF sizes_ok [OF pok] sz]
    have len: "int (length key) = ctx_key_sz ctx" "length salt' = 16"
      using derive_spec_lengths [OF pok _ Some [unfolded ks] sl] ksz by auto
    let ?ctx = "ctx\<lparr>ctx_kdf_salt := Some salt'\<rparr>" and ?c = "c\<lparr>c_key := Some key\<rparr>"
    have sal1: "salted ctx ?ctx" by (rule salted_kdf_salt [OF sal len(2)])
    note sf = salted_fields [OF sal1]
    have c1: "cipher_ctx_wf ctx (Some ?c)" using c len(1) by (simp add: cipher_ctx_wf_def)
    have pre: "sqlcipher_cipher_ctx_key_derive bt ctx c w =
       do { (rc, c, w) \<leftarrow> sqlcipher_cipher_ctx_set_keyspec ?ctx ?c key w;
            if rc \<noteq> 0 then Some (rc, ?ctx, c, w) else do {
            (rc, ctx, c) \<leftarrow> (if flag_get (ctx_flags ?ctx) CIPHER_FLAG_HMAC
                              then derive_hmac_key ?ctx c (hmac_salt_mask w) else Some (0, ?ctx, c));
            if rc \<noteq> 0 then Some (rc, ctx, c, w) else Some (0, ctx, c\<lparr>c_derive_key := 0\<rparr>, w) } }"
      using has pass ps enc Some ks by (simp add: sqlcipher_cipher_ctx_key_derive_def)
    have "c_keyspec ?c = None \<or> block_of (ctx_keyspec_sz ?ctx) (c_keyspec ?c)"
      "ctx_kdf_salt ?ctx = Some salt'" "int (length salt') = ctx_kdf_salt_sz ?ctx" "0 < ctx_kdf_salt_sz ?ctx"
      "int (length key) = ctx_key_sz ?ctx" "0 < ctx_key_sz ?ctx"
      "ctx_keyspec_sz ?ctx = (ctx_key_sz ?ctx + ctx_kdf_salt_sz ?ctx) * 2 + 3"
      using len sz ksz cw(3) by (simp_all add: sizes_wf_def)
    then show thesis
    proof (cases rule: set_keyspec_step [where w = w])
      case (nomem w')
      then show thesis using pre c1 sal1
        by (intro err [of 7 ?ctx "?c\<lparr>c_keyspec := None\<rparr>" w']) (auto simp: cipher_ctx_wf_def)
    next
      case k: (ok w1)
      let ?d = "?c\<lparr>c_keyspec := Some (keyspec_text key salt')\<rparr>"
      have d: "cipher_ctx_wf ctx (Some ?d)" using c1 len sz by (simp add: cipher_ctx_wf_def sizes_wf_def)
      have m: "hmac_salt_mask w1 = hmac_salt_mask w" using mem_step_fields [OF k(2)] by simp
      let ?fin = "\<lambda>ctx' c'. sqlcipher_cipher_ctx_key_derive bt ctx c w = Some (0, ctx', c'\<lparr>c_derive_key := 0\<rparr>, w1)"
      show thesis
      proof (cases "flag_get (ctx_flags ctx) CIPHER_FLAG_HMAC")
        case False
        then have fin: "?fin ?ctx ?d" using pre k by simp
        have "keyed_by (prov p) ctx (hmac_salt_mask w) (?d\<lparr>c_derive_key := 0\<rparr>) key salt'"
          and "cipher_ctx_wf ctx (Some (?d\<lparr>c_derive_key := 0\<rparr>))"
          using False d by (simp_all add: keyed_by_def cipher_ctx_wf_def)
        then show thesis by (intro ok [OF Some [unfolded ks] fin k(2) sal1]) simp_all
      next
        case True
        have "sizes_wf (prov p) ?ctx" using sz by (simp add: sizes_wf_def)
        moreover have "block_of (ctx_key_sz ?ctx) (c_hmac_key ?d)" using cw(2) by simp
        ultimately have hk: "derive_hmac_key ?ctx ?d (hmac_salt_mask w1) =
           (let ctx' = ?ctx\<lparr>ctx_hmac_kdf_salt := Some (map (\<lambda>x. x XOR hmac_salt_mask w) salt')\<rparr> in
            case hmac_key_spec (prov p) ctx (hmac_salt_mask w) key salt' of
              None \<Rightarrow> Some (1, ctx', ?d)
            | Some hk \<Rightarrow> Some (0, ctx', ?d\<lparr>c_hmac_key := Some hk\<rparr>))"
          using derive_hmac_key_eq [OF pok, of ?ctx ?d key salt' "hmac_salt_mask w1"] len hs m
          by (simp add: hmac_key_spec_def)
        have sal2: "salted ctx (?ctx\<lparr>ctx_hmac_kdf_salt := Some (map (\<lambda>x. x XOR hmac_salt_mask w) salt')\<rparr>)"
          using len by (intro salted_hmac_salt [OF sal1]) simp
        show thesis
        proof (cases "hmac_key_spec (prov p) ctx (hmac_salt_mask w) key salt'")
          case None
          then show thesis using pre k hk True d sal2
            by (intro err [of 1 _ ?d w1]) (auto simp: Let_def)
        next
          case hks: (Some hk)
          then have "int (length hk) = ctx_key_sz ctx"
            using kdf_length [OF pok] ksz by (simp add: hmac_key_spec_def)
          with d True have "keyed_by (prov p) ctx (hmac_salt_mask w) (?d\<lparr>c_hmac_key := Some hk, c_derive_key := 0\<rparr>) key salt'"
            and "cipher_ctx_wf ctx (Some (?d\<lparr>c_hmac_key := Some hk, c_derive_key := 0\<rparr>))"
            using hks by (simp_all add: keyed_by_def cipher_ctx_wf_def)
          moreover have fin: "?fin (?ctx\<lparr>ctx_hmac_kdf_salt := Some (map (\<lambda>x. x XOR hmac_salt_mask w) salt')\<rparr>)
              (?d\<lparr>c_hmac_key := Some hk\<rparr>)"
            using pre k hk True hks by (simp add: Let_def)
          ultimately show thesis by (intro ok [OF Some [unfolded ks] fin k(2) sal2]) simp_all
        qed
      qed
    qed
  qed
qed

lemma key_derive_step:
  assumes pok: "ok p" and wf: "codec_wf (prov p) ctx" and c: "cipher_ctx_wf ctx (Some c)"
  obtains (ok) pass key salt salt' ctx' c' w' where "c_pass c = Some pass"
      "derive_spec (prov p) ctx salt pass = Some (key, salt')"
      "flag_get (ctx_flags ctx) CIPHER_FLAG_HAS_KDF_SALT \<Longrightarrow> ctx_kdf_salt ctx = Some salt"
      "sqlcipher_cipher_ctx_key_derive bt ctx c w = Some (0, ctx', c', w')" "mem_step w w'" "salted ctx ctx'"
      "flag_get (ctx_flags ctx') CIPHER_FLAG_HAS_KDF_SALT"
      "ctx_kdf_salt ctx' = Some salt'" "keyed_by (prov p) ctx (hmac_salt_mask w) c' key salt'"
      "cipher_ctx_wf ctx (Some c')" "c_pass c' = c_pass c" "c_pass_sz c' = c_pass_sz c" "c_derive_key c' = 0"
  | (err) rc ctx' c' w' where "rc \<noteq> 0" "sqlcipher_cipher_ctx_key_derive bt ctx c w = Some (rc, ctx', c', w')"
      "mem_step w w'" "salted ctx ctx'" "cipher_ctx_wf ctx (Some c')"
proof (cases "c_pass c")
  case None
  then show thesis
    using key_derive_no_pass [of c] by (intro err [OF _ _ mem_step_refl salted_refl [OF wf] c]) auto
next
  case pass: (Some pass)
  then have ps: "c_pass_sz c \<noteq> 0" using c by (auto simp: cipher_ctx_wf_def)
  from pok wf show thesis
  proof (cases rule: init_kdf_salt_step [where bt = bt and w = w])
    case 1: (err ctx' w')
    have "\<not> flag_get (ctx_flags ctx) CIPHER_FLAG_HAS_KDF_SALT"
      using 1(1) by (auto simp: sqlcipher_codec_ctx_init_kdf_salt_def)
    then show thesis using 1 pass ps
      by (intro err [OF _ _ 1(2,3) c, of 1]) (auto simp: sqlcipher_cipher_ctx_key_derive_def)
  next
    case 1: (ok ctx1 w1)
    note f = salted_fields [OF 1(3)] and fl = salted_flags [OF 1(3)]
    have wf1: "codec_wf (prov p) ctx1" by (rule salted_wf [OF 1(3) wf])
    then obtain salt where salt: "ctx_kdf_salt ctx1 = Some salt" by (auto simp: codec_wf_def block_of_def)
    have same: "cipher_ctx_wf ctx1 x = cipher_ctx_wf ctx x" for x using f by (intro cipher_ctx_wf_cong) auto
    have run: "sqlcipher_cipher_ctx_key_derive bt ctx c w = sqlcipher_cipher_ctx_key_derive bt ctx1 c w1"
    proof (cases "flag_get (ctx_flags ctx) CIPHER_FLAG_HAS_KDF_SALT")
      case True
      then show ?thesis using 1(1) by (simp add: sqlcipher_codec_ctx_init_kdf_salt_def)
    next
      case False
      then show ?thesis using 1(1,4) pass ps by (simp add: sqlcipher_cipher_ctx_key_derive_def)
    qed
    have spec: "derive_spec (prov p) ctx1 = derive_spec (prov p) ctx"
      "keyed_by (prov p) ctx1 = keyed_by (prov p) ctx" "hmac_salt_mask w1 = hmac_salt_mask w"
      unfolding derive_spec_def [abs_def] keyed_by_def [abs_def] hmac_key_spec_def [abs_def] f(1,8,9,10) fl(1)
      by (rule refl, rule refl, rule mem_step_fields(8) [OF 1(2)])
    from pok wf1 c [folded same] pass 1(4) salt show thesis
    proof (cases rule: key_derive_salted [where bt = bt and w = w1])
      case 2: (ok key salt' ctx' c' w')
      have "flag_get (ctx_flags ctx') CIPHER_FLAG_HAS_KDF_SALT" using salted_flags(4) [OF 2(4)] 1(4) .
      with 2 show thesis
        using 1 salt run spec same mem_step_trans [OF 1(2)] salted_trans [OF 1(3)] pass
        by (intro ok [of pass salt key salt' ctx' c' w']) auto
    next
      case 2: (err rc ctx' c' w')
      then show thesis using 1 run same mem_step_trans [OF 1(2)] salted_trans [OF 1(3)]
        by (intro err [of rc ctx' c' w']) auto
    qed
  qed
qed

end

subsection \<open>Both sub-contexts\<close>

text \<open>What of a context the derivation leaves alone: everything but keys, salts, flags and the buffer.\<close>

definition settings_of :: "'e codec_ctx \<Rightarrow> 'e codec_ctx" where
  "settings_of ctx = ctx\<lparr>ctx_kdf_salt := None, ctx_hmac_kdf_salt := None, ctx_flags := 0, ctx_buffer := None,
     ctx_read_ctx := None, ctx_write_ctx := None\<rparr>"

definition page_flags :: "'e codec_ctx \<Rightarrow> bool \<times> bool \<times> bool" where
  "page_flags ctx = (flag_get (ctx_flags ctx) CIPHER_FLAG_HMAC, flag_get (ctx_flags ctx) CIPHER_FLAG_LE_PGNO,
     flag_get (ctx_flags ctx) CIPHER_FLAG_BE_PGNO)"

lemma settings_fields:
  assumes "settings_of ctx' = settings_of ctx"
  shows "ctx_key_sz ctx' = ctx_key_sz ctx" "ctx_keyspec_sz ctx' = ctx_keyspec_sz ctx"
    "ctx_page_sz ctx' = ctx_page_sz ctx" "ctx_provider ctx' = ctx_provider ctx"
    "ctx_kdf_algorithm ctx' = ctx_kdf_algorithm ctx" "ctx_kdf_iter ctx' = ctx_kdf_iter ctx"
    "ctx_fast_kdf_iter ctx' = ctx_fast_kdf_iter ctx"
    "ctx_plaintext_header_sz ctx' = ctx_plaintext_header_sz ctx" "ctx_reserve_sz ctx' = ctx_reserve_sz ctx"
    "ctx_block_sz ctx' = ctx_block_sz ctx" "ctx_store_pass ctx' = ctx_store_pass ctx"
    "ctx_iv_sz ctx' = ctx_iv_sz ctx" "ctx_hmac_sz ctx' = ctx_hmac_sz ctx"
    "ctx_hmac_algorithm ctx' = ctx_hmac_algorithm ctx" "ctx_kdf_salt_sz ctx' = ctx_kdf_salt_sz ctx"
  using assms by (cases ctx; cases ctx'; simp add: settings_of_def)+

lemma settings_upd [simp]:
  "settings_of (ctx\<lparr>ctx_read_ctx := r\<rparr>) = settings_of ctx" "settings_of (ctx\<lparr>ctx_write_ctx := r\<rparr>) = settings_of ctx"
  "settings_of (ctx\<lparr>ctx_buffer := b\<rparr>) = settings_of ctx" "settings_of (ctx\<lparr>ctx_flags := f\<rparr>) = settings_of ctx"
  by (simp_all add: settings_of_def)

lemma page_flags_upd [simp]:
  "page_flags (ctx\<lparr>ctx_read_ctx := r\<rparr>) = page_flags ctx" "page_flags (ctx\<lparr>ctx_write_ctx := r\<rparr>) = page_flags ctx"
  "page_flags (ctx\<lparr>ctx_buffer := b\<rparr>) = page_flags ctx"
  "page_flags (ctx\<lparr>ctx_flags := flag_set (ctx_flags ctx) CIPHER_FLAG_KEY_USED\<rparr>) = page_flags ctx"
  by (simp_all add: page_flags_def)

lemma salted_settings: "salted ctx ctx' \<Longrightarrow> settings_of ctx' = settings_of ctx"
  by (cases ctx; cases ctx') (simp add: settings_of_def salted_def)

lemma salted_page_flags: "salted ctx ctx' \<Longrightarrow> page_flags ctx' = page_flags ctx"
  by (simp add: page_flags_def salted_flags)

lemma codec_wf_settings:
  assumes "settings_of ctx' = settings_of ctx" "page_flags ctx' = page_flags ctx" "codec_wf p ctx"
    and "block_of 16 (ctx_kdf_salt ctx')" "block_of 16 (ctx_hmac_kdf_salt ctx')"
      "block_of (ctx_page_sz ctx) (ctx_buffer ctx')"
      "cipher_ctx_wf ctx (ctx_read_ctx ctx')" "cipher_ctx_wf ctx (ctx_write_ctx ctx')"
  shows "codec_wf p ctx'"
proof -
  note f = settings_fields [OF assms(1)]
  have "cipher_ctx_wf ctx' c = cipher_ctx_wf ctx c" for c using f by (intro cipher_ctx_wf_cong) auto
  then show ?thesis using assms f by (simp add: codec_wf_def sizes_wf_def page_flags_def)
qed

text \<open>Keys derived on both sides, and no passphrase left unless it is to be stored.\<close>

definition keys_ready :: "'e codec_ctx \<Rightarrow> bool" where
  "keys_ready ctx \<longleftrightarrow> (\<exists>rd wr. ctx_read_ctx ctx = Some rd \<and> ctx_write_ctx ctx = Some wr
     \<and> c_derive_key rd = 0 \<and> c_derive_key wr = 0
     \<and> (ctx_store_pass ctx \<noteq> 1 \<longrightarrow> c_pass rd = None \<and> c_pass_sz rd = 0 \<and> c_pass wr = None \<and> c_pass_sz wr = 0))"

text \<open>A context whose read key is derived has its salt.\<close>

definition salt_kept :: "'e codec_ctx \<Rightarrow> bool" where
  "salt_kept ctx \<longleftrightarrow> (\<forall>rd. ctx_read_ctx ctx = Some rd \<longrightarrow> c_derive_key rd = 0 \<longrightarrow>
     flag_get (ctx_flags ctx) CIPHER_FLAG_HAS_KDF_SALT)"

lemma key_derive_ready: "keys_ready ctx \<Longrightarrow> sqlcipher_codec_key_derive bt ctx w = Some (0, ctx, w)"
  by (cases "ctx_store_pass ctx = 1")
     (auto simp: keys_ready_def sqlcipher_codec_key_derive_def codec_derive_read_def codec_derive_write_def
       codec_wipe_pass_def sqlcipher_cipher_ctx_set_pass_def free_if_def Let_def)

lemma wipe_pass_step:
  assumes wf: "codec_wf p ctx" and d: "ctx_read_ctx ctx = Some rd" "ctx_write_ctx ctx = Some wr"
    "c_derive_key rd = 0" "c_derive_key wr = 0"
  obtains ctx' w' where "codec_wipe_pass ctx w = Some (0, ctx', w')" "mem_step w w'" "codec_wf p ctx'" "keys_ready ctx'"
    "settings_of ctx' = settings_of ctx" "page_flags ctx' = page_flags ctx" "ctx_buffer ctx' = ctx_buffer ctx"
    "ctx_kdf_salt ctx' = ctx_kdf_salt ctx" "ctx_flags ctx' = ctx_flags ctx"
    "map_option c_key (ctx_read_ctx ctx') = Some (c_key rd)" "map_option c_hmac_key (ctx_read_ctx ctx') = Some (c_hmac_key rd)"
    "map_option c_keyspec (ctx_read_ctx ctx') = Some (c_keyspec rd)"
    "map_option c_key (ctx_write_ctx ctx') = Some (c_key wr)" "map_option c_hmac_key (ctx_write_ctx ctx') = Some (c_hmac_key wr)"
    "map_option c_keyspec (ctx_write_ctx ctx') = Some (c_keyspec wr)"
proof (cases "ctx_store_pass ctx = 1")
  case True
  then show thesis using wf d that [of ctx w] by (simp add: codec_wipe_pass_def keys_ready_def)
next
  case False
  have c: "cipher_ctx_wf ctx (Some rd)" "cipher_ctx_wf ctx (Some wr)" using wf d by (simp_all add: codec_wf_def)
  let ?z = "\<lambda>c. c\<lparr>c_pass := None, c_pass_sz := 0\<rparr>"
  obtain w1 where 1: "sqlcipher_cipher_ctx_set_pass rd None 0 w = Some (0, ?z rd, w1)" "mem_step w w1"
    "cipher_ctx_wf ctx (Some (?z rd))" using set_pass_wipe [OF c(1), of w] by auto
  obtain w2 where 2: "sqlcipher_cipher_ctx_set_pass wr None 0 w1 = Some (0, ?z wr, w2)" "mem_step w1 w2"
    "cipher_ctx_wf ctx (Some (?z wr))" using set_pass_wipe [OF c(2), of w1] by auto
  let ?ctx = "ctx\<lparr>ctx_read_ctx := Some (?z rd), ctx_write_ctx := Some (?z wr)\<rparr>"
  have "codec_wf p ?ctx" using wf 1(3) 2(3) by (intro codec_wf_settings [OF _ _ wf]) (simp_all add: codec_wf_def)
  then show thesis
    using False d 1 2 that [of ?ctx w2] mem_step_trans [OF 1(2) 2(2)]
    by (simp add: codec_wipe_pass_def keys_ready_def)
qed

lemma ctx_cmp_wf:
  assumes "cipher_ctx_wf ctx (Some a)" "cipher_ctx_wf ctx (Some b)"
  shows "sqlcipher_cipher_ctx_cmp a b = Some (of_bool (c_pass a \<noteq> c_pass b))"
proof (cases "c_pass_sz a = c_pass_sz b")
  case True
  then show ?thesis using assms
    by (auto simp: cipher_ctx_wf_def sqlcipher_cipher_ctx_cmp_def block_of_def sqlcipher_memcmp_closed
        split: option.splits)
next
  case False
  then have "c_pass a \<noteq> c_pass b" using assms by (auto simp: cipher_ctx_wf_def block_of_def)
  with False show ?thesis by (simp add: sqlcipher_cipher_ctx_cmp_def)
qed

text \<open>Two contexts that agree up to keys and salts.\<close>

definition same_codec :: "'e codec_ctx \<Rightarrow> 'e codec_ctx \<Rightarrow> bool" where
  "same_codec ctx ctx' \<longleftrightarrow> settings_of ctx' = settings_of ctx \<and> page_flags ctx' = page_flags ctx
     \<and> ctx_buffer ctx' = ctx_buffer ctx"

lemma same_codec_trans: "same_codec x y \<Longrightarrow> same_codec y z \<Longrightarrow> same_codec x z"
  by (simp add: same_codec_def)

lemma same_codec_refl [simp]: "same_codec x x"
  by (simp add: same_codec_def)

lemma same_codec_upd:
  "same_codec x y \<Longrightarrow> same_codec x (y\<lparr>ctx_read_ctx := r\<rparr>)" "same_codec x y \<Longrightarrow> same_codec x (y\<lparr>ctx_write_ctx := r\<rparr>)"
  by (simp_all add: same_codec_def)

lemma salted_same: "salted ctx ctx' \<Longrightarrow> same_codec ctx ctx'"
  by (simp add: same_codec_def salted_settings salted_page_flags salted_fields)

lemma codec_wf_read:
  "codec_wf p ctx \<Longrightarrow> cipher_ctx_wf ctx (Some c) \<Longrightarrow> codec_wf p (ctx\<lparr>ctx_read_ctx := Some c\<rparr>)"
  by (rule codec_wf_settings [of _ ctx]) (simp_all add: codec_wf_def)

lemma codec_wf_write:
  "codec_wf p ctx \<Longrightarrow> cipher_ctx_wf ctx (Some c) \<Longrightarrow> codec_wf p (ctx\<lparr>ctx_write_ctx := Some c\<rparr>)"
  by (rule codec_wf_settings [of _ ctx]) (simp_all add: codec_wf_def)

context crypto_provider
begin

lemma derive_read_step:
  assumes pok: "ok p" and wf: "codec_wf (prov p) ctx" and rd: "ctx_read_ctx ctx = Some rd"
  obtains (ok) ctx' rd' w' where "codec_derive_read bt ctx w = Some (0, ctx', w')" "mem_step w w'"
      "codec_wf (prov p) ctx'" "same_codec ctx ctx'" "ctx_read_ctx ctx' = Some rd'" "c_derive_key rd' = 0"
      "c_pass rd' = c_pass rd" "ctx_write_ctx ctx' = ctx_write_ctx ctx"
      "c_derive_key rd = 0 \<Longrightarrow> ctx' = ctx"
      "c_derive_key rd \<noteq> 0 \<Longrightarrow> flag_get (ctx_flags ctx') CIPHER_FLAG_HAS_KDF_SALT"
      "c_derive_key rd \<noteq> 0 \<Longrightarrow> \<exists>pass key salt salt'. c_pass rd = Some pass
         \<and> derive_spec (prov p) ctx salt pass = Some (key, salt')
         \<and> (flag_get (ctx_flags ctx) CIPHER_FLAG_HAS_KDF_SALT \<longrightarrow> ctx_kdf_salt ctx = Some salt)
         \<and> ctx_kdf_salt ctx' = Some salt' \<and> keyed_by (prov p) ctx (hmac_salt_mask w) rd' key salt'"
  | (err) ctx' w' where "codec_derive_read bt ctx w = Some (1, ctx', w')" "mem_step w w'"
      "codec_wf (prov p) ctx'" "same_codec ctx ctx'"
proof (cases "c_derive_key rd = 0")
  case True
  then show thesis using ok [of ctx w rd] wf rd by (simp add: codec_derive_read_def)
next
  case False
  have c: "cipher_ctx_wf ctx (Some rd)" using wf rd by (simp add: codec_wf_def)
  from pok wf c show thesis
  proof (cases rule: key_derive_step [where bt = bt and w = w])
    case 1: (ok pass key salt salt' ctx1 c' w')
    note s = salted_same [OF 1(6)] and wf1 = salted_wf [OF 1(6) wf] and f = salted_fields [OF 1(6)]
    have "cipher_ctx_wf ctx1 (Some c')" using 1(10) f cipher_ctx_wf_cong [of ctx1 ctx] by simp
    note wf2 = codec_wf_read [OF wf1 this]
    have run: "codec_derive_read bt ctx w = Some (0, ctx1\<lparr>ctx_read_ctx := Some c'\<rparr>, w')"
      using 1(4) False rd by (simp add: codec_derive_read_def)
    have "\<exists>pass key salt salt'. c_pass rd = Some pass \<and> derive_spec (prov p) ctx salt pass = Some (key, salt')
         \<and> (flag_get (ctx_flags ctx) CIPHER_FLAG_HAS_KDF_SALT \<longrightarrow> ctx_kdf_salt ctx = Some salt)
         \<and> ctx_kdf_salt (ctx1\<lparr>ctx_read_ctx := Some c'\<rparr>) = Some salt' \<and> keyed_by (prov p) ctx (hmac_salt_mask w) c' key salt'"
      using 1(1,2,3,8,9) by (intro exI [of _ pass] exI [of _ key] exI [of _ salt] exI [of _ salt']) simp
    then show thesis
      by (rule ok [OF run 1(5) wf2 same_codec_upd(1) [OF s], rotated -1]) (use 1(7,11,13) False f in simp_all)
  next
    case 1: (err rc ctx1 c' w')
    note s = salted_same [OF 1(4)] and wf1 = salted_wf [OF 1(4) wf] and f = salted_fields [OF 1(4)]
    have "cipher_ctx_wf ctx1 (Some c')" using 1(5) f cipher_ctx_wf_cong [of ctx1 ctx] by simp
    from codec_wf_read [OF wf1 this] show thesis
      using 1 False rd same_codec_upd(1) [OF s]
      by (intro err [of "ctx1\<lparr>ctx_read_ctx := Some c'\<rparr>" w']) (auto simp: codec_derive_read_def)
  qed
qed

lemma derive_write_step:
  assumes pok: "ok p" and wf: "codec_wf (prov p) ctx" and rd: "ctx_read_ctx ctx = Some rd" "ctx_write_ctx ctx = Some wr"
    and d: "c_derive_key rd = 0"
  obtains (ok) ctx' wr' w' where "codec_derive_write bt ctx w = Some (0, ctx', w')" "mem_step w w'"
      "codec_wf (prov p) ctx'" "same_codec ctx ctx'" "ctx_read_ctx ctx' = Some rd" "ctx_write_ctx ctx' = Some wr'"
      "c_derive_key wr' = 0" "c_derive_key wr = 0 \<Longrightarrow> ctx' = ctx"
      "flag_get (ctx_flags ctx) CIPHER_FLAG_HAS_KDF_SALT \<Longrightarrow> flag_get (ctx_flags ctx') CIPHER_FLAG_HAS_KDF_SALT"
      "c_derive_key wr \<noteq> 0 \<Longrightarrow> c_pass wr = c_pass rd \<Longrightarrow> ctx' = ctx\<lparr>ctx_write_ctx := Some rd\<rparr>"
  | (err) ctx' w' where "codec_derive_write bt ctx w = Some (1, ctx', w')" "mem_step w w'" "same_codec ctx ctx'"
proof (cases "c_derive_key wr = 0")
  case True
  then have "codec_derive_write bt ctx w = Some (0, ctx, w)" using rd by (simp add: codec_derive_write_def)
  then show thesis by (rule ok [OF _ mem_step_refl wf same_codec_refl rd True]) (use True in simp_all)
next
  case nz: False
  have c: "cipher_ctx_wf ctx (Some rd)" "cipher_ctx_wf ctx (Some wr)" using wf rd by (simp_all add: codec_wf_def)
  note cmp = ctx_cmp_wf [OF c(2,1)]
  show thesis
  proof (cases "c_pass wr = c_pass rd")
    case True
    obtain rc c' w' where 1: "sqlcipher_cipher_ctx_copy ctx wr rd w = Some (rc, c', w')" "mem_step w w'"
      "rc = 0 \<or> rc = 7" "rc = 0 \<Longrightarrow> c' = rd" by (rule copy_step [OF c(2,1), of w]) blast
    have run: "codec_derive_write bt ctx w = Some (if rc \<noteq> 0 then 1 else 0, ctx\<lparr>ctx_write_ctx := Some c'\<rparr>, w')"
      using nz rd cmp True 1 by (simp add: codec_derive_write_def)
    show thesis
    proof (cases "rc = 0")
      case True
      with run 1(4) have "codec_derive_write bt ctx w = Some (0, ctx\<lparr>ctx_write_ctx := Some rd\<rparr>, w')" by simp
      then show thesis
        by (rule ok [OF _ 1(2) codec_wf_write [OF wf c(1)] same_codec_upd(2) [OF same_codec_refl]]) (use rd(1) d nz in simp_all)
    next
      case False
      with run have "codec_derive_write bt ctx w = Some (1, ctx\<lparr>ctx_write_ctx := Some c'\<rparr>, w')" by simp
      then show thesis by (rule err [OF _ 1(2) same_codec_upd(2) [OF same_codec_refl]])
    qed
  next
    case ne: False
    from pok wf c(2) show thesis
    proof (cases rule: key_derive_step [where bt = bt and w = w])
      case 1: (ok pass key salt salt' ctx1 c' w')
      note s = salted_same [OF 1(6)] and wf1 = salted_wf [OF 1(6) wf] and f = salted_fields [OF 1(6)]
      have "cipher_ctx_wf ctx1 (Some c')" using 1(10) f cipher_ctx_wf_cong [of ctx1 ctx] by simp
      note wf2 = codec_wf_write [OF wf1 this]
      have "codec_derive_write bt ctx w = Some (0, ctx1\<lparr>ctx_write_ctx := Some c'\<rparr>, w')"
        using 1(4) nz ne rd cmp by (simp add: codec_derive_write_def)
      then show thesis
        by (rule ok [OF _ 1(5) wf2 same_codec_upd(2) [OF s]]) (use 1(7,13) rd f nz ne in simp_all)
    next
      case 1: (err rc ctx1 c' w')
      then show thesis using nz ne rd cmp same_codec_upd(2) [OF salted_same [OF 1(4)]]
        by (intro err [of "ctx1\<lparr>ctx_write_ctx := Some c'\<rparr>" w']) (auto simp: codec_derive_write_def)
    qed
  qed
qed

lemma codec_key_derive_step:
  assumes pok: "ok p" and wf: "codec_wf (prov p) ctx"
  obtains (ok) ctx' w' where "sqlcipher_codec_key_derive bt ctx w = Some (0, ctx', w')" "mem_step w w'"
      "codec_wf (prov p) ctx'" "same_codec ctx ctx'" "keys_ready ctx'"
      "salt_kept ctx \<Longrightarrow> flag_get (ctx_flags ctx') CIPHER_FLAG_HAS_KDF_SALT"
  | (err) ctx' w' where "sqlcipher_codec_key_derive bt ctx w = Some (1, ctx', w')" "mem_step w w'" "same_codec ctx ctx'"
proof -
  obtain rd wr where rw: "ctx_read_ctx ctx = Some rd" "ctx_write_ctx ctx = Some wr"
    using wf by (auto simp: codec_wf_def cipher_ctx_wf_def split: option.splits)
  from pok wf rw(1) show thesis
  proof (cases rule: derive_read_step [where bt = bt and w = w])
    case 1: (err ctx' w')
    then show thesis by (intro err [OF _ 1(2,4)]) (simp add: sqlcipher_codec_key_derive_def)
  next
    case 1: (ok ctx1 rd1 w1)
    have wr1: "ctx_write_ctx ctx1 = Some wr" using 1(8) rw(2) by simp
    from pok 1(3,5) wr1 1(6) show thesis
    proof (cases rule: derive_write_step [where bt = bt and w = w1])
      case 2: (err ctx' w')
      then show thesis using 1(1)
        by (intro err [OF _ mem_step_trans [OF 1(2) 2(2)] same_codec_trans [OF 1(4) 2(3)]])
           (simp add: sqlcipher_codec_key_derive_def)
    next
      case 2: (ok ctx2 wr2 w2)
      obtain ctx3 w3 where 3: "codec_wipe_pass ctx2 w2 = Some (0, ctx3, w3)" "mem_step w2 w3"
        "codec_wf (prov p) ctx3" "keys_ready ctx3" "same_codec ctx2 ctx3" "ctx_flags ctx3 = ctx_flags ctx2"
        by (rule wipe_pass_step [OF 2(3,5,6) 1(6) 2(7), of w2]) (auto simp: same_codec_def)
      have "sqlcipher_codec_key_derive bt ctx w = Some (0, ctx3, w3)"
        using 1(1) 2(1) 3(1) by (simp add: sqlcipher_codec_key_derive_def)
      moreover have "flag_get (ctx_flags ctx3) CIPHER_FLAG_HAS_KDF_SALT" if "salt_kept ctx"
        using that 1(9,10) 2(9) 3(6) rw(1) by (cases "c_derive_key rd = 0") (auto simp: salt_kept_def)
      ultimately show thesis
        by (rule ok [OF _ mem_step_trans [OF 1(2) mem_step_trans [OF 2(2) 3(2)]] 3(3)
              same_codec_trans [OF 1(4) same_codec_trans [OF 2(4) 3(5)]] 3(4)])
    qed
  qed
qed

text \<open>A context on which both sides still hold the same passphrase ends with the same keys on both.\<close>

lemma codec_key_derive_fresh:
  assumes pok: "ok p" and wf: "codec_wf (prov p) ctx"
    and rw: "ctx_read_ctx ctx = Some rd" "ctx_write_ctx ctx = Some wr"
    and d: "c_derive_key rd \<noteq> 0" "c_derive_key wr \<noteq> 0" "c_pass wr = c_pass rd" "c_pass rd = Some pass"
    and run: "sqlcipher_codec_key_derive bt ctx w = Some (0, ctx', w')"
  obtains key salt salt' rd' wr' where "derive_spec (prov p) ctx salt pass = Some (key, salt')"
    "flag_get (ctx_flags ctx) CIPHER_FLAG_HAS_KDF_SALT \<Longrightarrow> ctx_kdf_salt ctx = Some salt"
    "ctx_kdf_salt ctx' = Some salt'" "ctx_read_ctx ctx' = Some rd'" "ctx_write_ctx ctx' = Some wr'"
    "keyed_by (prov p) ctx (hmac_salt_mask w) rd' key salt'" "keyed_by (prov p) ctx (hmac_salt_mask w) wr' key salt'"
proof -
  from pok wf rw(1) show thesis
  proof (cases rule: derive_read_step [where bt = bt and w = w])
    case 1: (err ctx1 w1)
    then show thesis using run by (simp add: sqlcipher_codec_key_derive_def)
  next
    case 1: (ok ctx1 rd1 w1)
    have wr1: "ctx_write_ctx ctx1 = Some wr" using 1(8) rw(2) by simp
    obtain key salt salt' where k: "derive_spec (prov p) ctx salt pass = Some (key, salt')"
      "flag_get (ctx_flags ctx) CIPHER_FLAG_HAS_KDF_SALT \<Longrightarrow> ctx_kdf_salt ctx = Some salt"
      "ctx_kdf_salt ctx1 = Some salt'" "keyed_by (prov p) ctx (hmac_salt_mask w) rd1 key salt'"
      using 1(11) [OF d(1)] d(4) by auto
    from pok 1(3,5) wr1 1(6) show thesis
    proof (cases rule: derive_write_step [where bt = bt and w = w1])
      case 2: (err ctx2 w2)
      then show thesis using run 1(1) by (simp add: sqlcipher_codec_key_derive_def)
    next
      case 2: (ok ctx2 wr2 w2)
      have c2: "ctx2 = ctx1\<lparr>ctx_write_ctx := Some rd1\<rparr>" using 2(10) d 1(7) by simp
      then have wr2: "wr2 = rd1" using 2(6) by simp
      show thesis
      proof (rule wipe_pass_step [OF 2(3,5,6) 1(6) 2(7), of w2])
        fix ctx3 w3
        assume 3: "codec_wipe_pass ctx2 w2 = Some (0, ctx3, w3)"
          "ctx_kdf_salt ctx3 = ctx_kdf_salt ctx2"
          "map_option c_key (ctx_read_ctx ctx3) = Some (c_key rd1)" "map_option c_hmac_key (ctx_read_ctx ctx3) = Some (c_hmac_key rd1)"
          "map_option c_keyspec (ctx_read_ctx ctx3) = Some (c_keyspec rd1)"
          "map_option c_key (ctx_write_ctx ctx3) = Some (c_key wr2)" "map_option c_hmac_key (ctx_write_ctx ctx3) = Some (c_hmac_key wr2)"
          "map_option c_keyspec (ctx_write_ctx ctx3) = Some (c_keyspec wr2)"
        have c3: "ctx3 = ctx'" using run 1(1) 2(1) 3(1) by (simp add: sqlcipher_codec_key_derive_def)
        obtain rd3 wr3 where rw3: "ctx_read_ctx ctx3 = Some rd3" "ctx_write_ctx ctx3 = Some wr3" using 3 by auto
        have "keyed_by (prov p) ctx (hmac_salt_mask w) rd3 key salt'" "keyed_by (prov p) ctx (hmac_salt_mask w) wr3 key salt'"
          using 3 rw3 k(4) wr2 by (simp_all add: keyed_by_def)
        then show thesis using that [OF k(1,2), of rd3 wr3] rw3 k(3) 3(2) c2 c3 by simp
      qed
    qed
  qed
qed

end

end
