(* ===== verification/Page_Cipher.thy ===== *)
theory Page_Cipher
  imports Key_Derive
begin

text \<open>
  The encryption of a database page (\<open>sqlcipher_page_hmac\<close>, \<open>sqlcipher_page_cipher\<close>) and the pager's codec
  callback \<open>sqlite3Codec\<close>.

  A page of \<open>page_sz\<close> bytes on disk is the ciphertext of its usable part, then the
  reserve: the initialization vector, the HMAC of ciphertext, vector and page number, random padding.
  On page 1 the first 16 bytes of the file are the salt instead, or a plaintext header.
\<close>

section \<open>Page cipher\<close>

text \<open>The page number as it enters the HMAC; the native order of the supported platforms is
  little endian.\<close>

definition pgno_raw :: "'e codec_ctx \<Rightarrow> u32 \<Rightarrow> bytes" where
  "pgno_raw ctx pgno =
     (if flag_get (ctx_flags ctx) CIPHER_FLAG_LE_PGNO then sqlcipher_put4byte_le pgno
      else if flag_get (ctx_flags ctx) CIPHER_FLAG_BE_PGNO then sqlite3Put4byte pgno
      else sqlcipher_put4byte_le pgno)"

text \<open>\<open>Some None\<close> is the return code \<open>SQLITE_ERROR\<close>.\<close>

definition sqlcipher_page_hmac ::
    "'e codec_ctx \<Rightarrow> cipher_ctx \<Rightarrow> u32 \<Rightarrow> bytes \<Rightarrow> int \<Rightarrow> bytes option option" where
  "sqlcipher_page_hmac ctx c pgno inb in_sz =
     do { p \<leftarrow> ctx_provider ctx;
          hk \<leftarrow> c_hmac_key c;
          k \<leftarrow> peek hk 0 (ctx_key_sz ctx);
          d \<leftarrow> peek inb 0 in_sz;
          Some (p_hmac p (ctx_hmac_algorithm ctx) k (Some d) (Some (pgno_raw ctx pgno))) }"

text \<open>The label \<open>error\<close>: wipe the output page.\<close>

definition cipher_error :: "bytes \<Rightarrow> int \<Rightarrow> 'e world \<Rightarrow> (int \<times> bytes \<times> 'e world) option" where
  "cipher_error out page_sz w = do { out \<leftarrow> fill out 0 0 page_sz; Some (SQLITE_ERROR, out, w) }"

text \<open>The vector: drawn with the rest of the reserve on encryption, taken from the page on decryption.\<close>

definition page_cipher_iv ::
    "'e codec_ctx \<Rightarrow> int \<Rightarrow> int \<Rightarrow> bytes \<Rightarrow> bytes \<Rightarrow> 'e world \<Rightarrow> (bool \<times> bytes \<times> 'e world) option" where
  "page_cipher_iv ctx mode sz inb out w =
     (if mode = CIPHER_ENCRYPT then
        do { p \<leftarrow> ctx_provider ctx;
             (case p_random p (w_entropy w) (ctx_reserve_sz ctx) of
                (None, e) \<Rightarrow> Some (False, out, w\<lparr>w_entropy := e\<rparr>)
              | (Some r, e) \<Rightarrow> do { out \<leftarrow> poke out sz r; Some (True, out, w\<lparr>w_entropy := e\<rparr>) }) }
      else do { iv \<leftarrow> peek inb sz (ctx_iv_sz ctx); out \<leftarrow> poke out sz iv; Some (True, out, w) })"

text \<open>The HMAC check of a decryption.\<close>

datatype hmac_check = Verified bytes | Zero_page | Hmac_failed bytes

definition page_cipher_verify ::
    "btree \<Rightarrow> 'e codec_ctx \<Rightarrow> cipher_ctx \<Rightarrow> u32 \<Rightarrow> int \<Rightarrow> int \<Rightarrow> bytes \<Rightarrow> bytes \<Rightarrow> hmac_check option" where
  "page_cipher_verify bt ctx c pgno page_sz sz inb out =
     do { h \<leftarrow> sqlcipher_page_hmac ctx c pgno inb (sz + ctx_iv_sz ctx);
          (case h of
             None \<Rightarrow> Some (Hmac_failed out)
           | Some m \<Rightarrow>
               do { out \<leftarrow> poke out (sz + ctx_iv_sz ctx) m;
                    cmp \<leftarrow> sqlcipher_memcmp (drop (nat (sz + ctx_iv_sz ctx)) inb)
                              (drop (nat (sz + ctx_iv_sz ctx)) out) (ctx_hmac_sz ctx);
                    if cmp \<noteq> 0 then
                      (if sqlite3BtreeGetAutoVacuum bt \<noteq> 0 then
                         do { z \<leftarrow> sqlcipher_ismemset inb 0 page_sz;
                              Some (if z = 0 then Zero_page else Hmac_failed out) }
                       else Some (Hmac_failed out))
                    else Some (Verified out) }) }"

text \<open>The cipher call and, on encryption, the HMAC of the result.\<close>

definition page_cipher_finish ::
    "'e codec_ctx \<Rightarrow> cipher_ctx \<Rightarrow> u32 \<Rightarrow> int \<Rightarrow> int \<Rightarrow> int \<Rightarrow> bytes \<Rightarrow> bytes \<Rightarrow> 'e world \<Rightarrow>
     (int \<times> bytes \<times> 'e world) option" where
  "page_cipher_finish ctx c pgno mode page_sz sz inb out w =
     do { p \<leftarrow> ctx_provider ctx;
          key \<leftarrow> c_key c;
          k \<leftarrow> peek key 0 (ctx_key_sz ctx);
          iv \<leftarrow> peek out sz (ctx_iv_sz ctx);
          d \<leftarrow> peek inb 0 sz;
          (case p_cipher p mode k iv d of
             None \<Rightarrow> cipher_error out page_sz w
           | Some r \<Rightarrow>
               do { out \<leftarrow> poke out 0 r;
                    if flag_get (ctx_flags ctx) CIPHER_FLAG_HMAC \<and> mode = CIPHER_ENCRYPT then
                      do { h \<leftarrow> sqlcipher_page_hmac ctx c pgno out (sz + ctx_iv_sz ctx);
                           (case h of
                              None \<Rightarrow> cipher_error out page_sz w
                            | Some m \<Rightarrow> do { out \<leftarrow> poke out (sz + ctx_iv_sz ctx) m; Some (SQLITE_OK, out, w) }) }
                    else Some (SQLITE_OK, out, w) }) }"

definition sqlcipher_page_cipher ::
    "btree \<Rightarrow> 'e codec_ctx \<Rightarrow> int \<Rightarrow> u32 \<Rightarrow> int \<Rightarrow> int \<Rightarrow> bytes \<Rightarrow> bytes \<Rightarrow> 'e world \<Rightarrow>
     (int \<times> bytes \<times> 'e world) option" where
  "sqlcipher_page_cipher bt ctx for_ctx pgno mode page_sz inb out w =
     do { c \<leftarrow> sel_ctx ctx for_ctx;
          let sz = page_sz - ctx_reserve_sz ctx;
          if ctx_key_sz ctx = 0 then cipher_error out page_sz w
          else do {
            (ok, out, w) \<leftarrow> page_cipher_iv ctx mode sz inb out w;
            if \<not> ok then cipher_error out page_sz w
            else if flag_get (ctx_flags ctx) CIPHER_FLAG_HMAC \<and> mode = CIPHER_DECRYPT then
              do { v \<leftarrow> page_cipher_verify bt ctx c pgno page_sz sz inb out;
                   (case v of
                      Verified out \<Rightarrow> page_cipher_finish ctx c pgno mode page_sz sz inb out w
                    | Zero_page \<Rightarrow> do { out \<leftarrow> fill out 0 0 page_sz; Some (SQLITE_OK, out, w) }
                    | Hmac_failed out \<Rightarrow> cipher_error out page_sz w) }
            else page_cipher_finish ctx c pgno mode page_sz sz inb out w } }"

section \<open>The codec callback\<close>

abbreviation (input) CODEC_READ_OP :: int where "CODEC_READ_OP \<equiv> 3"
abbreviation (input) CODEC_WRITE_OP :: int where "CODEC_WRITE_OP \<equiv> 6"
abbreviation (input) CODEC_JOURNAL_OP :: int where "CODEC_JOURNAL_OP \<equiv> 7"

definition SQLITE_FILE_HEADER :: bytes where
  "SQLITE_FILE_HEADER = cstr ''SQLite format 3'' @ [0]"

text \<open>The pointer \<open>sqlite3Codec\<close> returns: null, its data argument, or the context's buffer.\<close>

datatype codec_ret = Ret_null | Ret_data | Ret_buffer

type_synonym 'e codec_result = "(codec_ret \<times> bytes \<times> 'e codec_ctx \<times> btree \<times> 'e world) option"

definition codec_read ::
    "btree \<Rightarrow> 'e codec_ctx \<Rightarrow> bytes \<Rightarrow> u32 \<Rightarrow> int \<Rightarrow> 'e world \<Rightarrow> 'e codec_result" where
  "codec_read bt ctx pData pgno offset w =
     do { buf \<leftarrow> ctx_buffer ctx;
          buf \<leftarrow> (if pgno = 1 then
                    do { d \<leftarrow> peek (if ctx_plaintext_header_sz ctx \<noteq> 0 then pData else SQLITE_FILE_HEADER) 0 offset;
                         poke buf 0 d }
                  else Some buf);
          (rc, t, w) \<leftarrow> sqlcipher_page_cipher bt ctx CIPHER_READ_CTX pgno CIPHER_DECRYPT (ctx_page_sz ctx - offset)
                          (drop (nat offset) pData) (drop (nat offset) buf) w;
          let buf = take (nat offset) buf @ t;
          (ctx, bt, buf) \<leftarrow>
            (if rc \<noteq> SQLITE_OK then
               do { buf \<leftarrow> fill buf offset 0 (ctx_page_sz ctx - offset);
                    Some (ctx, sqlcipher_codec_ctx_set_error bt rc, buf) }
             else Some (ctx\<lparr>ctx_flags := flag_set (ctx_flags ctx) CIPHER_FLAG_KEY_USED\<rparr>, bt, buf));
          d \<leftarrow> peek buf 0 (ctx_page_sz ctx);
          pData \<leftarrow> poke pData 0 d;
          Some (Ret_data, pData, ctx\<lparr>ctx_buffer := Some buf\<rparr>, bt, w) }"

definition codec_write ::
    "btree \<Rightarrow> 'e codec_ctx \<Rightarrow> int \<Rightarrow> bytes \<Rightarrow> u32 \<Rightarrow> int \<Rightarrow> 'e world \<Rightarrow> 'e codec_result" where
  "codec_write bt ctx cctx pData pgno offset w =
     do { (rc, salt, ctx, w) \<leftarrow> (if pgno = 1 then sqlcipher_codec_ctx_get_kdf_salt bt ctx w
                                 else Some (SQLITE_OK, None, ctx, w));
          if rc \<noteq> SQLITE_OK then Some (Ret_null, pData, ctx, sqlcipher_codec_ctx_set_error bt rc, w)
          else do {
            buf \<leftarrow> ctx_buffer ctx;
            buf \<leftarrow> (if pgno = 1 then
                      do { src \<leftarrow> (if ctx_plaintext_header_sz ctx \<noteq> 0 then Some pData else salt);
                           d \<leftarrow> peek src 0 offset;
                           poke buf 0 d }
                    else Some buf);
            (rc, t, w) \<leftarrow> sqlcipher_page_cipher bt ctx cctx pgno CIPHER_ENCRYPT (ctx_page_sz ctx - offset)
                            (drop (nat offset) pData) (drop (nat offset) buf) w;
            let buf = take (nat offset) buf @ t;
            if rc \<noteq> SQLITE_OK then
              do { buf \<leftarrow> fill buf offset 0 (ctx_page_sz ctx - offset);
                   Some (Ret_null, pData, ctx\<lparr>ctx_buffer := Some buf\<rparr>, sqlcipher_codec_ctx_set_error bt rc, w) }
            else Some (Ret_buffer, pData,
                       ctx\<lparr>ctx_flags := flag_set (ctx_flags ctx) CIPHER_FLAG_KEY_USED, ctx_buffer := Some buf\<rparr>, bt, w) } }"

definition sqlite3Codec :: "btree \<Rightarrow> 'e codec_ctx \<Rightarrow> bytes \<Rightarrow> u32 \<Rightarrow> int \<Rightarrow> 'e world \<Rightarrow> 'e codec_result" where
  "sqlite3Codec bt ctx pData pgno mode w =
     do { (rc, ctx, w) \<leftarrow> sqlcipher_codec_key_derive bt ctx w;
          if rc \<noteq> SQLITE_OK then Some (Ret_null, pData, ctx, sqlcipher_codec_ctx_set_error bt rc, w)
          else if ctx_plaintext_header_sz ctx < 0
          then Some (Ret_null, pData, ctx, sqlcipher_codec_ctx_set_error bt SQLITE_ERROR, w)
          else
            (let offset = (if pgno = 1 then if ctx_plaintext_header_sz ctx \<noteq> 0 then ctx_plaintext_header_sz ctx
                                            else FILE_HEADER_SZ
                           else 0)
             in if mode = CODEC_READ_OP then codec_read bt ctx pData pgno offset w
                else if mode = CODEC_WRITE_OP then codec_write bt ctx CIPHER_WRITE_CTX pData pgno offset w
                else if mode = CODEC_JOURNAL_OP then codec_write bt ctx CIPHER_READ_CTX pData pgno offset w
                else Some (Ret_data, pData, ctx, sqlcipher_codec_ctx_set_error bt SQLITE_ERROR, w)) }"

section \<open>Specification of a page\<close>

text \<open>
  \<open>seal\<close>: the page for the usable content \<open>d\<close> and the random reserve \<open>r\<close>.  \<open>unseal\<close>: the content of a page,
  \<open>None\<close> when its HMAC does not match (or the provider fails).
\<close>

definition mac_of :: "'e sqlcipher_provider \<Rightarrow> 'e codec_ctx \<Rightarrow> cipher_ctx \<Rightarrow> u32 \<Rightarrow> bytes \<Rightarrow> bytes option" where
  "mac_of p ctx c pgno d =
     do { hk \<leftarrow> c_hmac_key c; p_hmac p (ctx_hmac_algorithm ctx) hk (Some d) (Some (pgno_raw ctx pgno)) }"

definition seal :: "'e sqlcipher_provider \<Rightarrow> 'e codec_ctx \<Rightarrow> cipher_ctx \<Rightarrow> u32 \<Rightarrow> bytes \<Rightarrow> bytes \<Rightarrow> bytes option" where
  "seal p ctx c pgno r d =
     (let iv = take (nat (ctx_iv_sz ctx)) r in
      do { key \<leftarrow> c_key c;
           ct \<leftarrow> p_cipher p CIPHER_ENCRYPT key iv d;
           if flag_get (ctx_flags ctx) CIPHER_FLAG_HMAC then
             do { m \<leftarrow> mac_of p ctx c pgno (ct @ iv);
                  Some (ct @ iv @ m @ drop (nat (ctx_iv_sz ctx + ctx_hmac_sz ctx)) r) }
           else Some (ct @ r) })"

definition unseal :: "'e sqlcipher_provider \<Rightarrow> 'e codec_ctx \<Rightarrow> cipher_ctx \<Rightarrow> u32 \<Rightarrow> bytes \<Rightarrow> bytes option" where
  "unseal p ctx c pgno pg =
     (let sz = length pg - nat (ctx_reserve_sz ctx);
          n = sz + nat (ctx_iv_sz ctx)
      in do {
        key \<leftarrow> c_key c;
        _ \<leftarrow> (if flag_get (ctx_flags ctx) CIPHER_FLAG_HMAC then
                do { m \<leftarrow> mac_of p ctx c pgno (take n pg);
                     if take (nat (ctx_hmac_sz ctx)) (drop n pg) = m then Some () else None }
              else Some ());
        p_cipher p CIPHER_DECRYPT key (take (nat (ctx_iv_sz ctx)) (drop sz pg)) (take sz pg) })"

lemma page_hmac_eq:
  assumes "ctx_provider ctx = Some p" "cipher_ctx_wf ctx (Some c)" "0 \<le> n" "n \<le> int (length inb)"
  shows "sqlcipher_page_hmac ctx c pgno inb n = Some (mac_of p ctx c pgno (take (nat n) inb))"
  using assms by (auto simp: sqlcipher_page_hmac_def mac_of_def cipher_ctx_wf_def block_of_def peek_whole)
    (auto simp: peek_def)

lemma cipher_error_eq: "int (length out) = n \<Longrightarrow> cipher_error out n w = Some (1, replicate (length out) 0, w)"
  by (simp add: cipher_error_def fill_whole)

lemma peek_nat: "n + m \<le> length b \<Longrightarrow> peek b (int n) (int m) = Some (take m (drop n b))"
  by (simp add: peek_def)

lemma poke_nat: "n + length d \<le> length b \<Longrightarrow> poke b (int n) d = Some (take n b @ d @ drop (n + length d) b)"
  by (simp add: poke_def)

text \<open>The geometry of a page, in natural numbers.\<close>

context crypto_provider
begin

lemma page_geometry:
  assumes "ok p" "sizes_wf (prov p) ctx"
  obtains iv rs hm k where "ctx_iv_sz ctx = int iv" "ctx_reserve_sz ctx = int rs" "ctx_hmac_sz ctx = int hm"
    "ctx_key_sz ctx = int k" "0 < iv" "0 < k" "iv \<le> rs"
    "flag_get (ctx_flags ctx) CIPHER_FLAG_HMAC \<Longrightarrow> iv + hm \<le> rs"
proof -
  note s = sizes_reserve [OF sizes_ok [OF assms(1)] assms(2)]
  have "0 \<le> ctx_reserve_sz ctx" using s by linarith
  then show thesis
    using s by (intro that [of "nat (ctx_iv_sz ctx)" "nat (ctx_reserve_sz ctx)" "nat (ctx_hmac_sz ctx)" "nat (ctx_key_sz ctx)"]) auto
qed

lemma mac_length:
  assumes "ok p" "sizes_wf (prov p) ctx" "mac_of (prov p) ctx c pgno d = Some m"
  shows "int (length m) = ctx_hmac_sz ctx"
  using assms hmac_length [OF assms(1)] by (auto simp: mac_of_def sizes_wf_def bind_eq_Some_conv)

lemma page_encrypt_eq:
  assumes pok: "ok p" and sz: "sizes_wf (prov p) ctx" and sel: "sel_ctx ctx f = Some c"
    and c: "cipher_ctx_wf ctx (Some c)"
    and len: "length inb = n" "length out = n" "nat (ctx_reserve_sz ctx) \<le> n"
  shows "sqlcipher_page_cipher bt ctx f pgno 1 (int n) inb out w =
     (case p_random (prov p) (w_entropy w) (ctx_reserve_sz ctx) of
        (None, e) \<Rightarrow> Some (1, replicate n 0, w\<lparr>w_entropy := e\<rparr>)
      | (Some r, e) \<Rightarrow>
         (case seal (prov p) ctx c pgno r (take (n - nat (ctx_reserve_sz ctx)) inb) of
            None \<Rightarrow> Some (1, replicate n 0, w\<lparr>w_entropy := e\<rparr>)
          | Some pg \<Rightarrow> Some (0, pg, w\<lparr>w_entropy := e\<rparr>)))"
proof -
  obtain iv rs hm k where g: "ctx_iv_sz ctx = int iv" "ctx_reserve_sz ctx = int rs" "ctx_hmac_sz ctx = int hm"
    "ctx_key_sz ctx = int k" "0 < iv" "0 < k" "iv \<le> rs"
    "flag_get (ctx_flags ctx) CIPHER_FLAG_HMAC \<Longrightarrow> iv + hm \<le> rs" using page_geometry [OF pok sz] by metis
  obtain m where n: "n = m + rs" using len(3) g(2) by (metis le_Suc_ex add.commute nat_int)
  have prov: "ctx_provider ctx = Some (prov p)" using sz by (simp add: sizes_wf_def)
  obtain key where key: "c_key c = Some key" "length key = k" using c g by (auto simp: cipher_ctx_wf_def block_of_def)
  have szn: "int n - int rs = int m" using n by simp
  obtain r e where r: "p_random (prov p) (w_entropy w) (int rs) = (r, e)" by fastforce
  show ?thesis
  proof (cases r)
    case None
    then show ?thesis
      using sel r prov g len szn by (simp add: sqlcipher_page_cipher_def page_cipher_iv_def cipher_error_eq)
  next
    case (Some rr)
    have rl: "length rr = rs" using random_length [OF pok _ r [unfolded Some]] by simp
    let ?o1 = "take m out @ rr" and ?iv = "take iv rr" and ?d = "take m inb"
    have p1: "poke out (int m) rr = Some ?o1" using poke_nat [of m rr out] len n rl by simp
    have iv1: "peek ?o1 (int m) (int iv) = Some ?iv" using peek_nat [of m iv ?o1] len n rl g by simp
    have d1: "peek inb 0 (int m) = Some ?d" using peek_nat [of 0 m inb] len n by simp
    have k1: "peek key 0 (int k) = Some key" using key by (simp add: peek_whole)
    let ?w = "w\<lparr>w_entropy := e\<rparr>"
    have fin: "page_cipher_finish ctx c pgno 1 (int n) (int m) inb ?o1 ?w =
       (case seal (prov p) ctx c pgno rr ?d of None \<Rightarrow> Some (1, replicate n 0, ?w) | Some pg \<Rightarrow> Some (0, pg, ?w))"
    proof (cases "p_cipher (prov p) 1 key ?iv ?d")
      case None
      then show ?thesis
        using prov key k1 g iv1 d1 len n rl
        by (simp add: page_cipher_finish_def seal_def Let_def cipher_error_eq)
    next
      case ct: (Some ct)
      have cl: "length ct = m" using cipher_length [OF pok ct] len n by simp
      let ?o2 = "ct @ rr"
      have p2: "poke ?o1 0 ct = Some ?o2" using poke_nat [of 0 ct ?o1] cl len n by simp
      have tk: "take (nat (int m + int iv)) ?o2 = ct @ ?iv" using cl by (simp add: nat_add_distrib nat_int)
      have h: "sqlcipher_page_hmac ctx c pgno ?o2 (int m + int iv) = Some (mac_of (prov p) ctx c pgno (ct @ ?iv))"
        using page_hmac_eq [OF prov c, of "int m + int iv" ?o2 pgno] tk cl rl g by simp
      have p3: "poke ?o2 (int m + int iv) mc = Some (ct @ ?iv @ mc @ drop (iv + hm) rr)"
        if "mac_of (prov p) ctx c pgno (ct @ ?iv) = Some mc" "flag_get (ctx_flags ctx) CIPHER_FLAG_HMAC" for mc
      proof -
        have "length mc = hm" using mac_length [OF pok sz that(1)] g by simp
        then show ?thesis using poke_nat [of "m + iv" mc ?o2] cl rl g(8) [OF that(2)] by (simp add: add.assoc)
      qed
      have hv: "nat (int iv + int hm) = iv + hm" by simp
      show ?thesis
        using prov key k1 g iv1 d1 len n rl ct p2 h p3 cl
        by (auto simp: page_cipher_finish_def seal_def Let_def cipher_error_eq hv split: option.splits)
    qed
    show ?thesis
      using sel r Some prov g szn p1 fin n
      by (simp add: sqlcipher_page_cipher_def page_cipher_iv_def)
  qed
qed

text \<open>The cipher call of a decryption, on an output buffer that already holds the vector.\<close>

lemma decrypt_finish_eq:
  assumes pok: "ok p" and prov: "ctx_provider ctx = Some (prov p)"
    and key: "c_key c = Some key" "ctx_key_sz ctx = int (length key)"
    and iv: "ctx_iv_sz ctx = int (length iv)"
    and len: "length a = m" "length t = n - m - length iv" "m + length iv \<le> n" "length inb = n"
  shows "page_cipher_finish ctx c pgno 0 (int n) (int m) inb (a @ iv @ t) w =
       (case p_cipher (prov p) 0 key iv (take m inb) of
          None \<Rightarrow> Some (1, replicate n 0, w) | Some d \<Rightarrow> Some (0, d @ iv @ t, w))"
proof -
  let ?b = "a @ iv @ t"
  have n: "length ?b = n" using len by simp
  have "peek ?b (int m) (int (length iv)) = Some iv" using peek_nat [of m "length iv" ?b] len by simp
  moreover have "peek inb 0 (int m) = Some (take m inb)" using peek_nat [of 0 m inb] len by simp
  moreover have "peek key 0 (int (length key)) = Some key" by (simp add: peek_whole)
  moreover have "poke ?b 0 d = Some (d @ iv @ t)" if "p_cipher (prov p) 0 key iv (take m inb) = Some d" for d
    using cipher_length [OF pok that] poke_nat [of 0 d ?b] len by simp
  ultimately show ?thesis
    using prov key iv n cipher_error_eq [of ?b "int n"]
    by (auto simp: page_cipher_finish_def simp del: length_append split: option.splits)
qed

text \<open>The HMAC check: the stored code against the one of the stored bytes.\<close>

lemma verify_eq:
  assumes pok: "ok p" and sz: "sizes_wf (prov p) ctx" and c: "cipher_ctx_wf ctx (Some c)"
    and iv: "ctx_iv_sz ctx = int (length iv)" and hm: "ctx_hmac_sz ctx = int hm" "m + length iv + hm \<le> n"
    and len: "length inb = n" "length a = m" "length t = n - m - length iv"
  shows "page_cipher_verify bt ctx c pgno (int n) (int m) inb (a @ iv @ t) =
     (case mac_of (prov p) ctx c pgno (take (m + length iv) inb) of
        None \<Rightarrow> Some (Hmac_failed (a @ iv @ t))
      | Some mc \<Rightarrow>
          Some (if take hm (drop (m + length iv) inb) = mc then Verified (a @ iv @ mc @ drop hm t)
                else if sqlite3BtreeGetAutoVacuum bt \<noteq> 0 \<and> inb = replicate n 0 then Zero_page
                else Hmac_failed (a @ iv @ mc @ drop hm t)))"
proof -
  let ?n = "m + length iv"
  have prov: "ctx_provider ctx = Some (prov p)" using sz by (simp add: sizes_wf_def)
  have ni: "nat (int m + int (length iv)) = ?n" by simp
  have hc: "sqlcipher_page_hmac ctx c pgno inb (int m + int (length iv)) = Some (mac_of (prov p) ctx c pgno (take ?n inb))"
    using page_hmac_eq [OF prov c, of "int m + int (length iv)" inb pgno] len hm ni by simp
  show ?thesis
  proof (cases "mac_of (prov p) ctx c pgno (take ?n inb)")
    case None
    then show ?thesis using hc iv by (simp add: page_cipher_verify_def)
  next
    case (Some mc)
    have ml: "length mc = hm" using mac_length [OF pok sz Some] hm by simp
    let ?o = "a @ iv @ mc @ drop hm t"
    have o2: "poke (a @ iv @ t) (int m + int (length iv)) mc = Some ?o"
      using poke_nat [of ?n mc "a @ iv @ t"] ml len hm by (simp add: add.commute add.left_commute)
    have cmp: "sqlcipher_memcmp (drop ?n inb) (drop ?n ?o) (int hm) = Some (of_bool (take hm (drop ?n inb) \<noteq> mc))"
      using sqlcipher_memcmp_closed [of "int hm" "drop ?n inb" "drop ?n ?o"] len hm ml by simp
    have "sqlcipher_ismemset inb 0 (int n) = Some (of_bool (inb \<noteq> replicate n 0))"
      using sqlcipher_ismemset_closed [of "int n" inb 0] len by simp
    then show ?thesis
      using hc iv hm Some o2 cmp ni by (simp add: page_cipher_verify_def del: append_assoc)
  qed
qed

text \<open>
  Decryption: the content, or an all-zero page together with an error -- except that an all-zero
  page is accepted as such under auto-vacuum.
\<close>

lemma page_decrypt_eq:
  assumes pok: "ok p" and sz: "sizes_wf (prov p) ctx" and sel: "sel_ctx ctx f = Some c"
    and c: "cipher_ctx_wf ctx (Some c)"
    and len: "length inb = n" "length out = n" "nat (ctx_reserve_sz ctx) \<le> n"
  obtains (plain) d t where "unseal (prov p) ctx c pgno inb = Some d" "length t = nat (ctx_reserve_sz ctx)"
      "sqlcipher_page_cipher bt ctx f pgno 0 (int n) inb out w = Some (0, d @ t, w)"
  | (zero) "unseal (prov p) ctx c pgno inb = None" "flag_get (ctx_flags ctx) CIPHER_FLAG_HMAC"
      "sqlite3BtreeGetAutoVacuum bt \<noteq> 0" "inb = replicate n 0"
      "sqlcipher_page_cipher bt ctx f pgno 0 (int n) inb out w = Some (0, replicate n 0, w)"
  | (fail) "unseal (prov p) ctx c pgno inb = None"
      "sqlcipher_page_cipher bt ctx f pgno 0 (int n) inb out w = Some (1, replicate n 0, w)"
proof -
  obtain ivn rs hm k where g: "ctx_iv_sz ctx = int ivn" "ctx_reserve_sz ctx = int rs" "ctx_hmac_sz ctx = int hm"
    "ctx_key_sz ctx = int k" "0 < ivn" "0 < k" "ivn \<le> rs"
    "flag_get (ctx_flags ctx) CIPHER_FLAG_HMAC \<Longrightarrow> ivn + hm \<le> rs" using page_geometry [OF pok sz] by metis
  obtain m where n: "n = m + rs" using len(3) g(2) by (metis le_Suc_ex add.commute nat_int)
  have prov: "ctx_provider ctx = Some (prov p)" using sz by (simp add: sizes_wf_def)
  obtain key where key: "c_key c = Some key" "ctx_key_sz ctx = int (length key)"
    using c g by (auto simp: cipher_ctx_wf_def block_of_def)
  define iv where "iv = take ivn (drop m inb)"
  define a where "a = take m out"
  define t where "t = drop (m + ivn) out"
  have ivl: "length iv = ivn" "ctx_iv_sz ctx = int (length iv)" using len n g by (simp_all add: iv_def)
  have al: "length a = m" "length t = n - m - length iv" "m + length iv \<le> n" "length t = rs - ivn"
    using len n g ivl by (simp_all add: a_def t_def)
  have szn: "int n - int rs = int m" "length inb - rs = m" using n len by simp_all
  have io: "page_cipher_iv ctx 0 (int m) inb out w = Some (True, a @ iv @ t, w)"
    using peek_nat [of m ivn inb] poke_nat [of m iv out] len n g ivl
    by (simp add: page_cipher_iv_def iv_def a_def t_def)
  let ?hm = "flag_get (ctx_flags ctx) CIPHER_FLAG_HMAC" and ?dec = "p_cipher (prov p) 0 key iv (take m inb)"
  have fin: "page_cipher_finish ctx c pgno 0 (int n) (int m) inb (a @ iv @ u) w =
       (case ?dec of None \<Rightarrow> Some (1, replicate n 0, w) | Some d \<Rightarrow> Some (0, d @ iv @ u, w))"
    if "length u = rs - ivn" for u
    using decrypt_finish_eq [OF pok prov key ivl(2) al(1) _ al(3) len(1), of u] that n ivl g by simp
  let ?R = "sqlcipher_page_cipher bt ctx f pgno 0 (int n) inb out w"
  show thesis
  proof (cases ?hm)
    case False
    have "?R = page_cipher_finish ctx c pgno 0 (int n) (int m) inb (a @ iv @ t) w"
      using sel g szn io False by (simp add: sqlcipher_page_cipher_def Let_def)
    moreover have "unseal (prov p) ctx c pgno inb = ?dec"
      using key g szn False by (simp add: unseal_def Let_def iv_def)
    ultimately show thesis
      using plain [of _ "iv @ t"] fail fin [OF al(4)] al(4) ivl g by (cases ?dec) auto
  next
    case True
    let ?mac = "mac_of (prov p) ctx c pgno (take (m + ivn) inb)"
    have us: "unseal (prov p) ctx c pgno inb =
       do { mc \<leftarrow> ?mac; if take hm (drop (m + ivn) inb) = mc then ?dec else None }"
      using key g szn True by (auto simp: unseal_def Let_def iv_def split: bind_splits)
    have body: "?R = do { v \<leftarrow> page_cipher_verify bt ctx c pgno (int n) (int m) inb (a @ iv @ t);
             (case v of
                Verified out \<Rightarrow> page_cipher_finish ctx c pgno 0 (int n) (int m) inb out w
              | Zero_page \<Rightarrow> do { out \<leftarrow> fill (a @ iv @ t) 0 0 (int n); Some (0, out, w) }
              | Hmac_failed out \<Rightarrow> cipher_error out (int n) w) }"
      using sel g szn io True by (simp add: sqlcipher_page_cipher_def Let_def)
    have "m + length iv + hm \<le> n" using g(8) [OF True] n ivl by simp
    note ver = verify_eq [OF pok sz c ivl(2) g(3) this len(1) al(1,2), of bt pgno, unfolded ivl(1)]
    have wipe: "cipher_error (a @ iv @ u) (int n) w = Some (1, replicate n 0, w)" if "length u = rs - ivn" for u
      using cipher_error_eq [of "a @ iv @ u" "int n" w] that al n ivl g by simp
    show thesis
    proof (cases ?mac)
      case None
      then show thesis using fail us body ver wipe [OF al(4)] by simp
    next
      case mc: (Some mc)
      have u: "length (mc @ drop hm t) = rs - ivn" using mac_length [OF pok sz mc] g(3) g(8) [OF True] al(4) by simp
      consider "take hm (drop (m + ivn) inb) = mc"
        | "take hm (drop (m + ivn) inb) \<noteq> mc" "sqlite3BtreeGetAutoVacuum bt \<noteq> 0 \<and> inb = replicate n 0"
        | "take hm (drop (m + ivn) inb) \<noteq> mc" "\<not> (sqlite3BtreeGetAutoVacuum bt \<noteq> 0 \<and> inb = replicate n 0)" by blast
      then show thesis
      proof cases
        case 1
        then have "?R = page_cipher_finish ctx c pgno 0 (int n) (int m) inb (a @ iv @ mc @ drop hm t) w"
          "unseal (prov p) ctx c pgno inb = ?dec" using body ver mc us by simp_all
        then show thesis using plain [of _ "iv @ mc @ drop hm t"] fail fin [OF u] u ivl g by (cases ?dec) auto
      next
        case 2
        then have "?R = Some (0, replicate n 0, w)"
          using body ver mc al n g ivl fill_whole [of "int n" "a @ iv @ t"] by simp
        then show thesis using zero us mc 2 True by simp
      next
        case 3
        then have "?R = Some (1, replicate n 0, w)" using body ver mc wipe [OF u] by (simp only: if_not_P) simp
        then show thesis using fail us mc 3 by simp
      qed
    qed
  qed
qed

text \<open>What was sealed opens to the same content.\<close>

lemma unseal_seal:
  assumes pok: "ok p" and sz: "sizes_wf (prov p) ctx" and c: "cipher_ctx_wf ctx (Some c)"
    and s: "seal (prov p) ctx c pgno r d = Some pg" and r: "int (length r) = ctx_reserve_sz ctx"
    and d: "ctx_block_sz ctx dvd int (length d)"
  shows "unseal (prov p) ctx c pgno pg = Some d" "int (length pg) = int (length d) + ctx_reserve_sz ctx"
proof -
  obtain ivn rs hm k where g: "ctx_iv_sz ctx = int ivn" "ctx_reserve_sz ctx = int rs" "ctx_hmac_sz ctx = int hm"
    "ctx_key_sz ctx = int k" "0 < ivn" "0 < k" "ivn \<le> rs"
    "flag_get (ctx_flags ctx) CIPHER_FLAG_HMAC \<Longrightarrow> ivn + hm \<le> rs" using page_geometry [OF pok sz] by metis
  let ?iv = "take ivn r"
  obtain key ct where key: "c_key c = Some key" and ct: "p_cipher (prov p) 1 key ?iv d = Some ct"
    using s g by (auto simp: seal_def Let_def bind_eq_Some_conv)
  have kl: "int (length key) = p_get_key_sz (prov p)" "int (length ?iv) = p_get_iv_sz (prov p)"
    using c key sz g r by (auto simp: cipher_ctx_wf_def sizes_wf_def)
  have cl: "length ct = length d" by (rule cipher_length [OF pok ct])
  have dec: "p_cipher (prov p) 0 key ?iv ct = Some d"
    using cipher_inverse [OF pok kl _ ct] d sz by (simp add: sizes_wf_def)
  have hv: "nat (int ivn + int hm) = ivn + hm" by simp
  have "unseal (prov p) ctx c pgno pg = Some d \<and> length pg = length d + rs"
  proof (cases "flag_get (ctx_flags ctx) CIPHER_FLAG_HMAC")
    case False
    then have "pg = ct @ r" using s g key ct by (simp add: seal_def Let_def)
    then show ?thesis using False key g dec cl r by (simp add: unseal_def Let_def)
  next
    case True
    then obtain m where m: "mac_of (prov p) ctx c pgno (ct @ ?iv) = Some m" "pg = ct @ ?iv @ m @ drop (ivn + hm) r"
      using s g key ct hv by (auto simp: seal_def Let_def bind_eq_Some_conv)
    have ml: "length m = hm" using mac_length [OF pok sz m(1)] g by simp
    have pl: "length pg = length d + rs" using m(2) ml cl r g g(8) [OF True] by simp
    have ivl: "length ?iv = ivn" using r g by simp
    have "take (length d + ivn) pg = ct @ ?iv" "take hm (drop (length d + ivn) pg) = m"
      "take ivn (drop (length d) pg) = ?iv" "take (length d) pg = ct"
      using m(2) cl ml ivl by simp_all
    then show ?thesis using True key g dec pl m(1) by (simp add: unseal_def Let_def)
  qed
  then show "unseal (prov p) ctx c pgno pg = Some d" "int (length pg) = int (length d) + ctx_reserve_sz ctx"
    using g by simp_all
qed

end

section \<open>The codec callback meets the specification\<close>

definition codec_offset :: "'e codec_ctx \<Rightarrow> u32 \<Rightarrow> nat" where
  "codec_offset ctx pgno =
     (if pgno = 1 then if ctx_plaintext_header_sz ctx \<noteq> 0 then nat (ctx_plaintext_header_sz ctx) else 16 else 0)"

text \<open>A context ready for pages: well formed, keys and salt in place, a plaintext header that fits.\<close>

definition codec_ready :: "'e sqlcipher_provider \<Rightarrow> 'e codec_ctx \<Rightarrow> bool" where
  "codec_ready p ctx \<longleftrightarrow> codec_wf p ctx \<and> keys_ready ctx \<and> header_fits ctx \<and> 0 \<le> ctx_plaintext_header_sz ctx
     \<and> flag_get (ctx_flags ctx) CIPHER_FLAG_HAS_KDF_SALT"

lemma page_size_16: "page_size_ok n \<Longrightarrow> 16 dvd n"
proof -
  assume "page_size_ok n"
  then have n: "512 \<le> n" "n AND (n - 1) = 0" by (auto simp: page_size_ok_def)
  have "take_bit 4 n = 0"
  proof (rule ccontr)
    assume nz: "take_bit 4 n \<noteq> 0"
    let ?k = "drop_bit 4 n" and ?l = "take_bit 4 n"
    have k: "?k \<noteq> 0" using n(1) by (simp add: drop_bit_eq_div)
    have l: "0 < ?l" using nz by (simp add: order_less_le)
    have "n = push_bit 4 ?k + ?l" by (simp add: bits_ident)
    then have "n - 1 = ?k * 16 + (?l - 1)" by (simp add: push_bit_eq_mult)
    moreover have "?l - 1 < 16" "0 \<le> ?l - 1" using l by (simp_all add: take_bit_eq_mod)
    ultimately have "drop_bit 4 (n - 1) = ?k" by (simp add: drop_bit_eq_div)
    then have "drop_bit 4 (n AND (n - 1)) = ?k" by (simp add: drop_bit_and)
    with n(2) k show False by simp
  qed
  then show "16 dvd n" by (simp add: take_bit_eq_mod dvd_eq_mod_eq_0)
qed

lemma codec_offset_fits:
  assumes "provider_sizes p" "codec_ready p ctx"
  shows "int (codec_offset ctx pgno) + ctx_reserve_sz ctx \<le> ctx_page_sz ctx"
    "ctx_block_sz ctx dvd ctx_page_sz ctx - int (codec_offset ctx pgno) - ctx_reserve_sz ctx"
    "(if pgno = 1 then if ctx_plaintext_header_sz ctx \<noteq> 0 then ctx_plaintext_header_sz ctx else FILE_HEADER_SZ else 0)
       = int (codec_offset ctx pgno)"
proof -
  have sz: "sizes_wf p ctx" "0 \<le> ctx_plaintext_header_sz ctx" "header_fits ctx"
    using assms(2) by (simp_all add: codec_ready_def codec_wf_def)
  note r = sizes_reserve [OF assms(1) sz(1)]
  have pg: "512 \<le> ctx_page_sz ctx" "16 dvd ctx_page_sz ctx"
    using sz(1) page_size_16 by (auto simp: sizes_wf_def page_size_ok_def)
  have b: "ctx_block_sz ctx dvd 16" using assms(1) sz(1) by (simp add: provider_sizes_def sizes_wf_def)
  have "ctx_block_sz ctx dvd int (codec_offset ctx pgno)"
    using sz b by (auto simp: codec_offset_def header_fits_def)
  moreover have "ctx_block_sz ctx dvd ctx_page_sz ctx" using b pg(2) dvd_trans by blast
  ultimately show "ctx_block_sz ctx dvd ctx_page_sz ctx - int (codec_offset ctx pgno) - ctx_reserve_sz ctx"
    using r(3) by (intro dvd_diff) auto
  show "int (codec_offset ctx pgno) + ctx_reserve_sz ctx \<le> ctx_page_sz ctx"
    using sz r(2) pg by (auto simp: codec_offset_def header_fits_def)
  show "(if pgno = 1 then if ctx_plaintext_header_sz ctx \<noteq> 0 then ctx_plaintext_header_sz ctx else FILE_HEADER_SZ else 0)
       = int (codec_offset ctx pgno)"
    using sz by (simp add: codec_offset_def)
qed

text \<open>The bytes before the encrypted part: nothing but on page 1.\<close>

definition read_head :: "'e codec_ctx \<Rightarrow> u32 \<Rightarrow> bytes \<Rightarrow> bytes" where
  "read_head ctx pgno pData =
     (if pgno = 1 then if ctx_plaintext_header_sz ctx \<noteq> 0 then take (codec_offset ctx pgno) pData
                       else SQLITE_FILE_HEADER else [])"

definition write_head :: "'e codec_ctx \<Rightarrow> u32 \<Rightarrow> bytes \<Rightarrow> bytes" where
  "write_head ctx pgno pData =
     (if pgno = 1 then if ctx_plaintext_header_sz ctx \<noteq> 0 then take (codec_offset ctx pgno) pData
                       else the (ctx_kdf_salt ctx) else [])"

lemma header_length [simp]: "length SQLITE_FILE_HEADER = 16"
  by (simp add: SQLITE_FILE_HEADER_def cstr_def)

definition key_used :: "'e codec_ctx \<Rightarrow> bytes \<Rightarrow> 'e codec_ctx" where
  "key_used ctx b = ctx\<lparr>ctx_flags := flag_set (ctx_flags ctx) CIPHER_FLAG_KEY_USED, ctx_buffer := Some b\<rparr>"

lemma codec_wf_buffer: "codec_wf p ctx \<Longrightarrow> int (length b) = ctx_page_sz ctx \<Longrightarrow> codec_wf p (ctx\<lparr>ctx_buffer := Some b\<rparr>)"
  by (rule codec_wf_settings [of _ ctx]) (simp_all add: codec_wf_def)

lemma codec_wf_used:
  "codec_wf p ctx \<Longrightarrow> codec_wf p (ctx\<lparr>ctx_flags := flag_set (ctx_flags ctx) CIPHER_FLAG_KEY_USED\<rparr>)"
  by (rule codec_wf_settings [of _ ctx]) (simp_all add: codec_wf_def)

lemma codec_ready_buffer: "codec_ready p ctx \<Longrightarrow> int (length b) = ctx_page_sz ctx \<Longrightarrow> codec_ready p (ctx\<lparr>ctx_buffer := Some b\<rparr>)"
  by (auto simp: codec_ready_def codec_wf_buffer keys_ready_def header_fits_def)

lemma codec_ready_used: "codec_ready p ctx \<Longrightarrow> int (length b) = ctx_page_sz ctx \<Longrightarrow> codec_ready p (key_used ctx b)"
  using codec_wf_buffer [OF codec_wf_used, of p ctx b]
  by (auto simp: codec_ready_def key_used_def keys_ready_def header_fits_def)

context crypto_provider
begin

lemma ready_facts:
  assumes pok: "ok p" and r: "codec_ready (prov p) ctx" and l: "int (length pData) = ctx_page_sz ctx"
  obtains rd wr salt buf n where "ctx_read_ctx ctx = Some rd" "ctx_write_ctx ctx = Some wr" "ctx_kdf_salt ctx = Some salt"
    "ctx_buffer ctx = Some buf" "length salt = 16" "length buf = length pData" "cipher_ctx_wf ctx (Some rd)" "cipher_ctx_wf ctx (Some wr)"
    "sizes_wf (prov p) ctx" "length pData = codec_offset ctx pgno + n" "nat (ctx_reserve_sz ctx) \<le> n"
    "ctx_page_sz ctx - int (codec_offset ctx pgno) = int n" "length (read_head ctx pgno pData) = codec_offset ctx pgno"
    "length (write_head ctx pgno pData) = codec_offset ctx pgno"
proof -
  note f = codec_offset_fits [OF sizes_ok [OF pok] r, of pgno]
  have wf: "codec_wf (prov p) ctx" using r by (simp add: codec_ready_def)
  obtain rd wr salt buf where x: "ctx_read_ctx ctx = Some rd" "ctx_write_ctx ctx = Some wr" "ctx_kdf_salt ctx = Some salt"
    "ctx_buffer ctx = Some buf" "length salt = 16" "length buf = length pData" "cipher_ctx_wf ctx (Some rd)" "cipher_ctx_wf ctx (Some wr)"
    "sizes_wf (prov p) ctx"
    using wf l by (auto simp: codec_wf_def block_of_def cipher_ctx_wf_def split: option.splits)
  have "0 \<le> ctx_reserve_sz ctx" using sizes_reserve [OF sizes_ok [OF pok] x(9)] by linarith
  then have "codec_offset ctx pgno \<le> length pData" "nat (ctx_reserve_sz ctx) \<le> length pData - codec_offset ctx pgno"
    using f(1) l by linarith+
  moreover from this have "length (read_head ctx pgno pData) = codec_offset ctx pgno"
    "length (write_head ctx pgno pData) = codec_offset ctx pgno"
    using x(3,5) by (auto simp: read_head_def write_head_def codec_offset_def)
  ultimately show thesis
    using that [OF x, of "length pData - codec_offset ctx pgno"] l by simp
qed

lemma codec_read_step:
  assumes pok: "ok p" and r: "codec_ready (prov p) ctx" and l: "int (length pData) = ctx_page_sz ctx"
    and rd: "ctx_read_ctx ctx = Some rd"
  obtains (plain) d t where "unseal (prov p) ctx rd pgno (drop (codec_offset ctx pgno) pData) = Some d"
      "length t = nat (ctx_reserve_sz ctx)"
      "sqlite3Codec bt ctx pData pgno 3 w = Some (Ret_data, read_head ctx pgno pData @ d @ t,
          key_used ctx (read_head ctx pgno pData @ d @ t), bt, w)"
      "codec_ready (prov p) (key_used ctx (read_head ctx pgno pData @ d @ t))"
  | (zero) n ctx' where "unseal (prov p) ctx rd pgno (drop (codec_offset ctx pgno) pData) = None"
      "sqlite3BtreeGetAutoVacuum bt \<noteq> 0" "drop (codec_offset ctx pgno) pData = replicate n 0"
      "sqlite3Codec bt ctx pData pgno 3 w = Some (Ret_data, read_head ctx pgno pData @ replicate n 0, ctx', bt, w)"
  | (fail) n ctx' where "unseal (prov p) ctx rd pgno (drop (codec_offset ctx pgno) pData) = None"
      "sqlite3Codec bt ctx pData pgno 3 w =
         Some (Ret_data, read_head ctx pgno pData @ replicate n 0, ctx', sqlcipher_codec_ctx_set_error bt 1, w)"
proof (rule ready_facts [OF pok r l, of pgno])
  fix rd' wr salt buf n
  assume x: "ctx_read_ctx ctx = Some rd'" "ctx_buffer ctx = Some buf" "length buf = length pData"
    "cipher_ctx_wf ctx (Some rd')" "sizes_wf (prov p) ctx" "length pData = codec_offset ctx pgno + n"
    "nat (ctx_reserve_sz ctx) \<le> n" "ctx_page_sz ctx - int (codec_offset ctx pgno) = int n"
    "length (read_head ctx pgno pData) = codec_offset ctx pgno"
  let ?o = "codec_offset ctx pgno" and ?h = "read_head ctx pgno pData"
  have off: "(if pgno = 1 then if ctx_plaintext_header_sz ctx \<noteq> 0 then ctx_plaintext_header_sz ctx else FILE_HEADER_SZ else 0) = int ?o"
    and hd: "\<not> ctx_plaintext_header_sz ctx < 0" and ready: "keys_ready ctx"
    using codec_offset_fits [OF sizes_ok [OF pok] r] r by (auto simp: codec_ready_def)
  define buf1 where "buf1 = ?h @ drop ?o buf"
  have b1: "(if pgno = 1 then do { d \<leftarrow> peek (if ctx_plaintext_header_sz ctx \<noteq> 0 then pData else SQLITE_FILE_HEADER) 0 (int ?o);
                 poke buf 0 d } else Some buf) = Some buf1"
    using x(3,6,9) peek_nat [of 0 ?o pData] poke_nat [of 0 ?h buf]
    by (auto simp: buf1_def read_head_def codec_offset_def peek_whole)
  have b1l: "length buf1 = length pData" "take ?o buf1 = ?h" "length (drop ?o buf1) = n" "length (drop ?o pData) = n"
    using x by (simp_all add: buf1_def)
  have sel: "sel_ctx ctx 0 = Some rd" using rd by (simp add: sel_ctx_def)
  have run: "sqlite3Codec bt ctx pData pgno 3 w =
     do { (rc, t, w) \<leftarrow> sqlcipher_page_cipher bt ctx 0 pgno 0 (int n) (drop ?o pData) (drop ?o buf1) w;
          (ctx, bt, buf) \<leftarrow>
            (if rc \<noteq> 0 then do { buf \<leftarrow> fill (?h @ t) (int ?o) 0 (ctx_page_sz ctx - int ?o); Some (ctx, sqlcipher_codec_ctx_set_error bt rc, buf) }
             else Some (ctx\<lparr>ctx_flags := flag_set (ctx_flags ctx) CIPHER_FLAG_KEY_USED\<rparr>, bt, ?h @ t));
          d \<leftarrow> peek buf 0 (ctx_page_sz ctx);
          pData \<leftarrow> poke pData 0 d;
          Some (Ret_data, pData, ctx\<lparr>ctx_buffer := Some buf\<rparr>, bt, w) }"
    using hd key_derive_ready [OF ready] off b1 b1l x(2,8)
    by (simp add: sqlite3Codec_def codec_read_def Let_def cong del: if_weak_cong)
  have whole: "peek b 0 (ctx_page_sz ctx) = Some b" "poke pData 0 b = Some b" if "length b = length pData" for b
    using that l by (simp_all add: peek_whole poke_whole)
  have rd': "rd' = rd" using x(1) rd by simp
  show thesis
  proof (rule page_decrypt_eq [OF pok x(5) sel x(4) [unfolded rd'] b1l(4) b1l(3) x(7), of pgno bt w])
    fix d t
    assume u: "unseal (prov p) ctx rd pgno (drop ?o pData) = Some d" "length t = nat (ctx_reserve_sz ctx)"
      and e: "sqlcipher_page_cipher bt ctx 0 pgno 0 (int n) (drop ?o pData) (drop ?o buf1) w = Some (0, d @ t, w)"
    have "length d = n - nat (ctx_reserve_sz ctx)"
      using u(1) cipher_length [OF pok] b1l(4) by (auto simp: unseal_def Let_def bind_eq_Some_conv split: if_splits)
    then have len: "length (?h @ d @ t) = length pData" using u(2) x by simp
    then have "sqlite3Codec bt ctx pData pgno 3 w = Some (Ret_data, ?h @ d @ t, key_used ctx (?h @ d @ t), bt, w)"
      using run e whole [OF len] by (simp add: key_used_def)
    then show thesis using plain u codec_ready_used [OF r] len l by simp
  next
    assume u: "unseal (prov p) ctx rd pgno (drop ?o pData) = None" "sqlite3BtreeGetAutoVacuum bt \<noteq> 0" "drop ?o pData = replicate n 0"
      and e: "sqlcipher_page_cipher bt ctx 0 pgno 0 (int n) (drop ?o pData) (drop ?o buf1) w = Some (0, replicate n 0, w)"
    have len: "length (?h @ replicate n 0) = length pData" using x by simp
    have "sqlite3Codec bt ctx pData pgno 3 w = Some (Ret_data, ?h @ replicate n 0, key_used ctx (?h @ replicate n 0), bt, w)"
      using run e whole [OF len] by (simp add: key_used_def)
    then show thesis by (rule zero [OF u])
  next
    assume u: "unseal (prov p) ctx rd pgno (drop ?o pData) = None"
      and e: "sqlcipher_page_cipher bt ctx 0 pgno 0 (int n) (drop ?o pData) (drop ?o buf1) w = Some (1, replicate n 0, w)"
    have len: "length (?h @ replicate n 0) = length pData" using x by simp
    have fl: "fill (?h @ replicate n 0) (int ?o) 0 (int n) = Some (?h @ replicate n 0)"
      using poke_nat [of ?o "replicate n 0" "?h @ replicate n 0"] x(9) by (simp add: fill_def)
    have "sqlite3Codec bt ctx pData pgno 3 w =
        Some (Ret_data, ?h @ replicate n 0, ctx\<lparr>ctx_buffer := Some (?h @ replicate n 0)\<rparr>, sqlcipher_codec_ctx_set_error bt 1, w)"
      using run e fl whole [OF len] x(8) by simp
    then show thesis by (rule fail [OF u])
  qed
qed

end

text \<open>The part of a page that carries content.\<close>

definition usable :: "'e codec_ctx \<Rightarrow> u32 \<Rightarrow> bytes \<Rightarrow> bytes" where
  "usable ctx pgno pData =
     take (length pData - codec_offset ctx pgno - nat (ctx_reserve_sz ctx)) (drop (codec_offset ctx pgno) pData)"

definition codec_ctx_of_mode :: "int \<Rightarrow> int" where
  "codec_ctx_of_mode mode = (if mode = CODEC_WRITE_OP then CIPHER_WRITE_CTX else CIPHER_READ_CTX)"

lemma get_kdf_salt_has:
  "flag_get (ctx_flags ctx) CIPHER_FLAG_HAS_KDF_SALT \<Longrightarrow>
     sqlcipher_codec_ctx_get_kdf_salt bt ctx w = Some (0, ctx_kdf_salt ctx, ctx, w)"
  by (simp add: sqlcipher_codec_ctx_get_kdf_salt_def)

context crypto_provider
begin

lemma codec_write_step:
  assumes pok: "ok p" and r: "codec_ready (prov p) ctx" and l: "int (length pData) = ctx_page_sz ctx"
    and md: "mode = 6 \<or> mode = 7" and c: "sel_ctx ctx (codec_ctx_of_mode mode) = Some c"
  obtains (sealed) rnd e pg where "p_random (prov p) (w_entropy w) (ctx_reserve_sz ctx) = (Some rnd, e)"
      "int (length rnd) = ctx_reserve_sz ctx" "seal (prov p) ctx c pgno rnd (usable ctx pgno pData) = Some pg"
      "sqlite3Codec bt ctx pData pgno mode w = Some (Ret_buffer, pData,
          key_used ctx (write_head ctx pgno pData @ pg), bt, w\<lparr>w_entropy := e\<rparr>)"
      "length (write_head ctx pgno pData @ pg) = length pData"
      "codec_ready (prov p) (key_used ctx (write_head ctx pgno pData @ pg))"
  | (fail) b w' where "sqlite3Codec bt ctx pData pgno mode w =
        Some (Ret_null, pData, ctx\<lparr>ctx_buffer := Some b\<rparr>, sqlcipher_codec_ctx_set_error bt 1, w')"
      "codec_ready (prov p) (ctx\<lparr>ctx_buffer := Some b\<rparr>)"
      "\<nexists>rnd e pg. p_random (prov p) (w_entropy w) (ctx_reserve_sz ctx) = (Some rnd, e)
         \<and> seal (prov p) ctx c pgno rnd (usable ctx pgno pData) = Some pg"
proof (rule ready_facts [OF pok r l, of pgno])
  fix rd wr salt buf n
  assume x: "ctx_read_ctx ctx = Some rd" "ctx_write_ctx ctx = Some wr" "ctx_kdf_salt ctx = Some salt"
    "ctx_buffer ctx = Some buf" "length buf = length pData"
    "cipher_ctx_wf ctx (Some rd)" "cipher_ctx_wf ctx (Some wr)" "sizes_wf (prov p) ctx"
    "length pData = codec_offset ctx pgno + n" "nat (ctx_reserve_sz ctx) \<le> n"
    "ctx_page_sz ctx - int (codec_offset ctx pgno) = int n"
    "length (write_head ctx pgno pData) = codec_offset ctx pgno" "length salt = 16"
  let ?o = "codec_offset ctx pgno" and ?h = "write_head ctx pgno pData" and ?f = "codec_ctx_of_mode mode"
  have off: "(if pgno = 1 then if ctx_plaintext_header_sz ctx \<noteq> 0 then ctx_plaintext_header_sz ctx else FILE_HEADER_SZ else 0) = int ?o"
    and hd: "\<not> ctx_plaintext_header_sz ctx < 0" and ready: "keys_ready ctx"
    and has: "flag_get (ctx_flags ctx) CIPHER_FLAG_HAS_KDF_SALT"
    using codec_offset_fits [OF sizes_ok [OF pok] r] r by (auto simp: codec_ready_def)
  have cw: "cipher_ctx_wf ctx (Some c)" using c x by (auto simp: sel_ctx_def split: if_splits)
  define buf1 where "buf1 = ?h @ drop ?o buf"
  define s0 where "s0 = (if pgno = 1 then ctx_kdf_salt ctx else None)"
  have g0: "(if pgno = 1 then sqlcipher_codec_ctx_get_kdf_salt bt ctx w else Some (0, None, ctx, w)) = Some (0, s0, ctx, w)"
    by (simp add: s0_def get_kdf_salt_has [OF has])
  have b1: "(if pgno = 1 then do { src \<leftarrow> (if ctx_plaintext_header_sz ctx \<noteq> 0 then Some pData else s0);
                 d \<leftarrow> peek src 0 (int ?o); poke buf 0 d } else Some buf) = Some buf1"
    using x(3,5,9,12,13) peek_nat [of 0 ?o pData] poke_nat [of 0 ?h buf]
    by (auto simp: buf1_def write_head_def codec_offset_def peek_whole s0_def)
  have b1l: "length buf1 = length pData" "take ?o buf1 = ?h" "length (drop ?o buf1) = n" "length (drop ?o pData) = n"
    using x by (simp_all add: buf1_def)
  have us: "take (n - nat (ctx_reserve_sz ctx)) (drop ?o pData) = usable ctx pgno pData"
    using x(9) by (simp add: usable_def)
  have run: "sqlite3Codec bt ctx pData pgno mode w =
     do { (rc, t, w) \<leftarrow> sqlcipher_page_cipher bt ctx ?f pgno 1 (int n) (drop ?o pData) (drop ?o buf1) w;
          if rc \<noteq> 0 then
            do { buf \<leftarrow> fill (?h @ t) (int ?o) 0 (int n);
                 Some (Ret_null, pData, ctx\<lparr>ctx_buffer := Some buf\<rparr>, sqlcipher_codec_ctx_set_error bt rc, w) }
          else Some (Ret_buffer, pData, key_used ctx (?h @ t), bt, w) }"
  proof -
    have "sqlite3Codec bt ctx pData pgno mode w = codec_write bt ctx ?f pData pgno (int ?o) w"
      using hd key_derive_ready [OF ready] off md by (auto simp: sqlite3Codec_def codec_ctx_of_mode_def)
    then show ?thesis
      by (simp add: codec_write_def g0 b1 b1l(2) x(4,11) Let_def key_used_def cong del: if_weak_cong split del: if_split)
  qed
  note enc = page_encrypt_eq [OF pok x(8) c cw b1l(4) b1l(3) x(10), of bt pgno w, unfolded us]
  have failing: thesis if "sqlcipher_page_cipher bt ctx ?f pgno 1 (int n) (drop ?o pData) (drop ?o buf1) w = Some (1, replicate n 0, w')"
    and "\<nexists>rnd e pg. p_random (prov p) (w_entropy w) (ctx_reserve_sz ctx) = (Some rnd, e)
         \<and> seal (prov p) ctx c pgno rnd (usable ctx pgno pData) = Some pg" for w'
  proof -
    have fl: "fill (?h @ replicate n 0) (int ?o) 0 (int n) = Some (?h @ replicate n 0)"
      using poke_nat [of ?o "replicate n 0" "?h @ replicate n 0"] x(12) by (simp add: fill_def)
    have "codec_ready (prov p) (ctx\<lparr>ctx_buffer := Some (?h @ replicate n 0)\<rparr>)"
      using x l by (intro codec_ready_buffer [OF r]) simp
    then show thesis using run that fl by (intro fail [of "?h @ replicate n 0" w']) simp_all
  qed
  obtain ro e where ro: "p_random (prov p) (w_entropy w) (ctx_reserve_sz ctx) = (ro, e)" by fastforce
  consider "ro = None" | rnd where "ro = Some rnd" "seal (prov p) ctx c pgno rnd (usable ctx pgno pData) = None"
    | rnd pg where "ro = Some rnd" "seal (prov p) ctx c pgno rnd (usable ctx pgno pData) = Some pg"
    by (cases ro) auto
  then show thesis
  proof cases
    case (3 rnd pg)
    have "0 \<le> ctx_reserve_sz ctx" using sizes_reserve [OF sizes_ok [OF pok] x(8)] by linarith
    then have rl: "int (length rnd) = ctx_reserve_sz ctx" using random_length [OF pok _ ro [unfolded 3]] by simp
    have ul: "int (length (usable ctx pgno pData)) = ctx_page_sz ctx - int ?o - ctx_reserve_sz ctx"
      using l x \<open>0 \<le> ctx_reserve_sz ctx\<close> by (simp add: usable_def)
    have "int (length pg) = int n"
      using unseal_seal(2) [OF pok x(8) cw 3(2) rl] ul codec_offset_fits(2) [OF sizes_ok [OF pok] r, of pgno] x(11) by simp
    then have len: "length (?h @ pg) = length pData" using x by simp
    from codec_ready_used [OF r, of "?h @ pg"] len l show thesis
      using run enc ro 3 rl by (intro sealed [of rnd e pg]) simp_all
  qed (use failing enc ro in simp_all)
qed

end

end
