(* ===== verification/Sample_Crypto.thy ===== *)
theory Sample_Crypto
  imports Page_Cipher
begin

text \<open>
  A concrete instance of the CommonCrypto parameter, small enough to compute with, and a context,
  b-tree and process state over it.  The theorems hold for every instance that satisfies
  \<open>commoncrypto_ok\<close>; this one shows that the assumption can be met and is where the theorems are
  applied to concrete inputs.  The "cipher" XORs a byte of key and vector into the data, the
  "HMAC" adds up the bytes it is given; the entropy source is a counter.
\<close>

definition sample_cc :: "(nat, cc_digest \<times> u8, u8) commoncrypto" where
  "sample_cc =
     \<lparr> SecRandomCopyBytes = (\<lambda>e n. (Some (replicate n (word_of_nat e)), Suc e)),
       CCHmacInit = (\<lambda>a k. (a, fold (+) k 0)),
       CCHmacUpdate = (\<lambda>(a, s) d. (a, fold (+) d (s + 1))),
       CCHmacFinal = (\<lambda>(a, s). replicate (digest_length a) s),
       CCKeyDerivationPBKDF = (\<lambda>pw s a i n. Some (replicate n (fold (+) pw (fold (+) s (word_of_int i))))),
       CCCryptorCreate = (\<lambda>enc k iv. if k \<noteq> [] \<and> iv \<noteq> [] then Some (hd k XOR hd iv) else None),
       CCCryptorUpdate = (\<lambda>c d. Some (map (\<lambda>x. x XOR c) d, c)),
       CCCryptorFinal = (\<lambda>c. Some ([], c)),
       CCCryptorRelease = (\<lambda>c. True),
       CFBundleShortVersion = None \<rparr>"

lemma sample_cipher:
  "sqlcipher_cc_cipher sample_cc m k iv x =
     (if k \<noteq> [] \<and> iv \<noteq> [] then Some (map (\<lambda>b. b XOR (hd k XOR hd iv)) x) else None)"
  by (simp add: sqlcipher_cc_cipher_def sample_cc_def)

lemma sample_hmac_fold:
  "fst (foldl (CCHmacUpdate sample_cc) (a, s) xs) = a"
  by (induction xs arbitrary: s) (simp_all add: sample_cc_def)

lemma sample_cc_ok: "commoncrypto_ok sample_cc"
proof -
  have "CCHmacFinal sample_cc h = replicate (digest_length (fst h)) (snd h)" for h
    by (cases h) (simp add: sample_cc_def)
  moreover have "CCHmacInit sample_cc a k = (a, fold (+) k 0)" for a k by (simp add: sample_cc_def)
  ultimately have mac: "length (CCHmacFinal sample_cc (foldl (CCHmacUpdate sample_cc) (CCHmacInit sample_cc a k) xs)) = digest_length a"
    for a k xs by (simp add: sample_hmac_fold)
  have "(x XOR c) XOR c = (x :: u8)" for x c by (simp add: xor.assoc)
  then have "map (\<lambda>b. b XOR c) (map (\<lambda>b. b XOR c) x) = x" for c and x :: bytes
    by (simp add: comp_def)
  then show ?thesis
    using mac by (auto simp: commoncrypto_ok_def sample_cipher) (auto simp: sample_cc_def)
qed

definition sample_prov :: "nat sqlcipher_provider" where
  "sample_prov = sqlcipher_cc_setup sample_cc"

definition sample_file :: os_file where
  "sample_file = \<lparr> f_bytes = replicate 4096 7, f_read_fails = False \<rparr>"

definition sample_bt :: btree where
  "sample_bt =
     \<lparr> bt_autoVacuum = False, bt_incrVacuum = False, bt_btsFlags = 0, bt_pageSize = 4096, bt_usableSize = 4096,
       bt_nReserveWanted = 0, pg_fd = Some sample_file, pg_memDb = False, pg_errCode = 0, pg_eState = 0,
       pg_xGet = getPageNormal, pg_bUseFetch = False, pg_szMmap = 0, pg_hasCodec = False, pg_pageSize = 4096,
       pg_nReserve = 0, pg_lckPgno = 262145, pg_dbSize = 1, pg_nRef = 0, pg_iDataVersion = 0,
       db_errCode = 0, db_nextPagesize = 0 \<rparr>"

definition sample_world :: "nat world" where
  "sample_world = (initial_world (\<lambda>_. True) 5)\<lparr>default_provider := Some sample_prov,
     sqlcipher_activate_count := 1, sqlcipher_static_mutex := replicate 6 True\<rparr>"

definition sample_cipher_ctx :: cipher_ctx where
  "sample_cipher_ctx = \<lparr> c_derive_key = 0, c_pass_sz = 0, c_key = Some (replicate 32 1),
     c_hmac_key = Some (replicate 32 2), c_pass = None, c_keyspec = None \<rparr>"

text \<open>A context with its keys in place: SHA-512 codes, 512-byte pages.\<close>

definition sample_ctx :: "nat codec_ctx" where
  "sample_ctx =
     \<lparr> ctx_store_pass = 0, ctx_kdf_iter = 256000, ctx_fast_kdf_iter = 2, ctx_kdf_salt_sz = 16, ctx_key_sz = 32,
       ctx_iv_sz = 16, ctx_block_sz = 16, ctx_page_sz = 512, ctx_keyspec_sz = 99, ctx_reserve_sz = 80,
       ctx_hmac_sz = 64, ctx_plaintext_header_sz = 0, ctx_hmac_algorithm = 2, ctx_kdf_algorithm = 2,
       ctx_flags = 19, ctx_kdf_salt = Some (replicate 16 9), ctx_hmac_kdf_salt = Some (replicate 16 0),
       ctx_buffer = Some (replicate 512 0), ctx_read_ctx = Some sample_cipher_ctx,
       ctx_write_ctx = Some sample_cipher_ctx, ctx_provider = Some sample_prov \<rparr>"

lemma sample_prov_sizes:
  "p_get_key_sz sample_prov = 32" "p_get_iv_sz sample_prov = 16" "p_get_block_sz sample_prov = 16"
  "p_get_hmac_sz sample_prov 2 = 64" "p_ctx_init sample_prov = 0"
  by (simp_all add: sample_prov_def sqlcipher_cc_setup_def sqlcipher_cc_get_key_sz_def sqlcipher_cc_get_iv_sz_def
      sqlcipher_cc_get_block_sz_def sqlcipher_cc_get_hmac_sz_def cc_algorithm_def sqlcipher_cc_ctx_init_def)

lemma sample_wf: "codec_wf sample_prov sample_ctx"
  by (simp add: codec_wf_def sizes_wf_def sample_ctx_def sample_prov_sizes round_up_def flag_get_def
      CIPHER_FLAG_HMAC_def page_size_ok_def cipher_ctx_wf_def sample_cipher_ctx_def)

lemma sample_ready: "codec_ready sample_prov sample_ctx"
  using sample_wf
  by (simp add: codec_ready_def header_fits_def keys_ready_def sample_ctx_def sample_cipher_ctx_def
      flag_get_def CIPHER_FLAG_HAS_KDF_SALT_def)

end
