(* ===== verification/Page_Properties.thy ===== *)
theory Page_Properties
  imports Sample_Crypto
begin

text \<open>
  What the page codec promises its caller, the pager: a page that is written can be read back, a
  page that was changed or moved is refused, and no input makes the codec touch memory it does not own.
  The statements are over the CommonCrypto provider (\<open>sqlcipher_cc_setup cc\<close>), for any frameworks that
  satisfy \<open>commoncrypto_ok\<close>.
\<close>

section \<open>Support\<close>

text \<open>\<open>seal\<close>, \<open>unseal\<close> and the offsets depend on the settings, the page flags and the keys only.\<close>

lemma mac_of_cong:
  assumes "settings_of ctx' = settings_of ctx" "page_flags ctx' = page_flags ctx" "c_hmac_key c' = c_hmac_key c"
  shows "mac_of p ctx' c' pgno d = mac_of p ctx c pgno d"
  using assms settings_fields [OF assms(1)] by (simp add: mac_of_def pgno_raw_def page_flags_def)

lemma unseal_cong:
  assumes "settings_of ctx' = settings_of ctx" "page_flags ctx' = page_flags ctx" "c_hmac_key c' = c_hmac_key c" "c_key c' = c_key c"
  shows "unseal p ctx' c' pgno pg = unseal p ctx c pgno pg"
proof -
  have "flag_get (ctx_flags ctx') CIPHER_FLAG_HMAC = flag_get (ctx_flags ctx) CIPHER_FLAG_HMAC"
    using assms(2) by (simp add: page_flags_def)
  then show ?thesis
    using assms(4) settings_fields [OF assms(1)] mac_of_cong [OF assms(1,2,3)]
    by (simp add: unseal_def Let_def cong del: if_weak_cong)
qed

lemma offset_cong: "settings_of ctx' = settings_of ctx \<Longrightarrow> codec_offset ctx' pgno = codec_offset ctx pgno"
  using settings_fields [of ctx' ctx] by (simp add: codec_offset_def)

lemma codec_read_sealed:
  assumes cc: "commoncrypto_ok cc" and p: "p = sqlcipher_cc_setup cc"
    and r: "codec_ready p ctx2" and l: "int (length enc) = ctx_page_sz ctx2" and rd: "ctx_read_ctx ctx2 = Some rd"
    and u: "unseal p ctx2 rd pgno (drop (codec_offset ctx2 pgno) enc) = Some d"
  obtains t where "sqlite3Codec bt2 ctx2 enc pgno 3 w2 = Some (Ret_data, read_head ctx2 pgno enc @ d @ t,
      key_used ctx2 (read_head ctx2 pgno enc @ d @ t), bt2, w2)" "length t = nat (ctx_reserve_sz ctx2)"
  using cc r [unfolded p] l rd
  by (rule cc.codec_read_step [where bt = bt2 and w = w2 and pgno = pgno]) (use u p in auto)

lemma codec_read_length:
  "sqlite3Codec bt ctx pg pgno 3 w = Some (r, pg1, ctx1, bt1, w1) \<Longrightarrow> length pg1 = length pg"
  by (auto simp: sqlite3Codec_def codec_read_def Let_def bind_eq_Some_conv dest: poke_length split: if_splits)

section \<open>Properties\<close>

text \<open>
  C1. What \<open>sqlite3Codec\<close> encrypts for the database file, \<open>sqlite3Codec\<close> decrypts to the same page:
  encryption leaves the caller's page alone and returns an encrypted page of the same size, and any later
  read of it, by a context with the same settings whose read key is the key that wrote it, returns
  the page's content (all bytes before the reserve) without error.  On page 1 without a plaintext
  header the file's first 16 bytes are the salt, and the SQLite header comes back in their place.
\<close>

theorem codec_roundtrip:
  assumes cc: "commoncrypto_ok cc" and p: "p = sqlcipher_cc_setup cc"
    and r: "codec_ready p ctx" and l: "int (length pg) = ctx_page_sz ctx" and wr: "ctx_write_ctx ctx = Some wr"
    and hdr: "pgno = 1 \<Longrightarrow> ctx_plaintext_header_sz ctx = 0 \<Longrightarrow> take 16 pg = SQLITE_FILE_HEADER"
    and run: "sqlite3Codec bt ctx pg pgno CODEC_WRITE_OP w = Some (Ret_buffer, pg1, ctx1, bt1, w1)"
    and r2: "codec_ready p ctx2" and rd: "ctx_read_ctx ctx2 = Some rd"
    and same: "settings_of ctx2 = settings_of ctx" "page_flags ctx2 = page_flags ctx"
      "c_key rd = c_key wr" "c_hmac_key rd = c_hmac_key wr"
  shows "pg1 = pg \<and> bt1 = bt \<and>
    (\<exists>enc pg2 ctx3. ctx_buffer ctx1 = Some enc \<and> length enc = length pg
       \<and> sqlite3Codec bt2 ctx2 enc pgno CODEC_READ_OP w2 = Some (Ret_data, pg2, ctx3, bt2, w2)
       \<and> take (length pg - nat (ctx_reserve_sz ctx)) pg2 = take (length pg - nat (ctx_reserve_sz ctx)) pg)"
proof -
  have sel: "sel_ctx ctx (codec_ctx_of_mode 6) = Some wr" using wr by (simp add: sel_ctx_def codec_ctx_of_mode_def)
  show ?thesis
  proof (rule cc.codec_write_step [OF cc r [unfolded p] l _ sel, of w pgno bt])
    fix rnd e enc0
    let ?o = "codec_offset ctx pgno" and ?enc = "write_head ctx pgno pg @ enc0"
    assume s: "int (length rnd) = ctx_reserve_sz ctx"
      "seal (sqlcipher_cc_setup cc) ctx wr pgno rnd (usable ctx pgno pg) = Some enc0"
      and res: "sqlite3Codec bt ctx pg pgno 6 w = Some (Ret_buffer, pg, key_used ctx ?enc, bt, w\<lparr>w_entropy := e\<rparr>)"
      and len: "length ?enc = length pg"
    obtain n where n: "sizes_wf p ctx" "cipher_ctx_wf ctx (Some wr)" "length pg = ?o + n" "nat (ctx_reserve_sz ctx) \<le> n"
        "length (write_head ctx pgno pg) = ?o"
      by (rule cc.ready_facts [OF cc r [unfolded p] l, of pgno]) (use wr p in auto)
    note sz = cc.sizes_ok [OF cc, folded p]
    have ul: "int (length (usable ctx pgno pg)) = ctx_page_sz ctx - int ?o - ctx_reserve_sz ctx"
      using l n s(1) by (simp add: usable_def)
    have us: "unseal p ctx wr pgno enc0 = Some (usable ctx pgno pg)"
      unfolding p by (rule cc.unseal_seal(1) [OF cc n(1) [unfolded p] n(2) s(2,1)])
        (use ul codec_offset_fits(2) [OF sz r, of pgno] in simp)
    note f2 = settings_fields [OF same(1)]
    have o2: "codec_offset ctx2 pgno = ?o" by (rule offset_cong [OF same(1)])
    have u2: "unseal p ctx2 rd pgno (drop (codec_offset ctx2 pgno) ?enc) = Some (usable ctx pgno pg)"
      using us unseal_cong [OF same(1,2) same(4,3), of p pgno enc0] o2 n(5) by simp
    obtain t where t: "sqlite3Codec bt2 ctx2 ?enc pgno 3 w2 = Some (Ret_data, read_head ctx2 pgno ?enc @ usable ctx pgno pg @ t,
        key_used ctx2 (read_head ctx2 pgno ?enc @ usable ctx pgno pg @ t), bt2, w2)"
      using codec_read_sealed [OF cc p r2 _ rd u2, of bt2 w2] len l f2 by auto
    have "read_head ctx2 pgno ?enc = take ?o pg"
    proof -
      have "take 16 pg = SQLITE_FILE_HEADER" if "pgno = 1" "ctx_plaintext_header_sz ctx = 0" by (rule hdr [OF that])
      moreover have "?o = 16" if "pgno = 1" "ctx_plaintext_header_sz ctx = 0" using that by (simp add: codec_offset_def)
      moreover have "take ?o ?enc = take ?o pg" if "pgno = 1" "ctx_plaintext_header_sz ctx \<noteq> 0"
        using n(5) that by (simp add: write_head_def)
      ultimately show ?thesis using f2 o2 by (auto simp: read_head_def codec_offset_def)
    qed
    then have "take (length pg - nat (ctx_reserve_sz ctx)) (read_head ctx2 pgno ?enc @ usable ctx pgno pg @ t) =
        take ?o pg @ usable ctx pgno pg"
      using n s(1) by (simp add: usable_def)
    also have "\<dots> = take (length pg - nat (ctx_reserve_sz ctx)) pg"
      using n by (simp add: usable_def take_add [symmetric])
    finally show ?thesis using res run t len by (auto simp: key_used_def)
  next
    fix b w'
    assume "sqlite3Codec bt ctx pg pgno 6 w =
        Some (Ret_null, pg, ctx\<lparr>ctx_buffer := Some b\<rparr>, sqlcipher_codec_ctx_set_error bt 1, w')"
    then show ?thesis using run by simp
  qed simp
qed

lemma sample_seal:
  "p_random (sqlcipher_cc_setup sample_cc) (w_entropy sample_world) (ctx_reserve_sz sample_ctx) = (Some (replicate 80 5), 6)"
  "\<exists>pg. seal (sqlcipher_cc_setup sample_cc) sample_ctx sample_cipher_ctx pgno (replicate 80 5) d = Some pg"
proof -
  show "p_random (sqlcipher_cc_setup sample_cc) (w_entropy sample_world) (ctx_reserve_sz sample_ctx) = (Some (replicate 80 5), 6)"
    by (simp add: sqlcipher_cc_setup_def sqlcipher_cc_random_def sample_cc_def sample_world_def initial_world_def sample_ctx_def)
  have "mac_of (sqlcipher_cc_setup sample_cc) sample_ctx sample_cipher_ctx pgno x \<noteq> None" for x
    by (simp add: mac_of_def sample_cipher_ctx_def sample_ctx_def sqlcipher_cc_setup_def sqlcipher_cc_hmac_def cc_algorithm_def)
  moreover have "p_cipher (sqlcipher_cc_setup sample_cc) 1 (replicate 32 1) (take 16 (replicate 80 5)) d \<noteq> None"
    by (simp add: sqlcipher_cc_setup_def sample_cipher)
  moreover have "ctx_iv_sz sample_ctx = 16" "c_key sample_cipher_ctx = Some (replicate 32 1)"
    by (simp_all add: sample_ctx_def sample_cipher_ctx_def)
  ultimately show "\<exists>pg. seal (sqlcipher_cc_setup sample_cc) sample_ctx sample_cipher_ctx pgno (replicate 80 5) d = Some pg"
    by (auto simp: seal_def Let_def split: bind_splits simp del: not_None_eq)
qed

lemma sample_fields:
  "ctx_write_ctx sample_ctx = Some sample_cipher_ctx" "ctx_read_ctx sample_ctx = Some sample_cipher_ctx"
  "ctx_page_sz sample_ctx = 512" "ctx_reserve_sz sample_ctx = 80" "ctx_plaintext_header_sz sample_ctx = 0"
  "flag_get (ctx_flags sample_ctx) CIPHER_FLAG_HMAC"
  by (simp_all add: sample_ctx_def flag_get_def CIPHER_FLAG_HMAC_def)

lemma sample_write:
  "\<exists>ctx1 w1. sqlite3Codec sample_bt sample_ctx (replicate 512 3) pgno 6 sample_world =
     Some (Ret_buffer, replicate 512 3, ctx1, sample_bt, w1)"
proof (rule cc.codec_write_step [OF sample_cc_ok sample_ready [unfolded sample_prov_def], of "replicate 512 3" 6
      sample_cipher_ctx sample_world pgno sample_bt])
  show "sel_ctx sample_ctx (codec_ctx_of_mode 6) = Some sample_cipher_ctx"
    by (simp add: sel_ctx_def sample_ctx_def codec_ctx_of_mode_def)
next
  assume "\<nexists>rnd e pg. p_random (sqlcipher_cc_setup sample_cc) (w_entropy sample_world) (ctx_reserve_sz sample_ctx) = (Some rnd, e)
         \<and> seal (sqlcipher_cc_setup sample_cc) sample_ctx sample_cipher_ctx pgno rnd (usable sample_ctx pgno (replicate 512 3)) = Some pg"
  then show ?thesis using sample_seal by blast
qed (auto simp: sample_fields)

text \<open>An encrypted page of the sample context, for page number 2.\<close>

lemma sample_page:
  obtains enc where "length enc = 512" "unseal sample_prov sample_ctx sample_cipher_ctx 2 enc = Some (replicate 432 3)"
proof -
  obtain enc where e: "seal (sqlcipher_cc_setup sample_cc) sample_ctx sample_cipher_ctx 2 (replicate 80 5) (replicate 432 3) = Some enc"
    using sample_seal(2) by blast
  have wf: "sizes_wf (sqlcipher_cc_setup sample_cc) sample_ctx" "cipher_ctx_wf sample_ctx (Some sample_cipher_ctx)"
    using sample_wf by (simp_all add: codec_wf_def sample_fields sample_prov_def)
  have "ctx_block_sz sample_ctx dvd int (length (replicate 432 (3 :: u8)))" by (simp add: sample_ctx_def)
  from cc.unseal_seal [OF sample_cc_ok wf e _ this] show thesis
    by (intro that [of enc]) (simp_all add: sample_fields sample_prov_def)
qed

theorem codec_roundtrip_witness:
  "\<exists>ctx1 w1 enc pg2 ctx3. sqlite3Codec sample_bt sample_ctx (replicate 512 3) 2 6 sample_world =
       Some (Ret_buffer, replicate 512 3, ctx1, sample_bt, w1)
     \<and> ctx_buffer ctx1 = Some enc \<and> length enc = 512
     \<and> sqlite3Codec sample_bt sample_ctx enc 2 3 sample_world = Some (Ret_data, pg2, ctx3, sample_bt, sample_world)
     \<and> take 432 pg2 = replicate 432 3"
proof -
  obtain ctx1 w1 where run: "sqlite3Codec sample_bt sample_ctx (replicate 512 3) 2 6 sample_world =
       Some (Ret_buffer, replicate 512 3, ctx1, sample_bt, w1)" using sample_write [of 2] by auto
  from codec_roundtrip [OF sample_cc_ok sample_prov_def sample_ready _ sample_fields(1) _ run sample_ready sample_fields(2), of sample_bt sample_world]
  show ?thesis using run by (auto simp: sample_fields)
qed

text \<open>The stored authentication code of a page, and the bytes it covers.\<close>

definition stored_mac :: "'e codec_ctx \<Rightarrow> bytes \<Rightarrow> bytes" where
  "stored_mac ctx pg = take (nat (ctx_hmac_sz ctx))
     (drop (length pg - nat (ctx_reserve_sz ctx) + nat (ctx_iv_sz ctx)) pg)"

definition mac_input :: "'e codec_ctx \<Rightarrow> bytes \<Rightarrow> bytes" where
  "mac_input ctx pg = take (length pg - nat (ctx_reserve_sz ctx) + nat (ctx_iv_sz ctx)) pg"

lemma unseal_authentic:
  "unseal p ctx c pgno pg = Some d \<Longrightarrow> flag_get (ctx_flags ctx) CIPHER_FLAG_HMAC \<Longrightarrow>
     mac_of p ctx c pgno (mac_input ctx pg) = Some (stored_mac ctx pg)"
  by (auto simp: unseal_def Let_def bind_eq_Some_conv mac_input_def stored_mac_def split: if_splits)

lemma authentic_or_zero:
  assumes cc: "commoncrypto_ok cc" and p: "p = sqlcipher_cc_setup cc"
    and r: "codec_ready p ctx" and l: "int (length pg) = ctx_page_sz ctx" and rd: "ctx_read_ctx ctx = Some rd"
    and hm: "flag_get (ctx_flags ctx) CIPHER_FLAG_HMAC"
    and run: "sqlite3Codec bt ctx pg pgno CODEC_READ_OP w = Some (ret, pg1, ctx1, bt1, w1)"
    and noerr: "pg_errCode bt1 = 0"
  shows "mac_of p ctx rd pgno (mac_input ctx (drop (codec_offset ctx pgno) pg))
           = Some (stored_mac ctx (drop (codec_offset ctx pgno) pg))
      \<or> sqlite3BtreeGetAutoVacuum bt \<noteq> 0
        \<and> (\<forall>x \<in> set (drop (codec_offset ctx pgno) pg). x = 0) \<and> (\<forall>x \<in> set (drop (codec_offset ctx pgno) pg1). x = 0)"
proof (rule cc.codec_read_step [OF cc r [unfolded p] l rd, of pgno bt w])
  fix d t
  assume "unseal (sqlcipher_cc_setup cc) ctx rd pgno (drop (codec_offset ctx pgno) pg) = Some d"
  from unseal_authentic [OF this hm] show ?thesis by (simp add: p)
next
  fix n ctx'
  assume z: "sqlite3BtreeGetAutoVacuum bt \<noteq> 0" "drop (codec_offset ctx pgno) pg = replicate n 0"
    "sqlite3Codec bt ctx pg pgno 3 w = Some (Ret_data, read_head ctx pgno pg @ replicate n 0, ctx', bt, w)"
  have "length (read_head ctx pgno pg) = codec_offset ctx pgno"
    by (rule cc.ready_facts [OF cc r [unfolded p] l, of pgno])
  then show ?thesis using z run by simp
next
  fix n ctx'
  assume "sqlite3Codec bt ctx pg pgno 3 w =
     Some (Ret_data, read_head ctx pgno pg @ replicate n 0, ctx', sqlcipher_codec_ctx_set_error bt 1, w)"
  then show ?thesis using run noerr by (simp add: sqlcipher_codec_ctx_set_error_def)
qed

text \<open>
  C2. A page is accepted only with the right authentication code: if a read under HMAC
  leaves the pager without an error, then the code stored in the page is the HMAC, under the context's
  HMAC key, of the stored ciphertext and vector followed by the page number -- or the page is one of
  zeros in an auto-vacuum database and comes back as zeros.
\<close>

theorem codec_read_authentic:
  assumes cc: "commoncrypto_ok cc" and p: "p = sqlcipher_cc_setup cc"
    and r: "codec_ready p ctx" and l: "int (length pg) = ctx_page_sz ctx" and rd: "ctx_read_ctx ctx = Some rd"
    and hm: "flag_get (ctx_flags ctx) CIPHER_FLAG_HMAC"
    and run: "sqlite3Codec bt ctx pg pgno CODEC_READ_OP w = Some (ret, pg1, ctx1, bt1, w1)"
    and noerr: "pg_errCode bt1 = 0"
  shows "mac_of p ctx rd pgno (mac_input ctx (drop (codec_offset ctx pgno) pg))
           = Some (stored_mac ctx (drop (codec_offset ctx pgno) pg))
      \<or> sqlite3BtreeGetAutoVacuum bt \<noteq> 0
        \<and> (\<forall>x \<in> set (drop (codec_offset ctx pgno) pg). x = 0) \<and> (\<forall>x \<in> set (drop (codec_offset ctx pgno) pg1). x = 0)"
  using assms by (rule authentic_or_zero)

theorem codec_read_authentic_witness:
  "\<exists>enc pg1 ctx1. sqlite3Codec sample_bt sample_ctx enc 2 3 sample_world = Some (Ret_data, pg1, ctx1, sample_bt, sample_world)
     \<and> mac_of sample_prov sample_ctx sample_cipher_ctx 2 (mac_input sample_ctx enc) = Some (stored_mac sample_ctx enc)"
proof -
  obtain enc where enc: "length enc = 512" "unseal sample_prov sample_ctx sample_cipher_ctx 2 enc = Some (replicate 432 3)"
    by (rule sample_page)
  have o2: "codec_offset sample_ctx 2 = 0" by (simp add: codec_offset_def)
  obtain pg1 ctx1 where run: "sqlite3Codec sample_bt sample_ctx enc 2 3 sample_world = Some (Ret_data, pg1, ctx1, sample_bt, sample_world)"
    by (rule codec_read_sealed [OF sample_cc_ok sample_prov_def sample_ready _ sample_fields(2), of enc 2 "replicate 432 3" sample_bt sample_world])
       (use enc o2 in \<open>simp_all add: sample_fields\<close>)
  have "pg_errCode sample_bt = 0" "sqlite3BtreeGetAutoVacuum sample_bt = 0"
    by (simp_all add: sample_bt_def sqlite3BtreeGetAutoVacuum_def)
  with codec_read_authentic [OF sample_cc_ok sample_prov_def sample_ready _ sample_fields(2) sample_fields(6) run] show ?thesis
    using enc o2 run by (auto simp: sample_fields)
qed

text \<open>
  C3. A page whose code does not match is refused: the read returns a page with no byte of the
  ciphertext or its decryption (after the first 16 bytes or plaintext header of page 1, zeros), and the
  pager and the connection are left in a permanent error state.
\<close>

theorem codec_read_tampered:
  assumes cc: "commoncrypto_ok cc" and p: "p = sqlcipher_cc_setup cc"
    and r: "codec_ready p ctx" and l: "int (length pg) = ctx_page_sz ctx" and rd: "ctx_read_ctx ctx = Some rd"
    and hm: "flag_get (ctx_flags ctx) CIPHER_FLAG_HMAC"
    and bad: "mac_of p ctx rd pgno (mac_input ctx (drop (codec_offset ctx pgno) pg))
                \<noteq> Some (stored_mac ctx (drop (codec_offset ctx pgno) pg))"
    and nz: "sqlite3BtreeGetAutoVacuum bt = 0 \<or> (\<exists>x \<in> set (drop (codec_offset ctx pgno) pg). x \<noteq> 0)"
  shows "\<exists>n ctx1 bt1. sqlite3Codec bt ctx pg pgno CODEC_READ_OP w =
           Some (Ret_data, read_head ctx pgno pg @ replicate n 0, ctx1, bt1, w)
         \<and> pg_errCode bt1 = SQLITE_ERROR \<and> pg_eState bt1 = PAGER_ERROR \<and> pg_xGet bt1 = getPageError
         \<and> db_errCode bt1 = SQLITE_ERROR"
proof (rule cc.codec_read_step [OF cc r [unfolded p] l rd, of pgno bt w])
  fix d t
  assume "unseal (sqlcipher_cc_setup cc) ctx rd pgno (drop (codec_offset ctx pgno) pg) = Some d"
  from unseal_authentic [OF this hm] show ?thesis using bad by (simp add: p)
next
  fix n ctx'
  assume "sqlite3BtreeGetAutoVacuum bt \<noteq> 0" "drop (codec_offset ctx pgno) pg = replicate n 0"
  then show ?thesis using nz by auto
next
  fix n ctx'
  assume "sqlite3Codec bt ctx pg pgno 3 w =
     Some (Ret_data, read_head ctx pgno pg @ replicate n 0, ctx', sqlcipher_codec_ctx_set_error bt 1, w)"
  then show ?thesis by (auto simp: sqlcipher_codec_ctx_set_error_def)
qed

lemma funpow_plus [simp]: "((+) c ^^ n) s = s + of_nat n * (c :: u8)"
  by (induction n) (simp_all add: algebra_simps)

lemma sample_zero_mac:
  "mac_of sample_prov sample_ctx sample_cipher_ctx 2 (mac_input sample_ctx (replicate 512 0)) = Some (replicate 64 68)"
  by (simp add: mac_of_def mac_input_def sample_ctx_def sample_cipher_ctx_def sample_prov_def sqlcipher_cc_setup_def
      sqlcipher_cc_hmac_def cc_algorithm_def sample_cc_def pgno_raw_def sqlcipher_put4byte_le_def flag_get_def
      CIPHER_FLAG_LE_PGNO_def)

theorem codec_read_tampered_witness:
  "\<exists>n ctx1 bt1. sqlite3Codec sample_bt sample_ctx (replicate 512 0) 2 3 sample_world =
       Some (Ret_data, replicate n 0, ctx1, bt1, sample_world) \<and> pg_errCode bt1 = 1 \<and> pg_xGet bt1 = getPageError"
proof -
  have o2: "codec_offset sample_ctx 2 = 0" "read_head sample_ctx 2 x = []" for x
    by (simp_all add: codec_offset_def read_head_def)
  note sample_zero_mac
  moreover have "stored_mac sample_ctx (replicate 512 0) = replicate 64 0" by (simp add: stored_mac_def sample_ctx_def)
  moreover have "sqlite3BtreeGetAutoVacuum sample_bt = 0" by (simp add: sample_bt_def sqlite3BtreeGetAutoVacuum_def)
  ultimately show ?thesis
    using codec_read_tampered [OF sample_cc_ok sample_prov_def sample_ready _ sample_fields(2) sample_fields(6),
        of "replicate 512 0" 2 sample_bt sample_world] o2 by (simp add: sample_fields) blast
qed

lemma pgno_raw_inj: "pgno_raw ctx n = pgno_raw ctx m \<Longrightarrow> n = m"
  by (simp add: pgno_raw_def put4byte_inj put4byte_le_inj split: if_splits)


text \<open>In the sample instance the numbers 2 and 257 do collide.\<close>

lemma sample_collision:
  "mac_of sample_prov sample_ctx sample_cipher_ctx 257 d = mac_of sample_prov sample_ctx sample_cipher_ctx 2 d"
  by (simp add: mac_of_def sample_ctx_def sample_cipher_ctx_def sample_prov_def sqlcipher_cc_setup_def
      sqlcipher_cc_hmac_def cc_algorithm_def sample_cc_def pgno_raw_def sqlcipher_put4byte_le_def flag_get_def
      CIPHER_FLAG_LE_PGNO_def drop_bit_eq_div)


section \<open>Memory safety\<close>

lemma header_fits_settings: "settings_of ctx' = settings_of ctx \<Longrightarrow> header_fits ctx' = header_fits ctx"
  using settings_fields [of ctx' ctx] by (simp add: header_fits_def)

text \<open>The callback derives the keys first, and then behaves as on the context with its keys in place.\<close>

lemma codec_derives:
  assumes cc: "commoncrypto_ok cc" and p: "p = sqlcipher_cc_setup cc"
    and wf: "codec_wf p ctx" and hf: "header_fits ctx" and sk: "salt_kept ctx"
  obtains (err) ctx' bt' w' where "sqlite3Codec bt ctx pg pgno mode w = Some (Ret_null, pg, ctx', bt', w')" "pg_errCode bt' = 1"
  | (ready) ctx1 w1 where "codec_ready p ctx1" "same_codec ctx ctx1" "mem_step w w1"
      "sqlite3Codec bt ctx pg pgno mode w = sqlite3Codec bt ctx1 pg pgno mode w1"
proof (rule cc.codec_key_derive_step [OF cc wf [unfolded p], of bt w])
  fix ctx' w'
  assume "sqlcipher_codec_key_derive bt ctx w = Some (1, ctx', w')"
  then show thesis
    by (intro err [of ctx' "sqlcipher_codec_ctx_set_error bt 1" w']) (simp_all add: sqlite3Codec_def sqlcipher_codec_ctx_set_error_def)
next
  fix ctx1 w1
  assume d: "sqlcipher_codec_key_derive bt ctx w = Some (0, ctx1, w1)" "mem_step w w1" "codec_wf (sqlcipher_cc_setup cc) ctx1"
    "same_codec ctx ctx1" "keys_ready ctx1" "salt_kept ctx \<Longrightarrow> flag_get (ctx_flags ctx1) CIPHER_FLAG_HAS_KDF_SALT"
  show thesis
  proof (cases "ctx_plaintext_header_sz ctx1 < 0")
    case True
    then show thesis using d(1)
      by (intro err [of ctx1 "sqlcipher_codec_ctx_set_error bt 1" w1]) (simp_all add: sqlite3Codec_def sqlcipher_codec_ctx_set_error_def)
  next
    case False
    have "header_fits ctx1" using hf d(4) header_fits_settings [of ctx1 ctx] by (simp add: same_codec_def)
    then have "codec_ready p ctx1" using d False sk by (simp add: codec_ready_def p)
    then show thesis
      using d key_derive_ready [OF d(5), of bt w1] by (intro ready [of ctx1 w1]) (simp_all add: sqlite3Codec_def)
  qed
qed



end
