(* ===== verification/Codec_Api.thy ===== *)
theory Codec_Api
  imports Page_Cipher
begin

text \<open>
  The connection level of SQLCipher (\<^verbatim>\<open>sqlcipher.c\<close> and the codec hooks of \<^verbatim>\<open>pager.c\<close>): attaching a codec
  to a database with \<open>sqlite3_key_v2\<close>, replacing its key with \<open>sqlite3_rekey_v2\<close>, handing the key out
  again for \<open>ATTACH\<close>.

  A connection is the list of its databases; a database that is open has a b-tree and its pager,
  the codec context of that pager (\<open>pPager->pCodec\<close>) and whether the pager has a callback to free
  it (\<open>pPager->xCodecFree\<close>).  The two fields of the connection the code reaches through the b-tree
  (\<open>pBt->db->errCode\<close>, \<open>db->nextPagesize\<close>) are loaded into the b-tree before an operation on a database
  and stored back after it.
\<close>

section \<open>State\<close>

record 'e attached =
  at_bt :: btree
  at_pCodec :: "'e codec_ctx option"
  at_xCodecFree :: bool

record 'e Db =
  zDbSName :: bytes
  pBt :: "'e attached option"

record 'e sqlite3 =
  c_errCode :: int
  c_nextPagesize :: int
  c_aDb :: "'e Db list"

definition load_db :: "'e sqlite3 \<Rightarrow> nat \<Rightarrow> 'e attached option option" where
  "load_db db nDb =
     (if nDb < length (c_aDb db)
      then Some (map_option (\<lambda>a. a\<lparr>at_bt := (at_bt a)\<lparr>db_errCode := c_errCode db,
                                        db_nextPagesize := c_nextPagesize db\<rparr>\<rparr>) (pBt (c_aDb db ! nDb)))
      else None)"

definition store_db :: "'e sqlite3 \<Rightarrow> nat \<Rightarrow> 'e attached \<Rightarrow> 'e sqlite3" where
  "store_db db nDb a =
     db\<lparr>c_errCode := db_errCode (at_bt a), c_nextPagesize := db_nextPagesize (at_bt a),
        c_aDb := (c_aDb db)[nDb := (c_aDb db ! nDb)\<lparr>pBt := Some a\<rparr>]\<rparr>"

section \<open>The codec of a pager\<close>

definition sqlcipherPagerGetCodec :: "'e attached \<Rightarrow> 'e codec_ctx option" where
  "sqlcipherPagerGetCodec a = at_pCodec a"

definition sqlite3FreeCodecArg :: "'e codec_ctx option \<Rightarrow> 'e world \<Rightarrow> 'e world option" where
  "sqlite3FreeCodecArg pCodecArg w =
     (case pCodecArg of None \<Rightarrow> Some w
      | Some ctx \<Rightarrow> map_option sqlcipher_deactivate (sqlcipher_codec_ctx_free ctx w))"

text \<open>\<open>sqlcipherPagerSetCodec\<close> with the callbacks \<open>sqlite3Codec\<close>, no size-change callback and
  \<open>sqlite3FreeCodecArg\<close>, the only ones the code passes.\<close>

definition sqlcipherPagerSetCodec ::
    "'e attached \<Rightarrow> 'e codec_ctx \<Rightarrow> 'e world \<Rightarrow> ('e attached \<times> 'e world) option" where
  "sqlcipherPagerSetCodec a ctx w =
     do { (bt, w) \<leftarrow> (if at_xCodecFree a
                       then map_option (Pair (at_bt a)) (sqlite3FreeCodecArg (at_pCodec a) w)
                       else Some (pager_reset (at_bt a), w));
          let bt = setGetterMethod (bt\<lparr>pg_hasCodec := \<not> pg_memDb bt\<rparr>);
          Some (\<lparr>at_bt = bt, at_pCodec = Some ctx, at_xCodecFree = True\<rparr>, w) }"

definition codec_set_btree_to_codec_pagesize ::
    "btree \<Rightarrow> 'e codec_ctx \<Rightarrow> 'e world \<Rightarrow> int \<times> btree \<times> 'e world" where
  "codec_set_btree_to_codec_pagesize bt ctx w =
     sqlite3BtreeSetPageSize
       (bt\<lparr>db_nextPagesize := ctx_page_sz ctx, bt_btsFlags := bt_btsFlags bt AND NOT BTS_PAGESIZE_FIXED\<rparr>)
       (ctx_page_sz ctx) (ctx_reserve_sz ctx) False w"

definition codec_set_pass_key ::
    "'e sqlite3 \<Rightarrow> nat \<Rightarrow> bytes option \<Rightarrow> int \<Rightarrow> int \<Rightarrow> 'e world \<Rightarrow> (int \<times> 'e sqlite3 \<times> 'e world) option" where
  "codec_set_pass_key db nDb zKey nKey for_ctx w =
     do { slot \<leftarrow> load_db db nDb;
          case slot of None \<Rightarrow> Some (SQLITE_ERROR, db, w)
          | Some a \<Rightarrow>
              (case sqlcipherPagerGetCodec a of None \<Rightarrow> Some (SQLITE_ERROR, db, w)
               | Some ctx \<Rightarrow>
                   do { (rc, ctx, w) \<leftarrow> sqlcipher_codec_ctx_set_pass ctx zKey nKey for_ctx w;
                        Some (rc, store_db db nDb (a\<lparr>at_pCodec := Some ctx\<rparr>), w) }) }"

section \<open>Attaching a codec\<close>

text \<open>Once the context is there: hand it to the pager and set the b-tree up for it.\<close>

definition attach_finish ::
    "os_file option \<Rightarrow> 'e attached \<Rightarrow> 'e codec_ctx \<Rightarrow> 'e world \<Rightarrow> (int \<times> 'e attached \<times> 'e world) option" where
  "attach_finish fd a ctx w =
     do { (a, w) \<leftarrow> sqlcipherPagerSetCodec a ctx w;
          let (_, bt, w) = codec_set_btree_to_codec_pagesize (at_bt a) ctx w;
          let bt = snd (sqlite3BtreeSecureDelete bt 1);
          let bt = (if fd \<noteq> None then snd (sqlite3BtreeSetAutoVacuum bt 0) else bt);
          Some (SQLITE_OK, a\<lparr>at_bt := bt\<rparr>, w) }"

definition attach_codec ::
    "'e sqlcipher_provider \<Rightarrow> 'e attached \<Rightarrow> bytes option \<Rightarrow> int \<Rightarrow> 'e world \<Rightarrow> (int \<times> 'e attached \<times> 'e world) option" where
  "attach_codec cc_table a zKey nKey w =
     do { let fd = pg_fd (at_bt a);
          w \<leftarrow> sqlcipher_activate cc_table w;
          (rc, c, w) \<leftarrow> sqlcipher_codec_ctx_init zKey nKey w;
          if rc \<noteq> SQLITE_OK
          then Some (rc, a\<lparr>at_bt := (sqlite3pager_error (at_bt a) rc)\<lparr>db_errCode := rc\<rparr>\<rparr>, w)
          else do { ctx \<leftarrow> c; attach_finish fd a ctx w } }"

definition sqlcipherCodecAttach ::
    "'e sqlcipher_provider \<Rightarrow> 'e sqlite3 \<Rightarrow> nat \<Rightarrow> bytes option \<Rightarrow> int \<Rightarrow> 'e world
       \<Rightarrow> (int \<times> 'e sqlite3 \<times> 'e world) option" where
  "sqlcipherCodecAttach cc_table db nDb zKey nKey w =
     do { slot \<leftarrow> load_db db nDb;
          case slot of None \<Rightarrow> Some (SQLITE_OK, db, w)
          | Some a \<Rightarrow>
              if nKey = 0 \<or> zKey = None then Some (SQLITE_OK, db, w)
              else if (case sqlcipherPagerGetCodec a of None \<Rightarrow> False
                       | Some ctx \<Rightarrow> flag_get (ctx_flags ctx) CIPHER_FLAG_KEY_USED)
              then Some (SQLITE_OK, db, w)
              else do { (rc, a, w) \<leftarrow> attach_codec cc_table a zKey nKey w;
                        Some (rc, store_db db nDb a, w) } }"

text \<open>\<open>strcmp\<close> of two C strings is equality of their bytes up to the terminator.\<close>

fun find_db_loop :: "'e Db list \<Rightarrow> bytes \<Rightarrow> nat \<Rightarrow> nat" where
  "find_db_loop [] zDb i = 0"
| "find_db_loop (d # ds) zDb i = (if zDbSName d = zDb then i else find_db_loop ds zDb (Suc i))"

definition sqlcipher_find_db_index :: "'e sqlite3 \<Rightarrow> bytes option \<Rightarrow> nat" where
  "sqlcipher_find_db_index db zDb =
     (case zDb of None \<Rightarrow> 0 | Some z \<Rightarrow> find_db_loop (c_aDb db) z 0)"

definition sqlite3_key_v2 ::
    "'e sqlcipher_provider \<Rightarrow> 'e sqlite3 option \<Rightarrow> bytes option \<Rightarrow> bytes option \<Rightarrow> int \<Rightarrow> 'e world
       \<Rightarrow> (int \<times> 'e sqlite3 option \<times> 'e world) option" where
  "sqlite3_key_v2 cc_table db zDb pKey nKey w =
     (case db of None \<Rightarrow> Some (SQLITE_ERROR, None, w)
      | Some d \<Rightarrow>
          if pKey \<noteq> None \<and> nKey \<noteq> 0
          then map_option (\<lambda>(rc, d, w). (rc, Some d, w))
                 (sqlcipherCodecAttach cc_table d (sqlcipher_find_db_index d zDb) pKey nKey w)
          else Some (SQLITE_ERROR, Some d, w))"

definition sqlite3_key ::
    "'e sqlcipher_provider \<Rightarrow> 'e sqlite3 option \<Rightarrow> bytes option \<Rightarrow> int \<Rightarrow> 'e world
       \<Rightarrow> (int \<times> 'e sqlite3 option \<times> 'e world) option" where
  "sqlite3_key cc_table db pKey nKey w = sqlite3_key_v2 cc_table db (Some (cstr ''main'')) pKey nKey w"

text \<open>\<open>sqlcipherCodecGetKey\<close>: the pair it writes to \<open>*zKey\<close> and \<open>*nKey\<close>; \<open>old\<close> is what they held before,
  which stays when the database is not open.\<close>

definition sqlcipherCodecGetKey ::
    "'e sqlite3 \<Rightarrow> nat \<Rightarrow> bytes option \<times> int \<Rightarrow> (bytes option \<times> int) option" where
  "sqlcipherCodecGetKey db nDb old =
     do { slot \<leftarrow> load_db db nDb;
          case slot of None \<Rightarrow> Some old
          | Some a \<Rightarrow>
              (case sqlcipherPagerGetCodec a of None \<Rightarrow> Some (None, 0)
               | Some ctx \<Rightarrow>
                   do { c \<leftarrow> ctx_read_ctx ctx;
                        Some (if ctx_store_pass ctx = 1 \<or> c_keyspec c = None
                              then (c_pass c, c_pass_sz c) else (c_keyspec c, ctx_keyspec_sz ctx)) }) }"

section \<open>Changing the key\<close>

text \<open>
  \<open>sqlite3_rekey_v2\<close> rewrites every page inside one transaction.  The transaction and page-cache
  routines of \<^verbatim>\<open>btree.c\<close> and \<^verbatim>\<open>pager.c\<close> it calls are an argument, a table of functions on the open
  database, the process and the state \<open>'p\<close> of that machinery; each returns a result code.  They
  run the codec, so they may change the context.
\<close>

record ('e, 'p) pager_ops =
  po_begin :: "'e attached \<Rightarrow> 'e world \<Rightarrow> 'p \<Rightarrow> int \<times> 'e attached \<times> 'e world \<times> 'p"
  po_pagecount :: "'e attached \<Rightarrow> 'p \<Rightarrow> u32"
  po_get :: "u32 \<Rightarrow> 'e attached \<Rightarrow> 'e world \<Rightarrow> 'p \<Rightarrow> int \<times> 'e attached \<times> 'e world \<times> 'p"
  po_write :: "u32 \<Rightarrow> 'e attached \<Rightarrow> 'e world \<Rightarrow> 'p \<Rightarrow> int \<times> 'e attached \<times> 'e world \<times> 'p"
  po_unref :: "u32 \<Rightarrow> 'e attached \<Rightarrow> 'e world \<Rightarrow> 'p \<Rightarrow> 'e attached \<times> 'e world \<times> 'p"
  po_commit :: "'e attached \<Rightarrow> 'e world \<Rightarrow> 'p \<Rightarrow> int \<times> 'e attached \<times> 'e world \<times> 'p"
  po_rollback :: "int \<Rightarrow> 'e attached \<Rightarrow> 'e world \<Rightarrow> 'p \<Rightarrow> 'e attached \<times> 'e world \<times> 'p"

definition rekey_page ::
    "('e, 'p) pager_ops \<Rightarrow> u32 \<Rightarrow> 'e attached \<Rightarrow> 'e world \<Rightarrow> 'p \<Rightarrow> int \<times> 'e attached \<times> 'e world \<times> 'p" where
  "rekey_page ops pgno a w s =
     (if sqlite3pager_is_sj_pgno (at_bt a) pgno then (SQLITE_OK, a, w, s)
      else case po_get ops pgno a w s of (rc, a, w, s) \<Rightarrow>
        if rc \<noteq> SQLITE_OK then (rc, a, w, s)
        else case po_write ops pgno a w s of (rc, a, w, s) \<Rightarrow>
          if rc \<noteq> SQLITE_OK then (rc, a, w, s)
          else case po_unref ops pgno a w s of (a, w, s) \<Rightarrow> (SQLITE_OK, a, w, s))"

text \<open>The loop over pages \<open>pgno\<close> to \<open>page_count\<close>, which ends at the first failing page; \<open>n\<close> is the number
  of pages still to do.\<close>

fun rekey_loop ::
    "('e, 'p) pager_ops \<Rightarrow> nat \<Rightarrow> u32 \<Rightarrow> int \<times> 'e attached \<times> 'e world \<times> 'p \<Rightarrow> int \<times> 'e attached \<times> 'e world \<times> 'p" where
  "rekey_loop ops 0 pgno st = st"
| "rekey_loop ops (Suc n) pgno (rc, a, w, s) =
     (if rc \<noteq> SQLITE_OK then (rc, a, w, s)
      else rekey_loop ops n (pgno + 1) (rekey_page ops pgno a w s))"

definition rekey_finish ::
    "('e, 'p) pager_ops \<Rightarrow> int \<times> 'e attached \<times> 'e world \<times> 'p \<Rightarrow> ('e attached \<times> 'e world \<times> 'p) option" where
  "rekey_finish ops = (\<lambda>(rc, a, w, s).
     if rc = SQLITE_OK then
       (case po_commit ops a w s of (_, a, w, s) \<Rightarrow>
        do { ctx \<leftarrow> sqlcipherPagerGetCodec a;
             (_, ctx, w) \<leftarrow> sqlcipher_codec_key_copy ctx CIPHER_WRITE_CTX w;
             Some (a\<lparr>at_pCodec := Some ctx\<rparr>, w, s) })
     else Some (po_rollback ops SQLITE_ABORT_ROLLBACK a w s))"

definition sqlite3_rekey_v2 ::
    "('e, 'p) pager_ops \<Rightarrow> 'e sqlite3 option \<Rightarrow> bytes option \<Rightarrow> bytes option \<Rightarrow> int \<Rightarrow> 'e world \<Rightarrow> 'p
       \<Rightarrow> (int \<times> 'e sqlite3 option \<times> 'e world \<times> 'p) option" where
  "sqlite3_rekey_v2 ops db zDb pKey nKey w s =
     (case db of None \<Rightarrow> Some (SQLITE_ERROR, None, w, s)
      | Some d \<Rightarrow>
          if pKey = None \<or> nKey = 0 then Some (SQLITE_ERROR, Some d, w, s)
          else do {
            let i = sqlcipher_find_db_index d zDb;
            slot \<leftarrow> load_db d i;
            case slot of None \<Rightarrow> Some (SQLITE_OK, Some d, w, s)
            | Some a \<Rightarrow>
                if sqlcipherPagerGetCodec a = None then Some (SQLITE_MISUSE, Some d, w, s)
                else do {
                  (_, d, w) \<leftarrow> codec_set_pass_key d i pKey nKey CIPHER_WRITE_CTX w;
                  slot \<leftarrow> load_db d i;
                  a \<leftarrow> slot;
                  let (rc, a, w, s) = po_begin ops a w s;
                  let n = unat (po_pagecount ops a s);
                  (a, w, s) \<leftarrow> rekey_finish ops (rekey_loop ops n 1 (rc, a, w, s));
                  Some (SQLITE_OK, Some (store_db d i a), w, s) } })"

definition sqlite3_rekey ::
    "('e, 'p) pager_ops \<Rightarrow> 'e sqlite3 option \<Rightarrow> bytes option \<Rightarrow> int \<Rightarrow> 'e world \<Rightarrow> 'p
       \<Rightarrow> (int \<times> 'e sqlite3 option \<times> 'e world \<times> 'p) option" where
  "sqlite3_rekey ops db pKey nKey w s = sqlite3_rekey_v2 ops db (Some (cstr ''main'')) pKey nKey w s"

end
