(* ===== verification/Key_Properties.thy ===== *)
theory Key_Properties
  imports Key_Derive Sample_Crypto Codec_Api
begin

text \<open>
  The properties of key derivation over the CommonCrypto provider: the derived keys are those of
  the specification, raw keys and key specifications are taken as they are, the passphrase does not
  survive.
\<close>

section \<open>A context before its first use\<close>

text \<open>The state \<open>sqlcipher_codec_ctx_init\<close> leaves: both sides hold the passphrase, no key derived yet.\<close>

definition unkeyed :: "'e codec_ctx \<Rightarrow> bytes \<Rightarrow> bool" where
  "unkeyed ctx pass \<longleftrightarrow>
     (case (ctx_read_ctx ctx, ctx_write_ctx ctx) of
        (Some rd, Some wr) \<Rightarrow> c_derive_key rd \<noteq> 0 \<and> c_derive_key wr \<noteq> 0
          \<and> c_pass rd = Some pass \<and> c_pass wr = Some pass
      | _ \<Rightarrow> False)"

lemma unkeyedE:
  assumes "unkeyed ctx pass"
  obtains rd wr where "ctx_read_ctx ctx = Some rd" "ctx_write_ctx ctx = Some wr" "c_derive_key rd \<noteq> 0"
    "c_derive_key wr \<noteq> 0" "c_pass rd = Some pass" "c_pass wr = Some pass"
  using assms by (auto simp: unkeyed_def split: option.splits)

definition sample_pass :: bytes where
  "sample_pass = cstr ''secret''"

definition sample_raw :: bytes where
  "sample_raw = cstr ''x'' @ [39] @ concat (map hex2 (replicate 32 0xab)) @ [39]"

definition sample_new :: "bytes \<Rightarrow> nat codec_ctx" where
  "sample_new pass = sample_ctx\<lparr>ctx_flags := 3,
     ctx_read_ctx := Some (sample_cipher_ctx\<lparr>c_derive_key := 1, c_pass := Some pass, c_pass_sz := int (length pass)\<rparr>),
     ctx_write_ctx := Some (sample_cipher_ctx\<lparr>c_derive_key := 1, c_pass := Some pass, c_pass_sz := int (length pass)\<rparr>)\<rparr>"

lemma sample_new_unkeyed: "unkeyed (sample_new pass) pass"
  by (simp add: unkeyed_def sample_new_def)

lemma sample_new_wf: "pass \<noteq> [] \<Longrightarrow> codec_wf sample_prov (sample_new pass)"
  by (simp add: codec_wf_def sizes_wf_def sample_new_def sample_ctx_def sample_prov_sizes round_up_def flag_get_def
      CIPHER_FLAG_HMAC_def page_size_ok_def cipher_ctx_wf_def sample_cipher_ctx_def)

definition derives_ok :: "(int \<times> 'a) option \<Rightarrow> bool" where
  "derives_ok r = (case r of Some (rc, _) \<Rightarrow> rc = 0 | None \<Rightarrow> False)"

lemma derives_okE: "derives_ok r \<Longrightarrow> (\<And>x. r = Some (0, x) \<Longrightarrow> P) \<Longrightarrow> P"
  by (auto simp: derives_ok_def split: option.splits)

lemma sample_derives: "derives_ok (sqlcipher_codec_key_derive sample_bt (sample_new sample_pass) sample_world)"
  by code_simp


section \<open>Properties\<close>

text \<open>
  C6. Key derivation refines its specification: when the first use of a context derives its keys
  successfully, the encryption key and the salt are those \<open>derive_spec\<close> gives (the raw key, the raw key
  and salt, or PBKDF2 of the passphrase with the configured algorithm and iterations), the HMAC key is
  PBKDF2 of the encryption key with the masked salt, the key specification spells key and salt, and the
  read and the write side hold the same keys.
\<close>

theorem key_derive_refines:
  assumes cc: "commoncrypto_ok cc" and p: "p = sqlcipher_cc_setup cc" and wf: "codec_wf p ctx"
    and new: "unkeyed ctx pass"
    and run: "sqlcipher_codec_key_derive bt ctx w = Some (SQLITE_OK, ctx', w')"
  shows "\<exists>key salt salt' rd wr. derive_spec p ctx salt pass = Some (key, salt')
     \<and> (flag_get (ctx_flags ctx) CIPHER_FLAG_HAS_KDF_SALT \<longrightarrow> ctx_kdf_salt ctx = Some salt)
     \<and> ctx_kdf_salt ctx' = Some salt' \<and> ctx_read_ctx ctx' = Some rd \<and> ctx_write_ctx ctx' = Some wr
     \<and> keyed_by p ctx (hmac_salt_mask w) rd key salt' \<and> keyed_by p ctx (hmac_salt_mask w) wr key salt'"
proof -
  obtain rd wr where rw: "ctx_read_ctx ctx = Some rd" "ctx_write_ctx ctx = Some wr" "c_derive_key rd \<noteq> 0"
    "c_derive_key wr \<noteq> 0" "c_pass rd = Some pass" "c_pass wr = Some pass"
    using new by (rule unkeyedE)
  have "c_pass wr = c_pass rd" using rw by simp
  from cc.codec_key_derive_fresh [OF cc wf [unfolded p] rw(1-4) this rw(5) run] show ?thesis
    unfolding p by metis
qed

theorem key_derive_refines_witness:
  "\<exists>key salt ctx' w'. sqlcipher_codec_key_derive sample_bt (sample_new sample_pass) sample_world = Some (0, ctx', w')
     \<and> p_kdf sample_prov 2 sample_pass salt 256000 32 = Some key
     \<and> map_option c_key (ctx_read_ctx ctx') = Some (Some key)"
proof -
  obtain ctx' w' where run: "sqlcipher_codec_key_derive sample_bt (sample_new sample_pass) sample_world = Some (0, ctx', w')"
    using sample_derives by (auto elim: derives_okE)
  have len: "length sample_pass = 6" by (simp add: sample_pass_def cstr_def)
  then have np: "sample_pass \<noteq> []" by auto
  have ks: "ctx_key_sz (sample_new x) = 32" "ctx_kdf_algorithm (sample_new x) = 2" "ctx_kdf_iter (sample_new x) = 256000" for x
    by (simp_all add: sample_new_def sample_ctx_def)
  from key_derive_refines [OF sample_cc_ok sample_prov_def sample_new_wf [OF np] sample_new_unkeyed run] show ?thesis
    using run len by (auto simp: keyed_by_def derive_spec_def raw_form_def ks)
qed

lemma raw_form_text:
  assumes "length key = n" "q \<in> {120, 88}"
  shows "raw_form ([q, 39] @ concat (map hex2 key) @ [e]) n"
proof -
  have "list_all is_hex_digit (concat (map hex2 key))"
    by (auto simp: list_all_iff hex2_is_hex)
  moreover have "map UpperToLower [q, 39] = map UpperToLower [120, 39]"
    using assms(2) by (auto simp: UpperToLower_def sqlite3UpperToLower_def)
  ultimately show ?thesis using assms by (simp add: raw_form_def mult.commute)
qed

text \<open>
  C7. A raw key is used as it is: for the form \<open>x'\<close> (or \<open>X'\<close>), the hexadecimal digits of as many bytes
  as the cipher's key has, and any closing character, the encryption key becomes exactly those bytes,
  whatever the salt, and no key derivation function runs.
\<close>

theorem raw_key_taken:
  assumes cc: "commoncrypto_ok cc" and wf: "codec_wf (sqlcipher_cc_setup cc) ctx"
    and c: "block_of (ctx_key_sz ctx) (c_key c)"
    and key: "int (length key) = ctx_key_sz ctx" "q \<in> {120, 88}"
    and pass: "pass = [q, 39] @ concat (map hex2 key) @ [e]" "c_pass_sz c = int (length pass)"
  shows "derive_enc_key ctx c pass = Some (SQLITE_OK, ctx, c\<lparr>c_key := Some key\<rparr>)"
proof -
  obtain salt where salt: "ctx_kdf_salt ctx = Some salt" "length salt = 16"
    using wf by (auto simp: codec_wf_def block_of_def)
  have sz: "sizes_wf (sqlcipher_cc_setup cc) ctx" using wf by (simp add: codec_wf_def)
  have k: "nat (ctx_key_sz ctx) = length key" using key(1) by linarith
  have "raw_form pass (length key)" using raw_form_text [of key "length key" q e] key pass by simp
  then have "derive_spec (sqlcipher_cc_setup cc) ctx salt pass = Some (key, salt)"
    using pass by (simp add: derive_spec_def k)
  moreover have "ctx\<lparr>ctx_kdf_salt := Some salt\<rparr> = ctx" using salt by (cases ctx) simp
  ultimately show ?thesis
    using cc.derive_enc_key_eq [OF cc sz c salt pass(2) [symmetric]] by simp
qed

theorem raw_key_taken_witness:
  "derive_enc_key sample_ctx (sample_cipher_ctx\<lparr>c_pass_sz := 67\<rparr>) sample_raw =
     Some (0, sample_ctx, sample_cipher_ctx\<lparr>c_pass_sz := 67, c_key := Some (replicate 32 0xab)\<rparr>)"
proof -
  have "sample_raw = [120, 39] @ concat (map hex2 (replicate 32 0xab)) @ [39]"
    by (simp add: sample_raw_def cstr_def)
  moreover have "length sample_raw = 67"
    using length_concat_hex2 [of "replicate 32 0xab"] by (simp add: sample_raw_def cstr_def)
  ultimately show ?thesis
    using raw_key_taken [OF sample_cc_ok sample_wf [unfolded sample_prov_def],
        of "sample_cipher_ctx\<lparr>c_pass_sz := 67\<rparr>" "replicate 32 0xab" 120 sample_raw 39]
    by (simp add: sample_ctx_def sample_cipher_ctx_def)
qed


definition sample_db :: "nat codec_ctx option \<Rightarrow> nat sqlite3" where
  "sample_db c = \<lparr> c_errCode = 0, c_nextPagesize = 0,
     c_aDb = [\<lparr> zDbSName = cstr ''main'', pBt = Some \<lparr> at_bt = sample_bt, at_pCodec = c, at_xCodecFree = (c \<noteq> None) \<rparr> \<rparr>] \<rparr>"


text \<open>
  C9. The passphrase does not survive: after a successful derivation, unless \<open>cipher_store_pass\<close> asks to
  keep it, neither side holds a passphrase any more, every block the derivation gave back to the system
  had been wiped, and a further derivation changes nothing.
\<close>

theorem passphrase_wiped:
  assumes cc: "commoncrypto_ok cc" and p: "p = sqlcipher_cc_setup cc" and wf: "codec_wf p ctx"
    and run: "sqlcipher_codec_key_derive bt ctx w = Some (SQLITE_OK, ctx', w')" and sp: "ctx_store_pass ctx \<noteq> 1"
  shows "(\<exists>rd wr. ctx_read_ctx ctx' = Some rd \<and> ctx_write_ctx ctx' = Some wr \<and> c_pass rd = None \<and> c_pass wr = None)
     \<and> (\<exists>z. w_freed w' = z @ w_freed w \<and> (\<forall>b \<in> set z. \<forall>x \<in> set b. x = 0))
     \<and> sqlcipher_codec_key_derive bt ctx' w' = Some (SQLITE_OK, ctx', w')"
proof (rule cc.codec_key_derive_step [OF cc wf [unfolded p], of bt w])
  fix c v
  assume a: "sqlcipher_codec_key_derive bt ctx w = Some (0, c, v)" "mem_step w v" "same_codec ctx c" "keys_ready c"
  have e: "c = ctx'" "v = w'" using a(1) run by simp_all
  have "ctx_store_pass ctx' = ctx_store_pass ctx" using a(3) e settings_fields(11) by (auto simp: same_codec_def)
  then show ?thesis
    using a sp e key_derive_ready [of ctx' bt w'] by (auto simp: keys_ready_def mem_step_def subset_iff)
next
  fix c v
  assume "sqlcipher_codec_key_derive bt ctx w = Some (1, c, v)"
  then show ?thesis using run by simp
qed

theorem passphrase_wiped_witness:
  "\<exists>ctx' w' rd. sqlcipher_codec_key_derive sample_bt (sample_new sample_pass) sample_world = Some (0, ctx', w')
     \<and> ctx_read_ctx ctx' = Some rd \<and> c_pass rd = None"
proof -
  obtain ctx' w' where run: "sqlcipher_codec_key_derive sample_bt (sample_new sample_pass) sample_world = Some (0, ctx', w')"
    using sample_derives by (auto elim: derives_okE)
  have np: "sample_pass \<noteq> []" by (simp add: sample_pass_def cstr_def)
  have "ctx_store_pass (sample_new sample_pass) \<noteq> 1" by (simp add: sample_new_def sample_ctx_def)
  from passphrase_wiped [OF sample_cc_ok sample_prov_def sample_new_wf [OF np] run this] run show ?thesis by blast
qed

end
