(* ===== verification/Api_Properties.thy ===== *)
theory Api_Properties
  imports Key_Properties
begin

text \<open>
  The properties of the connection level: what attaching a codec establishes and what a failing
  attach leaves, and what changing the key does page by page.
\<close>

section \<open>Attaching\<close>

text \<open>An open database as the attach finds it: a codec that is there is well formed and has the
  callback to free it.\<close>

definition attached_wf :: "'e sqlcipher_provider \<Rightarrow> 'e attached \<Rightarrow> bool" where
  "attached_wf p a \<longleftrightarrow> (case at_pCodec a of None \<Rightarrow> \<not> at_xCodecFree a | Some ctx \<Rightarrow> at_xCodecFree a \<and> codec_wf p ctx)"

lemma free_codec_arg_step:
  assumes "attached_wf p a"
  obtains w' where "sqlite3FreeCodecArg (at_pCodec a) w = Some w'"
proof (cases "at_pCodec a")
  case (Some ctx)
  then obtain v where "sqlcipher_codec_ctx_free ctx w = Some v"
    using assms codec_ctx_free_step [of p ctx w] by (auto simp: attached_wf_def)
  with Some show thesis by (intro that) (simp add: sqlite3FreeCodecArg_def)
qed (use that in \<open>simp add: sqlite3FreeCodecArg_def\<close>)

lemma set_codec_step:
  assumes "attached_wf p a"
  obtains a' w' where "sqlcipherPagerSetCodec a ctx w = Some (a', w')" "at_pCodec a' = Some ctx" "at_xCodecFree a'"
    "pg_hasCodec (at_bt a') = (\<not> pg_memDb (at_bt a))" "pg_memDb (at_bt a') = pg_memDb (at_bt a)"
    "pg_fd (at_bt a') = pg_fd (at_bt a)"
proof -
  obtain bt v where bt: "sqlcipherPagerSetCodec a ctx w =
      Some (\<lparr>at_bt = setGetterMethod (bt\<lparr>pg_hasCodec := \<not> pg_memDb bt\<rparr>), at_pCodec = Some ctx, at_xCodecFree = True\<rparr>, v)"
    "bt = at_bt a \<or> bt = pager_reset (at_bt a)"
  proof (cases "at_xCodecFree a")
    case True
    obtain v where "sqlite3FreeCodecArg (at_pCodec a) w = Some v" using assms by (rule free_codec_arg_step)
    with True show thesis by (intro that [of "at_bt a" v]) (simp_all add: sqlcipherPagerSetCodec_def)
  next
    case False
    then show thesis by (intro that [of "pager_reset (at_bt a)" w]) (simp_all add: sqlcipherPagerSetCodec_def)
  qed
  then show thesis by (intro that [OF bt(1)]) (auto simp: setGetterMethod_def pager_reset_def)
qed

lemma fix_maplimit_frame [simp]:
  "bt_btsFlags (pagerFixMaplimit bt) = bt_btsFlags bt" "pg_hasCodec (pagerFixMaplimit bt) = pg_hasCodec bt"
  "bt_pageSize (pagerFixMaplimit bt) = bt_pageSize bt" "pg_pageSize (pagerFixMaplimit bt) = pg_pageSize bt"
  by (simp_all add: pagerFixMaplimit_def setGetterMethod_def)

lemma pager_set_pagesize_frame:
  assumes "sqlite3PagerSetPagesize bt n w = (rc, bt', w')"
  shows "bt_btsFlags bt' = bt_btsFlags bt" "pg_hasCodec bt' = pg_hasCodec bt" "bt_pageSize bt' = pg_pageSize bt'"
  using assms
  by (auto simp: sqlite3PagerSetPagesize_def Let_def pager_reset_def split: if_splits prod.splits)

lemma usable_frame:
  "b = (c :: btree)\<lparr>bt_usableSize := u\<rparr> \<Longrightarrow> bt_btsFlags b = bt_btsFlags c \<and> pg_hasCodec b = pg_hasCodec c"
  by simp

lemma btree_set_pagesize_frame:
  assumes "sqlite3BtreeSetPageSize bt sz n False w = (rc, bt', w')" "bt_btsFlags bt AND BTS_PAGESIZE_FIXED = 0"
  shows "bt_btsFlags bt' = bt_btsFlags bt" "pg_hasCodec bt' = pg_hasCodec bt"
proof -
  obtain b m r c v where p: "sqlite3PagerSetPagesize b m w = (r, c, v)"
    and b: "bt_btsFlags b = bt_btsFlags bt" "pg_hasCodec b = pg_hasCodec bt"
    and c: "bt_btsFlags bt' = bt_btsFlags c" "pg_hasCodec bt' = pg_hasCodec c"
  proof (rule that)
    let ?x = "bt_pageSize bt - bt_usableSize bt"
    let ?m = "if n < ?x then ?x else n"
    let ?bt = "bt\<lparr>bt_nReserveWanted := n mod 256\<rparr>"
    let ?b = "if 512 \<le> sz \<and> sz \<le> 65536 \<and> (sz - 1) AND sz = 0
      then ?bt\<lparr>bt_pageSize := (if ?m > 32 \<and> sz = 512 then 1024 else sz)\<rparr> else ?bt"
    let ?r = "sqlite3PagerSetPagesize ?b ?m w"
    show "?r = (fst ?r, fst (snd ?r), snd (snd ?r))" by simp
    show "bt_btsFlags ?b = bt_btsFlags bt" "pg_hasCodec ?b = pg_hasCodec bt" by simp_all
    have "sqlite3BtreeSetPageSize bt sz n False w =
        (fst ?r, (fst (snd ?r))\<lparr>bt_usableSize := bt_pageSize (fst (snd ?r)) - ?m mod 65536\<rparr>, snd (snd ?r))"
      using assms(2) by (simp add: sqlite3BtreeSetPageSize_def Let_def case_prod_unfold split del: if_split cong: if_cong)
    then have "bt' = (fst (snd ?r))\<lparr>bt_usableSize := bt_pageSize (fst (snd ?r)) - ?m mod 65536\<rparr>"
      unfolding assms(1) by simp
    from usable_frame [OF this] show "bt_btsFlags bt' = bt_btsFlags (fst (snd ?r))" "pg_hasCodec bt' = pg_hasCodec (fst (snd ?r))"
      by blast+
  qed
  then show "bt_btsFlags bt' = bt_btsFlags bt" "pg_hasCodec bt' = pg_hasCodec bt"
    using pager_set_pagesize_frame [OF p] by simp_all
qed

lemma set_btree_pagesize_frame:
  assumes "codec_set_btree_to_codec_pagesize bt ctx w = (rc, bt', w')"
  shows "bt_btsFlags bt' = bt_btsFlags bt AND NOT BTS_PAGESIZE_FIXED" "pg_hasCodec bt' = pg_hasCodec bt"
proof -
  have "(bt_btsFlags bt AND NOT BTS_PAGESIZE_FIXED) AND BTS_PAGESIZE_FIXED = 0"
    by (simp add: bit_eq_iff bit_simps)
  then show "bt_btsFlags bt' = bt_btsFlags bt AND NOT BTS_PAGESIZE_FIXED" "pg_hasCodec bt' = pg_hasCodec bt"
    using btree_set_pagesize_frame [OF assms [unfolded codec_set_btree_to_codec_pagesize_def]] by simp_all
qed

lemma secure_delete_set:
  assumes "sqlite3BtreeSecureDelete bt 1 = (r, bt')"
  shows "fst (sqlite3BtreeSecureDelete bt' (-1)) = 1"
    "bt_btsFlags bt' AND BTS_PAGESIZE_FIXED = bt_btsFlags bt AND BTS_PAGESIZE_FIXED"
    "pg_hasCodec bt' = pg_hasCodec bt"
proof -
  have f: "bt_btsFlags bt' = (bt_btsFlags bt AND NOT 12) OR 4" and h: "pg_hasCodec bt' = pg_hasCodec bt"
    using assms by (auto simp: sqlite3BtreeSecureDelete_def BTS_FAST_SECURE_def BTS_SECURE_DELETE_def)
  have "((x AND NOT 12) OR 4) AND 12 = (4 :: u16)" for x
    by (simp add: bit.conj_disj_distrib2 and.assoc)
  then show "fst (sqlite3BtreeSecureDelete bt' (-1)) = 1"
    using f by (simp add: sqlite3BtreeSecureDelete_def BTS_FAST_SECURE_def BTS_SECURE_DELETE_def)
  have "((x AND NOT 12) OR 4) AND 2 = x AND (2 :: u16)" for x
    by (simp add: bit.conj_disj_distrib2 and.assoc)
  then show "bt_btsFlags bt' AND BTS_PAGESIZE_FIXED = bt_btsFlags bt AND BTS_PAGESIZE_FIXED"
    using f by (simp add: BTS_PAGESIZE_FIXED_def)
qed (use assms in \<open>auto simp: sqlite3BtreeSecureDelete_def\<close>)


lemma auto_vacuum_off:
  assumes "sqlite3BtreeSetAutoVacuum bt 0 = (r, bt')" "bt_btsFlags bt AND BTS_PAGESIZE_FIXED = 0"
  shows "sqlite3BtreeGetAutoVacuum bt' = 0" "bt_btsFlags bt' = bt_btsFlags bt" "pg_hasCodec bt' = pg_hasCodec bt"
  using assms by (auto simp: sqlite3BtreeSetAutoVacuum_def sqlite3BtreeGetAutoVacuum_def)

lemma secure_delete_flags: "bt_btsFlags a = bt_btsFlags b \<Longrightarrow>
    fst (sqlite3BtreeSecureDelete a (-1)) = fst (sqlite3BtreeSecureDelete b (-1))"
  by (simp add: sqlite3BtreeSecureDelete_def)

text \<open>What the b-tree is like once the codec is attached.\<close>

definition codec_attached :: "btree \<Rightarrow> btree \<Rightarrow> bool" where
  "codec_attached bt bt' \<longleftrightarrow> pg_hasCodec bt' = (\<not> pg_memDb bt)
     \<and> fst (sqlite3BtreeSecureDelete bt' (-1)) = 1
     \<and> (pg_fd bt \<noteq> None \<longrightarrow> sqlite3BtreeGetAutoVacuum bt' = 0)"

lemma attach_finish_step:
  assumes a: "attached_wf p a"
  obtains a' w' where "attach_finish (pg_fd (at_bt a)) a ctx w = Some (SQLITE_OK, a', w')"
    "at_pCodec a' = Some ctx" "at_xCodecFree a'" "codec_attached (at_bt a) (at_bt a')"
proof (rule set_codec_step [OF a, of ctx w])
  fix a1 w1
  assume 1: "sqlcipherPagerSetCodec a ctx w = Some (a1, w1)" "at_pCodec a1 = Some ctx" "at_xCodecFree a1"
    "pg_hasCodec (at_bt a1) = (\<not> pg_memDb (at_bt a))"
  obtain r2 b2 w2 where 2: "codec_set_btree_to_codec_pagesize (at_bt a1) ctx w1 = (r2, b2, w2)"
    using prod_cases3 by blast
  obtain r3 b3 where 3: "sqlite3BtreeSecureDelete b2 1 = (r3, b3)" by fastforce
  obtain r4 b4 where 4: "sqlite3BtreeSetAutoVacuum b3 0 = (r4, b4)" by fastforce
  note f2 = set_btree_pagesize_frame [OF 2] and f3 = secure_delete_set [OF 3]
  have "bt_btsFlags b2 AND BTS_PAGESIZE_FIXED = 0" unfolding f2 by (simp add: bit_eq_iff bit_simps)
  then have "bt_btsFlags b3 AND BTS_PAGESIZE_FIXED = 0" using f3(2) by simp
  note f4 = auto_vacuum_off [OF 4 this]
  let ?b = "if pg_fd (at_bt a) \<noteq> None then b4 else b3"
  have "codec_attached (at_bt a) ?b"
    using f2(2) f3 f4 1(4) secure_delete_flags [OF f4(2)] by (auto simp: codec_attached_def)
  then show thesis
    using 1 2 3 4 by (intro that [of "a1\<lparr>at_bt := ?b\<rparr>" w2]) (simp_all add: attach_finish_def Let_def)
qed

lemma load_store:
  assumes "load_db db i = Some x"
  shows "load_db (store_db db i a) i = Some (Some a)"
  using assms by (auto simp: load_db_def store_db_def split: if_splits)

text \<open>No request of a legal size fails.\<close>

definition memory_ok :: "'e world \<Rightarrow> bool" where
  "memory_ok w \<longleftrightarrow> (\<forall>i. w_alloc_ok w i)"

lemma activate_settings:
  assumes "sqlcipher_activate p w = Some w'"
  shows "default_page_size w' = default_page_size w" "default_flags w' = default_flags w"
    "default_hmac_algorithm w' = default_hmac_algorithm w"
    "default_plaintext_header_size w' = default_plaintext_header_size w" "w_alloc_ok w' = w_alloc_ok w"
  using assms
  by (auto simp: sqlcipher_activate_def sqlcipher_get_provider_def sqlcipher_register_provider_def
      sqlcipher_malloc_def sqlite3Malloc_def sqlcipher_mem_malloc_def Let_def
      split: if_splits option.splits prod.splits)

lemma activate_defined: "memory_ok w \<Longrightarrow> sqlcipher_activate p w \<noteq> None"
  by (simp add: sqlcipher_activate_def sqlcipher_malloc_def sqlite3Malloc_def sqlcipher_mem_malloc_def
      sizeof_provider_def memory_ok_def Let_def)

lemma activate_ok:
  assumes "memory_ok w" "default_provider w \<in> {None, Some p}"
  obtains w' where "sqlcipher_activate p w = Some w'" "default_provider w' = Some p" "memory_ok w'"
    "default_settings_ok p w' = default_settings_ok p w"
proof -
  obtain w' where w': "sqlcipher_activate p w = Some w'" using activate_defined [OF assms(1)] by blast
  show thesis
    using assms activate_settings [OF w'] activate_frame(2) [OF w']
    by (intro that [OF w']) (auto simp: memory_ok_def default_settings_ok_def split: option.splits)
qed

lemma init_memory_ok:
  assumes "memory_ok w" "provider_sizes p" "default_settings_ok p w" "0 < n" "n \<le> 2147483391" "m \<in> init_sizes p w n"
  shows "\<not> may_fail w m"
  using assms
  by (auto simp: may_fail_def memory_ok_def init_sizes_def sizeof_codec_ctx_def sizeof_provider_def
      sizeof_cipher_ctx_def provider_sizes_def default_settings_ok_def page_size_ok_def)

lemma opened_unkeyed:
  assumes "0 < n"
  shows "unkeyed (opened_ctx p w (Some z) n) (take (nat n) z)"
  using assms by (simp add: unkeyed_def opened_ctx_def keyed_cipher_ctx_def pass_of_def)

text \<open>
  C10. Attaching a key works whenever memory lasts and the defaults are sane: on an open database whose
  codec, if it has one, has not been used, \<open>sqlcipherCodecAttach\<close> succeeds and leaves a well-formed
  context that holds the key as a passphrase still to be derived on both sides; the pager runs pages
  through it (unless the database is in memory), secure delete is on, and a database with a file has
  auto-vacuum off.
\<close>

theorem attach_establishes:
  assumes cc: "commoncrypto_ok cc" and p: "p = sqlcipher_cc_setup cc"
    and db: "load_db db i = Some (Some a)" "attached_wf p a"
    and unused: "\<And>ctx. at_pCodec a = Some ctx \<Longrightarrow> \<not> flag_get (ctx_flags ctx) CIPHER_FLAG_KEY_USED"
    and w: "memory_ok w" "default_provider w \<in> {None, Some p}" "default_settings_ok p w"
    and key: "0 < n" "n \<le> int (length z)" "n \<le> 2147483391"
  shows "\<exists>db' w' a' ctx. sqlcipherCodecAttach p db i (Some z) n w = Some (SQLITE_OK, db', w')
     \<and> load_db db' i = Some (Some a') \<and> sqlcipherPagerGetCodec a' = Some ctx \<and> codec_wf p ctx \<and> header_fits ctx
     \<and> unkeyed ctx (take (nat n) z) \<and> attached_wf p a' \<and> codec_attached (at_bt a) (at_bt a')"
proof -
  have sz: "provider_sizes p" using cc.sizes_ok [OF cc] p by simp
  have pi: "p_ctx_init p = 0" by (simp add: p sqlcipher_cc_setup_def sqlcipher_cc_ctx_init_def)
  obtain w1 where w1: "sqlcipher_activate p w = Some w1" "default_provider w1 = Some p" "memory_ok w1"
    "default_settings_ok p w1 = default_settings_ok p w"
    using w(1,2) by (rule activate_ok)
  have ka: "key_arg_ok (Some z) n" using key by (simp add: key_arg_ok_def)
  have nf: "\<not> may_fail w1 m" if "m \<in> init_sizes p w1 n" for m
    using init_memory_ok [OF w1(3) sz _ key(1,3) that] w1(4) w(3) by simp
  let ?ctx = "opened_ctx p w1 (Some z) n"
  obtain w2 where 2: "sqlcipher_codec_ctx_init (Some z) n w1 = Some (0, Some ?ctx, w2)" "codec_wf p ?ctx" "header_fits ?ctx"
    by (rule codec_ctx_init_step [OF w1(2) pi sz ka]) (use nf w1(4) w(3) in blast)+
  obtain a' w' where 3: "attach_finish (pg_fd (at_bt a)) a ?ctx w2 = Some (0, a', w')"
    "at_pCodec a' = Some ?ctx" "at_xCodecFree a'" "codec_attached (at_bt a) (at_bt a')"
    by (rule attach_finish_step [OF db(2)])
  have "attach_codec p a (Some z) n w = Some (0, a', w')"
    using w1(1) 2(1) 3(1) by (simp add: attach_codec_def Let_def)
  moreover have "\<not> (case sqlcipherPagerGetCodec a of None \<Rightarrow> False | Some ctx \<Rightarrow> flag_get (ctx_flags ctx) CIPHER_FLAG_KEY_USED)"
    using unused by (auto simp: sqlcipherPagerGetCodec_def split: option.splits)
  ultimately have run: "sqlcipherCodecAttach p db i (Some z) n w = Some (0, store_db db i a', w')"
    using db(1) key(1) by (simp add: sqlcipherCodecAttach_def)
  have "sqlcipherPagerGetCodec a' = Some ?ctx" "attached_wf p a'"
    using 2(2) 3 by (simp_all add: sqlcipherPagerGetCodec_def attached_wf_def)
  with run 2(2,3) 3(4) opened_unkeyed [OF key(1)] load_store [OF db(1)] show ?thesis by blast
qed


lemma sample_world_ok:
  "memory_ok sample_world" "default_provider sample_world = Some sample_prov" "default_settings_ok sample_prov sample_world"
  by (simp_all add: memory_ok_def sample_world_def initial_world_def default_settings_ok_def reserve_for_def
      sample_prov_sizes round_up_def page_size_ok_def)

theorem attach_establishes_witness:
  "\<exists>db' w' ctx. sqlcipherCodecAttach sample_prov (sample_db None) 0 (Some sample_pass) 6 sample_world = Some (0, db', w')
     \<and> codec_wf sample_prov ctx \<and> unkeyed ctx sample_pass"
proof -
  have len: "length sample_pass = 6" by (simp add: sample_pass_def cstr_def)
  obtain a where a: "load_db (sample_db None) 0 = Some (Some a)" "attached_wf sample_prov a" "at_pCodec a = None"
    by (simp add: load_db_def sample_db_def attached_wf_def)
  show ?thesis
    using attach_establishes [OF sample_cc_ok sample_prov_def a(1,2) _ sample_world_ok(1) _ sample_world_ok(3), of 6 sample_pass]
      a(3) len sample_world_ok(2) by auto
qed

text \<open>
  C11. A failing attach hands out no half-built context: whenever \<open>sqlcipherCodecAttach\<close> returns an error
  code, the pager keeps the codec it had, the database goes into the pager error state with that code,
  so that every later page request fails, and the connection reports the code.
\<close>

theorem attach_failure_isolated:
  assumes db: "load_db db i = Some (Some a)"
    and run: "sqlcipherCodecAttach cc_table db i zKey nKey w = Some (rc, db', w')" "rc \<noteq> SQLITE_OK"
  shows "\<exists>a'. load_db db' i = Some (Some a') \<and> sqlcipherPagerGetCodec a' = sqlcipherPagerGetCodec a
     \<and> pg_errCode (at_bt a') = rc \<and> pg_eState (at_bt a') = PAGER_ERROR \<and> pg_xGet (at_bt a') = getPageError
     \<and> c_errCode db' = rc"
proof -
  obtain a' where a': "attach_codec cc_table a zKey nKey w = Some (rc, a', w')" "db' = store_db db i a'"
    using db run by (auto simp: sqlcipherCodecAttach_def split: if_splits bind_splits option.splits)
  then have "a' = a\<lparr>at_bt := (sqlite3pager_error (at_bt a) rc)\<lparr>db_errCode := rc\<rparr>\<rparr>"
    using run(2) by (auto simp: attach_codec_def attach_finish_def Let_def split: if_splits bind_splits prod.splits option.splits)
  then show ?thesis
    using a' run(2) load_store [OF db, of a'] by (auto simp: sqlcipherPagerGetCodec_def store_db_def)
qed

theorem attach_failure_isolated_witness:
  "\<exists>db' w' a'. sqlcipherCodecAttach sample_prov (sample_db None) 0 (Some sample_pass) 6
       (sample_world\<lparr>w_alloc_ok := (\<lambda>i. i \<noteq> 0)\<rparr>) = Some (SQLITE_NOMEM, db', w')
     \<and> load_db db' 0 = Some (Some a') \<and> at_pCodec a' = None \<and> pg_xGet (at_bt a') = getPageError"
proof -
  let ?w = "sample_world\<lparr>w_alloc_ok := (\<lambda>i. i \<noteq> 0)\<rparr>"
  obtain a where a: "load_db (sample_db None) 0 = Some (Some a)" "at_pCodec a = None"
    by (simp add: load_db_def sample_db_def)
  obtain w1 where w1: "sqlcipher_activate sample_prov ?w = Some w1" "w_alloc_ok w1 = (\<lambda>i. i \<noteq> 0)" "w_nalloc w1 = 0"
    by (simp add: sqlcipher_activate_def sqlcipher_get_provider_def sample_world_def initial_world_def)
  obtain db' w' where run: "sqlcipherCodecAttach sample_prov (sample_db None) 0 (Some sample_pass) 6 ?w = Some (7, db', w')"
    using a w1 by (simp add: sqlcipherCodecAttach_def sqlcipherPagerGetCodec_def attach_codec_def Let_def
        sqlcipher_codec_ctx_init_def sqlcipher_malloc_def sqlite3Malloc_def sqlcipher_mem_malloc_def sizeof_codec_ctx_def)
  show ?thesis
    using attach_failure_isolated [OF a(1) run] run a(2) by (auto simp: sqlcipherPagerGetCodec_def)
qed


section \<open>Changing the key\<close>

text \<open>The calls of \<open>sqlite3_rekey_v2\<close> into the transaction machinery, recorded next to its state.\<close>

datatype rekey_event = Ev_begin | Ev_get u32 | Ev_write u32 | Ev_unref u32 | Ev_commit | Ev_rollback

definition traced :: "('e, 'p) pager_ops \<Rightarrow> ('e, 'p \<times> rekey_event list) pager_ops" where
  "traced ops =
     \<lparr> po_begin = (\<lambda>a w (s, t). case po_begin ops a w s of (rc, a, w, s) \<Rightarrow> (rc, a, w, s, t @ [Ev_begin])),
       po_pagecount = (\<lambda>a (s, t). po_pagecount ops a s),
       po_get = (\<lambda>n a w (s, t). case po_get ops n a w s of (rc, a, w, s) \<Rightarrow> (rc, a, w, s, t @ [Ev_get n])),
       po_write = (\<lambda>n a w (s, t). case po_write ops n a w s of (rc, a, w, s) \<Rightarrow> (rc, a, w, s, t @ [Ev_write n])),
       po_unref = (\<lambda>n a w (s, t). case po_unref ops n a w s of (a, w, s) \<Rightarrow> (a, w, s, t @ [Ev_unref n])),
       po_commit = (\<lambda>a w (s, t). case po_commit ops a w s of (rc, a, w, s) \<Rightarrow> (rc, a, w, s, t @ [Ev_commit])),
       po_rollback = (\<lambda>e a w (s, t). case po_rollback ops e a w s of (a, w, s) \<Rightarrow> (a, w, s, t @ [Ev_rollback])) \<rparr>"

text \<open>The machinery does not move the lock page, which only a change of the page size does.\<close>

definition lck_stable :: "('e, 'p) pager_ops \<Rightarrow> u32 \<Rightarrow> bool" where
  "lck_stable ops lck \<longleftrightarrow> (\<forall>n a w s. pg_lckPgno (at_bt a) = lck \<longrightarrow>
       (\<forall>rc a' w' s'. po_begin ops a w s = (rc, a', w', s') \<longrightarrow> pg_lckPgno (at_bt a') = lck)
     \<and> (\<forall>rc a' w' s'. po_get ops n a w s = (rc, a', w', s') \<longrightarrow> pg_lckPgno (at_bt a') = lck)
     \<and> (\<forall>rc a' w' s'. po_write ops n a w s = (rc, a', w', s') \<longrightarrow> pg_lckPgno (at_bt a') = lck)
     \<and> (\<forall>a' w' s'. po_unref ops n a w s = (a', w', s') \<longrightarrow> pg_lckPgno (at_bt a') = lck))"

lemma lck_stableD:
  assumes "lck_stable ops lck" "pg_lckPgno (at_bt a) = lck"
  shows "po_begin ops a w s = (rc, a', w', s') \<Longrightarrow> pg_lckPgno (at_bt a') = lck"
    "po_get ops n a w s = (rc, a', w', s') \<Longrightarrow> pg_lckPgno (at_bt a') = lck"
    "po_write ops n a w s = (rc, a', w', s') \<Longrightarrow> pg_lckPgno (at_bt a') = lck"
    "po_unref ops n a w s = (a', w', s') \<Longrightarrow> pg_lckPgno (at_bt a') = lck"
  using assms(1) [unfolded lck_stable_def, rule_format, OF assms(2)] by blast+

definition page_events :: "u32 \<Rightarrow> u32 \<Rightarrow> rekey_event list" where
  "page_events lck n = (if n = lck then [] else [Ev_get n, Ev_write n, Ev_unref n])"

text \<open>The calls for the \<open>k\<close> pages from \<open>n\<close> on.\<close>

fun pages_events :: "u32 \<Rightarrow> u32 \<Rightarrow> nat \<Rightarrow> rekey_event list" where
  "pages_events lck n 0 = []"
| "pages_events lck n (Suc k) = page_events lck n @ pages_events lck (n + 1) k"

lemma rekey_page_trace:
  assumes st: "lck_stable ops lck" "pg_lckPgno (at_bt a) = lck"
    and run: "rekey_page (traced ops) n a w (s, t) = (rc, a', w', s', t')"
  shows "pg_lckPgno (at_bt a') = lck \<and>
    (if rc = 0 then t' = t @ page_events lck n
     else n \<noteq> lck \<and> (t' = t @ [Ev_get n] \<or> t' = t @ [Ev_get n, Ev_write n]))"
proof (cases "n = lck")
  case True
  then show ?thesis using run st(2) by (auto simp: rekey_page_def sqlite3pager_is_sj_pgno_def page_events_def)
next
  case False
  obtain r1 a1 w1 s1 where 1: "po_get ops n a w s = (r1, a1, w1, s1)" using prod_cases4 by blast
  obtain r2 a2 w2 s2 where 2: "po_write ops n a1 w1 s1 = (r2, a2, w2, s2)" using prod_cases4 by blast
  obtain a3 w3 s3 where 3: "po_unref ops n a2 w2 s2 = (a3, w3, s3)" using prod_cases3 by blast
  note l1 = lck_stableD(2) [OF st 1]
  note l2 = lck_stableD(3) [OF st(1) l1 2]
  note l = l1 l2 lck_stableD(4) [OF st(1) l2 3]
  show ?thesis
    using run False st(2) l
    by (auto simp: rekey_page_def sqlite3pager_is_sj_pgno_def traced_def 1 2 3 page_events_def split: if_splits)
qed

lemma rekey_loop_trace:
  assumes "lck_stable ops lck" "pg_lckPgno (at_bt a) = lck"
    and "rekey_loop (traced ops) k n (0, a, w, s, t) = (rc, a', w', s', t')"
  shows "if rc = 0 then t' = t @ pages_events lck n k
     else (\<exists>j < k. \<exists>e. t' = t @ pages_events lck n j @ e \<and> n + of_nat j \<noteq> lck
             \<and> (e = [Ev_get (n + of_nat j)] \<or> e = [Ev_get (n + of_nat j), Ev_write (n + of_nat j)]))"
  using assms(2,3)
proof (induction k arbitrary: n a w s t)
  case 0
  then show ?case by simp
next
  case (Suc k)
  obtain r1 a1 w1 s1 t1 where 1: "rekey_page (traced ops) n a w (s, t) = (r1, a1, w1, s1, t1)"
    using prod_cases5 by blast
  note pg = rekey_page_trace [OF assms(1) Suc.prems(1) 1]
  show ?case
  proof (cases "r1 = 0")
    case True
    have "rekey_loop (traced ops) k (n + 1) (0, a1, w1, s1, t1) = (rc, a', w', s', t')"
      using Suc.prems(2) 1 True by simp
    from Suc.IH [OF _ this] pg True show ?thesis
      by (auto simp: page_events_def algebra_simps split: if_splits)
  next
    case False
    have "rekey_loop (traced ops) k (n + 1) (r1, a1, w1, s1, t1) = (r1, a1, w1, s1, t1)"
      using False by (cases k) auto
    then have e: "rc = r1" "t' = t1" using Suc.prems(2) 1 by simp_all
    show ?thesis using e pg False by (auto intro!: exI [of _ 0])
  qed
qed


text \<open>The calls made by a change of the key over \<open>count\<close> pages: all of them and a commit, or a part
  that ends at the first failure (the transaction did not start, a page could not be read, or read
  but not written) and a rollback.\<close>

definition rekey_complete :: "u32 \<Rightarrow> nat \<Rightarrow> rekey_event list \<Rightarrow> bool" where
  "rekey_complete lck count t \<longleftrightarrow> t = Ev_begin # pages_events lck 1 count @ [Ev_commit]"

definition rekey_aborted :: "u32 \<Rightarrow> nat \<Rightarrow> rekey_event list \<Rightarrow> bool" where
  "rekey_aborted lck count t \<longleftrightarrow> t = [Ev_begin, Ev_rollback]
     \<or> (\<exists>j < count. \<exists>e. t = Ev_begin # pages_events lck 1 j @ e @ [Ev_rollback] \<and> 1 + of_nat j \<noteq> lck
          \<and> (e = [Ev_get (1 + of_nat j)] \<or> e = [Ev_get (1 + of_nat j), Ev_write (1 + of_nat j)]))"

lemma rekey_loop_failed: "rc \<noteq> 0 \<Longrightarrow> rekey_loop ops k n (rc, st) = (rc, st)"
  by (cases k; cases st) auto

lemma rekey_finish_trace:
  assumes "rekey_finish (traced ops) (rc, a, w, s, t) = Some (a', w', s', t')"
  shows "t' = t @ [if rc = 0 then Ev_commit else Ev_rollback]"
  using assms by (auto simp: rekey_finish_def traced_def split: if_splits prod.splits bind_splits)


text \<open>A page cache of three pages in which page 2 cannot be written.\<close>

definition sample_ops :: "(nat, unit) pager_ops" where
  "sample_ops =
     \<lparr> po_begin = (\<lambda>a w s. (0, a, w, s)), po_pagecount = (\<lambda>a s. 3), po_get = (\<lambda>n a w s. (0, a, w, s)),
       po_write = (\<lambda>n a w s. (if n = 2 then 10 else 0, a, w, s)), po_unref = (\<lambda>n a w s. (a, w, s)),
       po_commit = (\<lambda>a w s. (0, a, w, s)), po_rollback = (\<lambda>e a w s. (a, w, s)) \<rparr>"

lemma sample_ops_stable: "lck_stable sample_ops lck"
  by (simp add: lck_stable_def sample_ops_def)

lemma sample_rekey_fields:
  "sqlcipher_find_db_index (sample_db c) None = 0"
  "load_db (sample_db c) 0 = Some (Some \<lparr> at_bt = sample_bt, at_pCodec = c, at_xCodecFree = (c \<noteq> None) \<rparr>)"
  by (simp_all add: sqlcipher_find_db_index_def sample_db_def load_db_def sample_bt_def)




end
