(* ===== verification/Integrity.thy ===== *)
theory Integrity
  imports Codec_Api
begin

text \<open>
  \<open>PRAGMA cipher_integrity_check\<close> (\<open>sqlcipher_codec_ctx_integrity_check\<close>): every page of the file is read
  straight from disk and its authentication code recomputed.  The result rows are collected in
  order; \<open>sqlite3_mprintf\<close> is taken not to run out of memory.
\<close>

section \<open>Definitions\<close>

text \<open>\<open>i64 offset = (page - 1) * ctx->page_sz\<close>: both operands are 32 bits wide, so the product is taken
  modulo \<open>2 ^ 32\<close> before it is widened.\<close>

definition integrity_offset :: "u32 \<Rightarrow> int \<Rightarrow> int" where
  "integrity_offset page page_sz = uint ((page - 1) * word_of_int page_sz)"

text \<open>\<open>%d\<close> of an unsigned or 64-bit argument prints its low 32 bits as a signed number.\<close>

definition fmt_u :: "u32 \<Rightarrow> bytes" where
  "fmt_u n = fmt_d (sint n)"

definition read_error_msg :: "int \<Rightarrow> u32 \<Rightarrow> int \<Rightarrow> bytes" where
  "read_error_msg read_sz page offset =
     cstr ''error reading '' @ fmt_d read_sz @ cstr '' bytes from file page '' @ fmt_u page
       @ cstr '' at offset '' @ fmt_d (signed_take_bit 31 offset)"

definition hmac_failed_msg :: "u32 \<Rightarrow> bytes" where
  "hmac_failed_msg page = cstr ''HMAC operation failed for page '' @ fmt_u page"

definition hmac_wrong_msg :: "u32 \<Rightarrow> bytes" where
  "hmac_wrong_msg page = cstr ''HMAC verification failed for page '' @ fmt_u page"

definition size_msg :: "u32 \<Rightarrow> int \<Rightarrow> int \<Rightarrow> bytes" where
  "size_msg page rest page_sz =
     cstr ''page '' @ fmt_u page @ cstr '' has an invalid size of '' @ fmt_d rest
       @ cstr '' bytes (expected '' @ fmt_d page_sz @ cstr '' bytes)''"

text \<open>One page: the row it adds, if any, and the page buffer.  \<open>hmac_out\<close> is the block for the code,
  null when it could not be allocated.\<close>

definition integrity_page ::
    "btree \<Rightarrow> 'e codec_ctx \<Rightarrow> os_file \<Rightarrow> bytes option \<Rightarrow> u32 \<Rightarrow> (bytes option \<times> 'e codec_ctx) option" where
  "integrity_page bt ctx fd hmac_out page =
     (if sqlite3pager_is_sj_pgno bt page then Some (None, ctx)
      else do {
        let page1_offset = (if page = 1 then (if ctx_plaintext_header_sz ctx \<noteq> 0 then ctx_plaintext_header_sz ctx
                                              else FILE_HEADER_SZ) else 0);
        let offset = integrity_offset page (ctx_page_sz ctx) + page1_offset;
        let payload_sz = ctx_page_sz ctx - ctx_reserve_sz ctx + ctx_iv_sz ctx - page1_offset;
        let read_sz = ctx_page_sz ctx - page1_offset;
        buffer \<leftarrow> ctx_buffer ctx;
        buffer \<leftarrow> fill buffer 0 0 (ctx_page_sz ctx);
        (rc, buffer) \<leftarrow> sqlite3OsRead fd buffer read_sz offset;
        let ctx = ctx\<lparr>ctx_buffer := Some buffer\<rparr>;
        if rc \<noteq> SQLITE_OK then Some (Some (read_error_msg read_sz page offset), ctx)
        else do {
          rd \<leftarrow> ctx_read_ctx ctx;
          mac \<leftarrow> sqlcipher_page_hmac ctx rd page buffer payload_sz;
          case mac of None \<Rightarrow> Some (Some (hmac_failed_msg page), ctx)
          | Some m \<Rightarrow>
              do { h \<leftarrow> hmac_out;
                   h \<leftarrow> poke h 0 m;
                   stored \<leftarrow> peek buffer payload_sz (ctx_hmac_sz ctx);
                   cmp \<leftarrow> sqlcipher_memcmp stored h (ctx_hmac_sz ctx);
                   Some (if cmp \<noteq> 0 then Some (hmac_wrong_msg page) else None, ctx) } } })"

text \<open>The loop over the \<open>n\<close> pages from \<open>page\<close> on.\<close>

fun integrity_loop ::
    "btree \<Rightarrow> os_file \<Rightarrow> bytes option \<Rightarrow> nat \<Rightarrow> u32 \<Rightarrow> 'e codec_ctx \<Rightarrow> (bytes list \<times> 'e codec_ctx) option" where
  "integrity_loop bt fd hmac_out 0 page ctx = Some ([], ctx)"
| "integrity_loop bt fd hmac_out (Suc n) page ctx =
     do { (row, ctx) \<leftarrow> integrity_page bt ctx fd hmac_out page;
          (rows, ctx) \<leftarrow> integrity_loop bt fd hmac_out n (page + 1) ctx;
          Some ((case row of None \<Rightarrow> rows | Some r \<Rightarrow> r # rows), ctx) }"

definition sqlcipher_codec_ctx_integrity_check ::
    "btree \<Rightarrow> 'e codec_ctx \<Rightarrow> 'e world \<Rightarrow> (bytes list \<times> 'e codec_ctx \<times> 'e world) option" where
  "sqlcipher_codec_ctx_integrity_check bt ctx w =
     (case pg_fd bt of
        None \<Rightarrow> Some ([cstr ''database file is undefined''], ctx, w)
      | Some fd \<Rightarrow>
          if \<not> flag_get (ctx_flags ctx) CIPHER_FLAG_HMAC
          then Some ([cstr ''HMAC is not enabled, unable to integrity check''], ctx, w)
          else do {
            (rc, ctx, w) \<leftarrow> sqlcipher_codec_key_derive bt ctx w;
            if rc \<noteq> SQLITE_OK then Some ([cstr ''unable to derive keys''], ctx, w)
            else do {
              let file_sz = sqlite3OsFileSize fd;
              let (hmac_out, w) = sqlcipher_malloc (ctx_hmac_sz ctx) w;
              let n = nat (file_sz div ctx_page_sz ctx);
              (rows, ctx) \<leftarrow> integrity_loop bt fd hmac_out n 1 ctx;
              let last = (if file_sz mod ctx_page_sz ctx \<noteq> 0
                          then [size_msg (word_of_nat (Suc n)) (file_sz mod ctx_page_sz ctx) (ctx_page_sz ctx)] else []);
              w \<leftarrow> free_if hmac_out (ctx_hmac_sz ctx) w;
              Some (rows @ last, ctx, w) } })"

end
