(* ===== verification/Integrity_Properties.thy ===== *)
theory Integrity_Properties
  imports Integrity Page_Properties Api_Properties
begin

text \<open>
  The integrity check against its specification: the pages it reports are exactly those whose stored
  code does not match, as long as the file is below 4 GiB, where the 32-bit offset does not wrap.
\<close>

section \<open>Specification\<close>

text \<open>The bytes of a page in the file, and the report a page deserves.\<close>

definition raw_page :: "bytes \<Rightarrow> nat \<Rightarrow> u32 \<Rightarrow> bytes" where
  "raw_page file sz page = take sz (drop ((unat page - 1) * sz) file)"

definition integrity_row :: "'e sqlcipher_provider \<Rightarrow> 'e codec_ctx \<Rightarrow> cipher_ctx \<Rightarrow> u32 \<Rightarrow> bytes \<Rightarrow> bytes option" where
  "integrity_row p ctx rd page d =
     (case mac_of p ctx rd page (mac_input ctx d) of
        None \<Rightarrow> Some (hmac_failed_msg page)
      | Some m \<Rightarrow> if stored_mac ctx d = m then None else Some (hmac_wrong_msg page))"

text \<open>The reports of the \<open>n\<close> pages from \<open>page\<close> on, the lock page left out.\<close>

fun integrity_rows ::
    "u32 \<Rightarrow> 'e sqlcipher_provider \<Rightarrow> 'e codec_ctx \<Rightarrow> cipher_ctx \<Rightarrow> bytes \<Rightarrow> nat \<Rightarrow> u32 \<Rightarrow> bytes list" where
  "integrity_rows lck p ctx rd file 0 page = []"
| "integrity_rows lck p ctx rd file (Suc n) page =
     (if page = lck then []
      else (case integrity_row p ctx rd page
                   (drop (codec_offset ctx page) (raw_page file (nat (ctx_page_sz ctx)) page)) of
              None \<Rightarrow> [] | Some r \<Rightarrow> [r]))
     @ integrity_rows lck p ctx rd file n (page + 1)"

lemma integrity_buffer [simp]:
  "mac_of p (ctx\<lparr>ctx_buffer := b\<rparr>) rd page d = mac_of p ctx rd page d"
  "mac_input (ctx\<lparr>ctx_buffer := b\<rparr>) d = mac_input ctx d" "stored_mac (ctx\<lparr>ctx_buffer := b\<rparr>) d = stored_mac ctx d"
  "codec_offset (ctx\<lparr>ctx_buffer := b\<rparr>) page = codec_offset ctx page"
  by (simp_all add: mac_of_def pgno_raw_def mac_input_def stored_mac_def codec_offset_def)

lemma integrity_row_buffer [simp]:
  "integrity_row p (ctx\<lparr>ctx_buffer := b\<rparr>) rd page d = integrity_row p ctx rd page d"
  by (simp add: integrity_row_def split: option.split)

lemma integrity_rows_buffer [simp]:
  "integrity_rows lck p (ctx\<lparr>ctx_buffer := b\<rparr>) rd file n page = integrity_rows lck p ctx rd file n page"
  by (induction n arbitrary: page) simp_all

lemma ready_buffer:
  assumes "codec_ready p ctx" "int (length b) = ctx_page_sz ctx"
  shows "codec_ready p (ctx\<lparr>ctx_buffer := Some b\<rparr>)"
proof -
  have "keys_ready (ctx\<lparr>ctx_buffer := Some b\<rparr>) = keys_ready ctx" by (simp add: keys_ready_def)
  moreover have "header_fits (ctx\<lparr>ctx_buffer := Some b\<rparr>) = header_fits ctx" by (simp add: header_fits_def)
  ultimately show ?thesis using assms codec_wf_buffer [of p ctx b] by (simp add: codec_ready_def)
qed

lemma integrity_offset_exact:
  assumes "page \<noteq> 0" "0 \<le> sz" "int (unat page - 1) * sz < 2 ^ 32"
  shows "integrity_offset page sz = int (unat page - 1) * sz"
proof -
  have "uint (page - 1) = int (unat page - 1)"
    using assms(1) by (simp add: unat_minus_one flip: of_nat_unat [where ?'a = int])
  moreover have "page - 1 = word_of_int (uint (page - 1))" by simp
  ultimately have "(page - 1) * word_of_int sz = word_of_int (int (unat page - 1) * sz)"
    by (metis wi_hom_mult)
  then have "integrity_offset page sz = uint (word_of_int (int (unat page - 1) * sz) :: u32)"
    by (simp only: integrity_offset_def)
  also have "\<dots> = int (unat page - 1) * sz" using assms by (simp only: uint_word_of_int) simp
  finally show ?thesis .
qed


section \<open>One page\<close>

lemma os_read_full:
  assumes "\<not> f_read_fails fd" "i + n \<le> length (f_bytes fd)" "n \<le> length buf"
  shows "sqlite3OsRead fd buf (int n) (int i) = Some (0, take n (drop i (f_bytes fd)) @ drop n buf)"
  using assms by (simp add: sqlite3OsRead_def poke_def)

lemma raw_page_slice:
  assumes "k \<le> sz"
  shows "drop k (raw_page file sz page) = take (sz - k) (drop ((unat page - 1) * sz + k) file)"
  using assms by (simp add: raw_page_def drop_take add.commute)

lemma integrity_page_eq:
  assumes cc: "commoncrypto_ok cc" and p: "p = sqlcipher_cc_setup cc" and r: "codec_ready p ctx"
    and rd: "ctx_read_ctx ctx = Some rd" and hm: "flag_get (ctx_flags ctx) CIPHER_FLAG_HMAC"
    and fd: "\<not> f_read_fails fd" and h: "int (length h) = ctx_hmac_sz ctx"
    and page: "page \<noteq> 0" "unat page * nat (ctx_page_sz ctx) \<le> length (f_bytes fd)"
    and small: "int (length (f_bytes fd)) \<le> 2 ^ 32"
  shows "\<exists>b. int (length b) = ctx_page_sz ctx \<and> integrity_page bt ctx fd (Some h) page =
     Some (if page = pg_lckPgno bt then None
           else integrity_row p ctx rd page (drop (codec_offset ctx page) (raw_page (f_bytes fd) (nat (ctx_page_sz ctx)) page)),
           ctx\<lparr>ctx_buffer := Some b\<rparr>)"
proof -
  define sz where "sz = nat (ctx_page_sz ctx)"
  define k where "k = codec_offset ctx page"
  define bs where "bs = f_bytes fd"
  define d where "d = drop k (raw_page bs sz page)"
  have wf: "codec_wf p ctx" and swf: "sizes_wf p ctx" using r by (auto simp: codec_ready_def codec_wf_def)
  have ps: "provider_sizes p" using cc.sizes_ok [OF cc] p by simp
  note res = sizes_reserve [OF ps swf] and off = codec_offset_fits [OF ps r, of page]
  have psz: "ctx_page_sz ctx = int sz" "512 \<le> sz" using swf by (auto simp: sizes_wf_def page_size_ok_def sz_def)
  have k: "k \<le> sz" using off(1) res psz by (simp add: k_def)
  obtain buf where buf: "ctx_buffer ctx = Some buf" "length buf = sz" using wf psz by (auto simp: codec_wf_def block_of_def)
  have fit: "unat page * sz \<le> length bs" using page(2) by (simp add: bs_def sz_def)
  obtain q where q: "unat page = Suc q" using page(1) by (metis not0_implies_Suc unat_eq_zero)
  have "int (unat page - 1) * int sz < 2 ^ 32"
    using fit psz(2) small q by (simp add: bs_def flip: of_nat_mult)
  then have o: "integrity_offset page (int sz) = int q * int sz"
    using integrity_offset_exact [OF page(1), of "int sz"] psz q by simp
  have d: "d = take (sz - k) (drop (q * sz + k) bs)" "length d = sz - k"
    using fit q k by (simp_all add: d_def raw_page_slice)
  define b where "b = d @ replicate k 0"
  have lb: "length b = sz" using d k by (simp add: b_def)
  have read: "sqlite3OsRead fd (replicate sz 0) (int sz - int k) (int q * int sz + int k) = Some (0, b)"
    using os_read_full [OF fd, of "q * sz + k" "sz - k" "replicate sz 0"] fit q k d(1) by (simp add: b_def bs_def of_nat_diff)
  define n where "n = length d - nat (ctx_reserve_sz ctx) + nat (ctx_iv_sz ctx)"
  have pay: "int sz - ctx_reserve_sz ctx + ctx_iv_sz ctx - int k = int n"
    using d off(1) res k psz by (simp add: n_def k_def)
  have nle: "n + nat (ctx_hmac_sz ctx) \<le> length d" using d off(1) res(4) [OF hm] res(5,6) k psz by (simp add: n_def k_def)
  show ?thesis
  proof (cases "page = pg_lckPgno bt")
    case True
    moreover have "ctx\<lparr>ctx_buffer := Some buf\<rparr> = ctx" using buf by (cases ctx) simp
    ultimately show ?thesis
      using buf psz by (intro exI [of _ buf]) (simp add: integrity_page_def sqlite3pager_is_sj_pgno_def)
  next
    case False
    let ?c = "ctx\<lparr>ctx_buffer := Some b\<rparr>"
    have prov: "ctx_provider ?c = Some p" using swf by (simp add: sizes_wf_def)
    have "cipher_ctx_wf ?c (Some rd) = cipher_ctx_wf ctx (Some rd)" by (rule cipher_ctx_wf_cong) simp_all
    then have cwf: "cipher_ctx_wf ?c (Some rd)" using wf rd by (simp add: codec_wf_def)
    have inp: "mac_input ctx d = take n d" "stored_mac ctx d = take (nat (ctx_hmac_sz ctx)) (drop n d)"
      by (simp_all add: mac_input_def stored_mac_def n_def)
    have nb: "n + nat (ctx_hmac_sz ctx) \<le> length b" using nle lb d(2) by linarith
    have tn: "take n b = take n d" using nle by (simp add: b_def)
    have "sqlcipher_page_hmac ?c rd page b (int n) = Some (mac_of p ?c rd page (take n b))"
      using page_hmac_eq [OF prov cwf, of "int n" b page] nb by simp
    then have mac: "sqlcipher_page_hmac ?c rd page b (int n) = Some (mac_of p ctx rd page (mac_input ctx d))"
      by (simp add: tn inp)
    have "take (nat (ctx_hmac_sz ctx)) (drop n b) = stored_mac ctx d" using nle by (simp add: b_def inp)
    then have st: "peek b (int n) (ctx_hmac_sz ctx) = Some (stored_mac ctx d)"
      using peek_nat [OF nb] res(5) by simp
    have len: "int (length m) = ctx_hmac_sz ctx" if "mac_of p ctx rd page x = Some m" for m x
      using cc.hmac_length [OF cc] that swf
      by (auto simp: mac_of_def p sizes_wf_def bind_eq_Some_conv)
    have ls: "int (length (stored_mac ctx d)) = ctx_hmac_sz ctx" using peek_length [OF st] by simp
    have "integrity_page bt ctx fd (Some h) page = Some (integrity_row p ctx rd page d, ?c)"
    proof (cases "mac_of p ctx rd page (mac_input ctx d)")
      case None
      then show ?thesis
        using False buf psz read mac
        by (simp add: integrity_page_def sqlite3pager_is_sj_pgno_def off(3) o pay fill_whole rd integrity_row_def
            k_def [symmetric] Let_def)
    next
      case (Some m)
      have "sqlcipher_memcmp (stored_mac ctx d) m (ctx_hmac_sz ctx) = Some (of_bool (stored_mac ctx d \<noteq> m))"
        using sqlcipher_memcmp_closed [of "ctx_hmac_sz ctx" "stored_mac ctx d" m] len [OF Some] ls res(5) by simp
      moreover have "poke h 0 m = Some m" using len [OF Some] h by (intro poke_whole) simp
      ultimately show ?thesis
        using False buf psz read mac Some st
        by (simp add: integrity_page_def sqlite3pager_is_sj_pgno_def off(3) o pay fill_whole rd integrity_row_def
            k_def [symmetric] Let_def)
    qed
    then show ?thesis
      using False lb psz by (intro exI [of _ b]) (simp add: d_def k_def bs_def)
  qed
qed


section \<open>The whole file\<close>

lemma integrity_loop_eq:
  assumes cc: "commoncrypto_ok cc" and p: "p = sqlcipher_cc_setup cc"
    and fd: "\<not> f_read_fails fd" and small: "int (length (f_bytes fd)) \<le> 2 ^ 32"
    and r: "codec_ready p ctx" "ctx_read_ctx ctx = Some rd" "flag_get (ctx_flags ctx) CIPHER_FLAG_HMAC"
      "int (length h) = ctx_hmac_sz ctx"
    and n: "page \<noteq> 0 \<or> n = 0" "(unat page + n - 1) * nat (ctx_page_sz ctx) \<le> length (f_bytes fd)"
  shows "\<exists>b. int (length b) = ctx_page_sz ctx \<and> integrity_loop bt fd (Some h) n page ctx =
     Some (integrity_rows (pg_lckPgno bt) p ctx rd (f_bytes fd) n page, ctx\<lparr>ctx_buffer := Some b\<rparr>)"
  using r n
proof (induction n arbitrary: page ctx)
  case 0
  then obtain b where "ctx_buffer ctx = Some b" "int (length b) = ctx_page_sz ctx"
    by (auto simp: codec_ready_def codec_wf_def block_of_def)
  then show ?case by (intro exI [of _ b]) (cases ctx, simp)
next
  case (Suc n)
  let ?sz = "nat (ctx_page_sz ctx)"
  have nz: "page \<noteq> 0" using Suc.prems(5) by simp
  obtain q where q: "unat page = Suc q" using nz by (metis not0_implies_Suc unat_eq_zero)
  have "unat page * ?sz \<le> (unat page + Suc n - 1) * ?sz" by (rule mult_right_mono) simp_all
  then have pg: "unat page * ?sz \<le> length (f_bytes fd)" using Suc.prems(6) by linarith
  obtain b where b: "int (length b) = ctx_page_sz ctx" "integrity_page bt ctx fd (Some h) page =
     Some (if page = pg_lckPgno bt then None
           else integrity_row p ctx rd page (drop (codec_offset ctx page) (raw_page (f_bytes fd) ?sz page)),
           ctx\<lparr>ctx_buffer := Some b\<rparr>)"
    using integrity_page_eq [OF cc p Suc.prems(1-3) fd Suc.prems(4) nz pg small] by blast
  let ?c = "ctx\<lparr>ctx_buffer := Some b\<rparr>"
  have "512 \<le> ctx_page_sz ctx" using Suc.prems(1) by (auto simp: codec_ready_def codec_wf_def sizes_wf_def page_size_ok_def)
  then have sz: "512 \<le> ?sz" by simp
  have "length (f_bytes fd) \<le> 4294967296" using small by simp
  then have "unat page * 512 \<le> 4294967296" using pg sz mult_le_mono2 [OF sz, of "unat page"] by linarith
  then have "unat (page + 1) = Suc (unat page)" by (simp add: unat_word_ariths)
  then have n1: "page + 1 \<noteq> 0 \<or> n = 0" "(unat (page + 1) + n - 1) * nat (ctx_page_sz ?c) \<le> length (f_bytes fd)"
    using Suc.prems(6) by (auto simp flip: unat_eq_zero)
  obtain b' where b': "int (length b') = ctx_page_sz ctx" "integrity_loop bt fd (Some h) n (page + 1) ?c =
     Some (integrity_rows (pg_lckPgno bt) p ctx rd (f_bytes fd) n (page + 1), ctx\<lparr>ctx_buffer := Some b'\<rparr>)"
    using Suc.IH [OF ready_buffer [OF Suc.prems(1) b(1)] _ _ _ n1] Suc.prems(2-4) by auto
  show ?case
    using b b' by (intro exI [of _ b']) (auto split: option.splits)
qed






end
