(* ===== verification/Codec_Log.thy ===== *)
theory Codec_Log
  imports Codec_Api
begin

text \<open>
  Logging and diagnostics settings of \<^verbatim>\<open>sqlcipher.c\<close>: the names of levels and sources, the log target,
  the filter \<open>sqlcipher_log\<close> applies, profiling, extra entropy, the version string.  What is written
  to a log is not modelled.
\<close>

section \<open>Levels and sources\<close>

abbreviation (input) SQLCIPHER_LOG_NONE :: u32 where "SQLCIPHER_LOG_NONE \<equiv> 0"
abbreviation (input) SQLCIPHER_LOG_ANY :: u32 where "SQLCIPHER_LOG_ANY \<equiv> 0xffffffff"
abbreviation (input) SQLCIPHER_LOG_ERROR :: u32 where "SQLCIPHER_LOG_ERROR \<equiv> 1"
abbreviation (input) SQLCIPHER_LOG_WARN :: u32 where "SQLCIPHER_LOG_WARN \<equiv> 2"
abbreviation (input) SQLCIPHER_LOG_INFO :: u32 where "SQLCIPHER_LOG_INFO \<equiv> 4"
abbreviation (input) SQLCIPHER_LOG_DEBUG :: u32 where "SQLCIPHER_LOG_DEBUG \<equiv> 8"
abbreviation (input) SQLCIPHER_LOG_TRACE :: u32 where "SQLCIPHER_LOG_TRACE \<equiv> 16"
abbreviation (input) SQLCIPHER_LOG_CORE :: u32 where "SQLCIPHER_LOG_CORE \<equiv> 1"
abbreviation (input) SQLCIPHER_LOG_MEMORY :: u32 where "SQLCIPHER_LOG_MEMORY \<equiv> 2"
abbreviation (input) SQLCIPHER_LOG_MUTEX :: u32 where "SQLCIPHER_LOG_MUTEX \<equiv> 4"
abbreviation (input) SQLCIPHER_LOG_PROVIDER :: u32 where "SQLCIPHER_LOG_PROVIDER \<equiv> 8"

definition sqlcipher_get_log_level_str :: "u32 \<Rightarrow> bytes" where
  "sqlcipher_get_log_level_str level =
     (if level = SQLCIPHER_LOG_ERROR then cstr ''ERROR''
      else if level = SQLCIPHER_LOG_WARN then cstr ''WARN''
      else if level = SQLCIPHER_LOG_INFO then cstr ''INFO''
      else if level = SQLCIPHER_LOG_DEBUG then cstr ''DEBUG''
      else if level = SQLCIPHER_LOG_TRACE then cstr ''TRACE''
      else if level = SQLCIPHER_LOG_ANY then cstr ''ANY''
      else cstr ''NONE'')"

definition sqlcipher_get_log_source_str :: "u32 \<Rightarrow> bytes" where
  "sqlcipher_get_log_source_str source =
     (if source = SQLCIPHER_LOG_NONE then cstr ''NONE''
      else if source = SQLCIPHER_LOG_CORE then cstr ''CORE''
      else if source = SQLCIPHER_LOG_MEMORY then cstr ''MEMORY''
      else if source = SQLCIPHER_LOG_MUTEX then cstr ''MUTEX''
      else if source = SQLCIPHER_LOG_PROVIDER then cstr ''PROVIDER''
      else cstr ''ANY'')"

text \<open>The loop \<open>for(flag = SQLCIPHER_LOG_CORE; flag != 0; flag = flag << 1)\<close> runs over the 32 bits; \<open>k\<close> is the
  number of bits left, \<open>sources\<close> the text so far (\<open>None\<close> a null pointer).\<close>

fun log_sources_loop :: "nat \<Rightarrow> u32 \<Rightarrow> u32 \<Rightarrow> bytes option \<Rightarrow> bytes option" where
  "log_sources_loop 0 flag source sources = sources"
| "log_sources_loop (Suc k) flag source sources =
     (if flag = 0 then sources
      else log_sources_loop k (push_bit 1 flag) source
        (if flag_get source flag then
           Some (case sources of None \<Rightarrow> sqlcipher_get_log_source_str flag
                 | Some s \<Rightarrow> s @ cstr '' '' @ sqlcipher_get_log_source_str flag)
         else sources))"

definition sqlcipher_get_log_sources_str :: "u32 \<Rightarrow> bytes option" where
  "sqlcipher_get_log_sources_str source =
     (if source = SQLCIPHER_LOG_NONE then Some (cstr ''NONE'')
      else if source = SQLCIPHER_LOG_ANY then Some (cstr ''ANY'')
      else log_sources_loop 32 SQLCIPHER_LOG_CORE source None)"

text \<open>Whether \<open>sqlcipher_log\<close> lets a message through.\<close>

definition log_passes :: "'e world \<Rightarrow> u32 \<Rightarrow> u32 \<Rightarrow> bool" where
  "log_passes w level source \<longleftrightarrow>
     \<not> (level > sqlcipher_log_level w \<or> \<not> flag_get (sqlcipher_log_source w) source
        \<or> (sqlcipher_log_device w = 0 \<and> sqlcipher_log_file w = None))"

section \<open>Targets\<close>

abbreviation ieq :: "bytes \<Rightarrow> string \<Rightarrow> bool" where
  "ieq z s \<equiv> sqlite3_stricmp (Some z) (Some (cstr s)) = 0"

text \<open>\<open>fopen\<close> is the test whether the system opens the named file for appending.\<close>

definition sqlcipher_set_log :: "(bytes \<Rightarrow> bool) \<Rightarrow> bytes \<Rightarrow> 'e world \<Rightarrow> int \<times> 'e world" where
  "sqlcipher_set_log fopen destination w =
     (let w = w\<lparr>sqlcipher_log_file := None, sqlcipher_log_device := 0\<rparr> in
      if ieq destination ''logcat'' \<or> ieq destination ''device'' then (SQLITE_OK, w\<lparr>sqlcipher_log_device := 1\<rparr>)
      else if ieq destination ''stdout'' then (SQLITE_OK, w\<lparr>sqlcipher_log_file := Some Log_stdout\<rparr>)
      else if ieq destination ''stderr'' then (SQLITE_OK, w\<lparr>sqlcipher_log_file := Some Log_stderr\<rparr>)
      else if \<not> ieq destination ''off'' then
        (if fopen destination then (SQLITE_OK, w\<lparr>sqlcipher_log_file := Some (Log_path destination)\<rparr>)
         else (SQLITE_ERROR, w))
      else (SQLITE_OK, w))"

text \<open>The profiling callback of a connection: none, or a target (\<open>None\<close> the device log).\<close>

definition sqlcipher_cipher_profile ::
    "(bytes \<Rightarrow> bool) \<Rightarrow> bytes \<Rightarrow> log_target option option \<Rightarrow> int \<times> log_target option option" where
  "sqlcipher_cipher_profile fopen destination trace =
     (if ieq destination ''off'' then (SQLITE_OK, None)
      else if ieq destination ''stdout'' then (SQLITE_OK, Some (Some Log_stdout))
      else if ieq destination ''stderr'' then (SQLITE_OK, Some (Some Log_stderr))
      else if ieq destination ''logcat'' \<or> ieq destination ''device'' then (SQLITE_OK, Some None)
      else if fopen destination then (SQLITE_OK, Some (Some (Log_path destination)))
      else (SQLITE_ERROR, trace))"

section \<open>Entropy and version\<close>

text \<open>\<open>x'<hex>'\<close>; the pointer to the last character of an empty argument is formed but never read.\<close>

definition sqlcipher_codec_add_random ::
    "'e codec_ctx \<Rightarrow> bytes \<Rightarrow> int \<Rightarrow> 'e world \<Rightarrow> (int \<times> 'e world) option" where
  "sqlcipher_codec_add_random ctx zRight random_sz w =
     (let n = random_sz - 3 in
      if n > 0 \<and> sqlite3_strnicmp (Some zRight) (Some [120, 39]) 2 = 0
         \<and> sqlite3_strnicmp (Some (drop (nat (random_sz - 1)) zRight)) (Some [39]) 1 = 0 \<and> n mod 2 = 0
      then do {
        let (m, w) = sqlcipher_malloc (n div 2) w;
        b \<leftarrow> m;
        b \<leftarrow> cipher_hex2bin (drop 2 zRight) n b;
        p \<leftarrow> ctx_provider ctx;
        let (rc, e) = p_add_random p (w_entropy w) b;
        w \<leftarrow> sqlcipher_free (Some b) (n div 2) (w\<lparr>w_entropy := e\<rparr>);
        Some (rc, w) }
      else Some (SQLITE_ERROR, w))"

definition sqlcipher_version :: bytes where
  "sqlcipher_version = cstr ''4.6.1 community''"

section \<open>Facts\<close>

text \<open>The loop ends because the flag is shifted out: 32 rounds are enough, and any larger number gives
  the same text.\<close>

lemma log_sources_done: "log_sources_loop k 0 source s = s"
  by (cases k) simp_all

lemma flag_shifted_out: "32 \<le> j \<Longrightarrow> (2 :: u32) ^ j = 0"
  by (simp add: exp_eq_zero_iff)

lemma log_sources_fuel:
  "32 \<le> j + k \<Longrightarrow> 32 \<le> j + k' \<Longrightarrow>
     log_sources_loop k (2 ^ j) source s = log_sources_loop k' (2 ^ j) source s"
proof (induction k arbitrary: j k' s)
  case 0
  then show ?case by (simp add: flag_shifted_out log_sources_done)
next
  case (Suc k)
  show ?case
  proof (cases k')
    case 0
    then show ?thesis using Suc.prems by (simp add: flag_shifted_out log_sources_done)
  next
    case k': (Suc m)
    show ?thesis
      using Suc.IH [of "Suc j" m] Suc.prems by (simp add: k' push_bit_eq_mult mult.commute)
  qed
qed

end
