(* ===== verification/Codec_Pragma.thy ===== *)
theory Codec_Pragma
  imports Integrity Codec_Log
begin

text \<open>
  The \<open>PRAGMA\<close> interface of SQLCipher (\<open>sqlcipher_codec_pragma\<close>), translated branch by branch: one
  definition per group of branches, each taking the rest of the \<open>else if\<close> chain as its last argument.

  The state is the database the pragma is about (\<open>None\<close> when it is not open), the process, the rows
  returned so far (label and value, a null value being \<open>None\<close>) and the profiling callback of the
  connection.  \<open>sqlcipher_codec_ctx_migrate\<close>, which runs SQL, and \<open>fopen\<close> are arguments.
  \<open>sqlite3_mprintf\<close> is taken not to run out of memory.  The first component of the result is what
  the function returns: whether it handled the pragma.
\<close>

section \<open>State\<close>

record 'e pragma_state =
  ps_a :: "'e attached option"
  ps_w :: "'e world"
  ps_rows :: "(bytes \<times> bytes option) list"
  ps_profile :: "log_target option option"

record 'e pragma_env =
  env_migrate :: "'e attached \<Rightarrow> 'e world \<Rightarrow> int \<times> 'e attached \<times> 'e world"
  env_fopen :: "bytes \<Rightarrow> bool"

type_synonym 'e pragma_result = "(int \<times> 'e pragma_state) option"

definition sqlcipher_vdbe_return_string :: "string \<Rightarrow> bytes option \<Rightarrow> 'e pragma_state \<Rightarrow> 'e pragma_state" where
  "sqlcipher_vdbe_return_string zLabel v st = st\<lparr>ps_rows := ps_rows st @ [(cstr zLabel, v)]\<rparr>"

definition ret_int :: "string \<Rightarrow> int \<Rightarrow> 'e pragma_state \<Rightarrow> 'e pragma_state" where
  "ret_int zLabel i st = sqlcipher_vdbe_return_string zLabel (Some (fmt_d i)) st"

definition ret_text :: "string \<Rightarrow> string \<Rightarrow> 'e pragma_state \<Rightarrow> 'e pragma_state" where
  "ret_text zLabel s st = sqlcipher_vdbe_return_string zLabel (Some (cstr s)) st"

text \<open>\<open>if(ctx) { ... }\<close>: the body gets the open database and its context.\<close>

definition if_ctx :: "'e pragma_state \<Rightarrow> ('e attached \<Rightarrow> 'e codec_ctx \<Rightarrow> 'e pragma_result) \<Rightarrow> 'e pragma_result" where
  "if_ctx st f =
     (case ps_a st of None \<Rightarrow> Some (1, st)
      | Some a \<Rightarrow> (case sqlcipherPagerGetCodec a of None \<Rightarrow> Some (1, st) | Some ctx \<Rightarrow> f a ctx))"

definition put_ctx :: "'e attached \<Rightarrow> 'e codec_ctx \<Rightarrow> 'e pragma_state \<Rightarrow> 'e pragma_state" where
  "put_ctx a ctx st = st\<lparr>ps_a := Some (a\<lparr>at_pCodec := Some ctx\<rparr>)\<rparr>"

text \<open>\<open>if(rc != SQLITE_OK) sqlcipher_codec_ctx_set_error(ctx, e)\<close>.\<close>

definition error_if :: "int \<Rightarrow> int \<Rightarrow> 'e attached \<Rightarrow> 'e attached" where
  "error_if rc e a = (if rc \<noteq> SQLITE_OK then a\<lparr>at_bt := sqlcipher_codec_ctx_set_error (at_bt a) e\<rparr> else a)"

text \<open>\<open>rc = codec_set_btree_to_codec_pagesize(db, pDb, ctx); if(rc != SQLITE_OK) set_error\<close>; \<open>e\<close> maps the
  code to the error that is set.\<close>

definition sync_pagesize ::
    "(int \<Rightarrow> int) \<Rightarrow> 'e attached \<Rightarrow> 'e codec_ctx \<Rightarrow> 'e pragma_state \<Rightarrow> 'e pragma_result" where
  "sync_pagesize e a ctx st =
     (case codec_set_btree_to_codec_pagesize (at_bt a) ctx (ps_w st) of (rc, bt, w) \<Rightarrow>
      Some (1, put_ctx (error_if rc (e rc) (a\<lparr>at_bt := bt\<rparr>)) ctx (st\<lparr>ps_w := w\<rparr>)))"

section \<open>The branches\<close>

text \<open>The first chain, which ends without an \<open>else\<close>: its branches do not return.\<close>

definition pragma_store_pass :: "bytes \<Rightarrow> bytes option \<Rightarrow> 'e pragma_state \<Rightarrow> 'e pragma_state option" where
  "pragma_store_pass zLeft zRight st =
     map_option snd
      (if ieq zLeft ''cipher_fips_status'' \<and> zRight = None then
         if_ctx st (\<lambda>a ctx. do { p \<leftarrow> ctx_provider ctx;
                                 Some (1, ret_int ''cipher_fips_status'' (p_fips_status p) st) })
       else if ieq zLeft ''cipher_store_pass'' \<and> zRight \<noteq> None then
         if_ctx st (\<lambda>a ctx.
           Some (1, ret_text ''cipher_store_pass'' ''PRAGMA cipher_store_pass is deprecated, please remove from use''
                      (put_ctx a (ctx\<lparr>ctx_store_pass := sqlite3GetBoolean (the zRight) 1\<rparr>) st)))
       else if ieq zLeft ''cipher_store_pass'' \<and> zRight = None then
         if_ctx st (\<lambda>a ctx. Some (1, ret_int ''cipher_store_pass'' (ctx_store_pass ctx) st))
       else Some (0, st))"

definition pragma_provider ::
    "'e pragma_env \<Rightarrow> bytes \<Rightarrow> bytes option \<Rightarrow> 'e pragma_state \<Rightarrow> 'e pragma_result \<Rightarrow> 'e pragma_result" where
  "pragma_provider env zLeft zRight st else_chain =
     (if ieq zLeft ''cipher_profile'' \<and> zRight \<noteq> None then
        (case sqlcipher_cipher_profile (env_fopen env) (the zRight) (ps_profile st) of (rc, tr) \<Rightarrow>
         Some (1, ret_int ''cipher_profile'' rc (st\<lparr>ps_profile := tr\<rparr>)))
      else if ieq zLeft ''cipher_add_random'' \<and> zRight \<noteq> None then
        if_ctx st (\<lambda>a ctx.
          do { (rc, w) \<leftarrow> sqlcipher_codec_add_random ctx (the zRight) (sqlite3Strlen30 zRight) (ps_w st);
               Some (1, ret_int ''cipher_add_random'' rc (st\<lparr>ps_w := w\<rparr>)) })
      else if ieq zLeft ''cipher_migrate'' \<and> zRight = None then
        if_ctx st (\<lambda>a ctx.
          case env_migrate env a (ps_w st) of (status, a, w) \<Rightarrow>
          Some (1, ret_int ''cipher_migrate'' status (st\<lparr>ps_a := Some (error_if status status a), ps_w := w\<rparr>)))
      else if ieq zLeft ''cipher_provider'' \<and> zRight = None then
        if_ctx st (\<lambda>a ctx.
          do { p \<leftarrow> ctx_provider ctx;
               Some (1, sqlcipher_vdbe_return_string ''cipher_provider'' (Some (p_get_provider_name p)) st) })
      else if ieq zLeft ''cipher_provider_version'' \<and> zRight = None then
        if_ctx st (\<lambda>a ctx.
          do { p \<leftarrow> ctx_provider ctx;
               Some (1, sqlcipher_vdbe_return_string ''cipher_provider_version'' (Some (p_get_provider_version p)) st) })
      else if ieq zLeft ''cipher_version'' \<and> zRight = None then
        Some (1, sqlcipher_vdbe_return_string ''cipher_version'' (Some sqlcipher_version) st)
      else if ieq zLeft ''cipher'' then
        if_ctx st (\<lambda>a ctx.
          if zRight \<noteq> None then Some (1, ret_text ''cipher'' ''PRAGMA cipher is no longer supported.'' st)
          else do { p \<leftarrow> ctx_provider ctx;
                    Some (1, sqlcipher_vdbe_return_string ''cipher'' (Some (p_get_cipher p)) st) })
      else if ieq zLeft ''rekey_cipher'' \<and> zRight \<noteq> None then
        Some (1, ret_text ''rekey_cipher'' ''PRAGMA rekey_cipher is no longer supported.'' st)
      else else_chain)"

definition pragma_kdf :: "bytes \<Rightarrow> bytes option \<Rightarrow> 'e pragma_state \<Rightarrow> 'e pragma_result \<Rightarrow> 'e pragma_result" where
  "pragma_kdf zLeft zRight st else_chain =
     (if ieq zLeft ''cipher_default_kdf_iter'' then
        (case zRight of Some z \<Rightarrow> Some (1, st\<lparr>ps_w := (ps_w st)\<lparr>default_kdf_iter := atoi z\<rparr>\<rparr>)
         | None \<Rightarrow> Some (1, ret_int ''cipher_default_kdf_iter'' (default_kdf_iter (ps_w st)) st))
      else if ieq zLeft ''kdf_iter'' then
        if_ctx st (\<lambda>a ctx.
          case zRight of Some z \<Rightarrow> Some (1, put_ctx a (snd (sqlcipher_codec_ctx_set_kdf_iter ctx (atoi z))) st)
          | None \<Rightarrow> Some (1, ret_int ''kdf_iter'' (ctx_kdf_iter ctx) st))
      else if ieq zLeft ''fast_kdf_iter'' then
        if_ctx st (\<lambda>a ctx.
          case zRight of
            Some z \<Rightarrow> Some (1, ret_text ''fast_kdf_iter'' ''PRAGMA fast_kdf_iter is deprecated, please remove from use''
                                (put_ctx a (snd (sqlcipher_codec_ctx_set_fast_kdf_iter ctx (atoi z))) st))
          | None \<Rightarrow> Some (1, ret_int ''fast_kdf_iter'' (ctx_fast_kdf_iter ctx) st))
      else if ieq zLeft ''rekey_kdf_iter'' \<and> zRight \<noteq> None then
        Some (1, ret_text ''rekey_kdf_iter'' ''PRAGMA rekey_kdf_iter is no longer supported.'' st)
      else else_chain)"

text \<open>Without a context the page-size pragma is not handled, so that the standard one applies.\<close>

definition pragma_page_size :: "bytes \<Rightarrow> bytes option \<Rightarrow> 'e pragma_state \<Rightarrow> 'e pragma_result \<Rightarrow> 'e pragma_result" where
  "pragma_page_size zLeft zRight st else_chain =
     (if ieq zLeft ''page_size'' \<or> ieq zLeft ''cipher_page_size'' then
        (if Option.bind (ps_a st) sqlcipherPagerGetCodec = None then Some (0, st)
         else if_ctx st (\<lambda>a ctx.
           case zRight of
             Some z \<Rightarrow> do { (rc, ctx, w) \<leftarrow> sqlcipher_codec_ctx_set_pagesize ctx (atoi z) (ps_w st);
                             sync_pagesize (\<lambda>rc. rc) (error_if rc rc a) ctx (st\<lparr>ps_w := w\<rparr>) }
           | None \<Rightarrow> Some (1, ret_int ''cipher_page_size'' (ctx_page_sz ctx) st)))
      else if ieq zLeft ''cipher_default_page_size'' then
        (case zRight of Some z \<Rightarrow> Some (1, st\<lparr>ps_w := (ps_w st)\<lparr>default_page_size := atoi z\<rparr>\<rparr>)
         | None \<Rightarrow> Some (1, ret_int ''cipher_default_page_size'' (default_page_size (ps_w st)) st))
      else if ieq zLeft ''cipher_default_use_hmac'' then
        (case zRight of Some z \<Rightarrow> Some (1, st\<lparr>ps_w := sqlcipher_set_default_use_hmac (sqlite3GetBoolean z 1) (ps_w st)\<rparr>)
         | None \<Rightarrow> Some (1, ret_int ''cipher_default_use_hmac'' (of_bool (flag_get (default_flags (ps_w st)) CIPHER_FLAG_HMAC)) st))
      else if ieq zLeft ''cipher_use_hmac'' then
        if_ctx st (\<lambda>a ctx.
          case zRight of
            Some z \<Rightarrow> do { (rc, ctx) \<leftarrow> sqlcipher_codec_ctx_set_use_hmac ctx (sqlite3GetBoolean z 1);
                            sync_pagesize (\<lambda>rc. rc) (error_if rc rc a) ctx st }
          | None \<Rightarrow> Some (1, ret_int ''cipher_use_hmac'' (of_bool (flag_get (ctx_flags ctx) CIPHER_FLAG_HMAC)) st))
      else else_chain)"

definition pgno_flags :: "bytes \<Rightarrow> u32 \<Rightarrow> u32" where
  "pgno_flags zRight f =
     (if ieq zRight ''le'' then flag_set (flag_unset f CIPHER_FLAG_BE_PGNO) CIPHER_FLAG_LE_PGNO
      else if ieq zRight ''be'' then flag_set (flag_unset f CIPHER_FLAG_LE_PGNO) CIPHER_FLAG_BE_PGNO
      else if ieq zRight ''native'' then flag_unset (flag_unset f CIPHER_FLAG_LE_PGNO) CIPHER_FLAG_BE_PGNO
      else f)"

definition pragma_hmac :: "bytes \<Rightarrow> bytes option \<Rightarrow> 'e pragma_state \<Rightarrow> 'e pragma_result \<Rightarrow> 'e pragma_result" where
  "pragma_hmac zLeft zRight st else_chain =
     (if ieq zLeft ''cipher_hmac_pgno'' then
        if_ctx st (\<lambda>a ctx.
          case zRight of
            Some z \<Rightarrow> Some (1, ret_text ''cipher_hmac_pgno'' ''PRAGMA cipher_hmac_pgno is deprecated, please remove from use''
                                (put_ctx a (ctx\<lparr>ctx_flags := pgno_flags z (ctx_flags ctx)\<rparr>) st))
          | None \<Rightarrow>
              Some (1, ret_text ''cipher_hmac_pgno''
                         (if flag_get (ctx_flags ctx) CIPHER_FLAG_LE_PGNO then ''le''
                          else if flag_get (ctx_flags ctx) CIPHER_FLAG_BE_PGNO then ''be'' else ''native'') st))
      else if ieq zLeft ''cipher_hmac_salt_mask'' then
        if_ctx st (\<lambda>a ctx.
          case zRight of
            Some z \<Rightarrow>
              do { w \<leftarrow> (if sqlite3_strnicmp (Some z) (Some [120, 39]) 2 = 0 \<and> sqlite3Strlen30 (Some z) = 5
                          then do { m \<leftarrow> cipher_hex2bin (drop 2 z) 2 [0]; Some ((ps_w st)\<lparr>hmac_salt_mask := hd m\<rparr>) }
                          else Some (ps_w st));
                   Some (1, ret_text ''cipher_hmac_salt_mask''
                              ''PRAGMA cipher_hmac_salt_mask is deprecated, please remove from use'' (st\<lparr>ps_w := w\<rparr>)) }
          | None \<Rightarrow> Some (1, sqlcipher_vdbe_return_string ''cipher_hmac_salt_mask'' (Some (hex2 (hmac_salt_mask (ps_w st)))) st))
      else else_chain)"

text \<open>\<open>PRAGMA cipher_salt\<close>: the temporary block comes from \<open>sqlite3_malloc\<close>, whose failure is not tested.\<close>

definition pragma_salt :: "bytes option \<Rightarrow> 'e pragma_state \<Rightarrow> 'e attached \<Rightarrow> 'e codec_ctx \<Rightarrow> 'e pragma_result" where
  "pragma_salt zRight st a ctx =
     (case zRight of
        Some z \<Rightarrow>
          if sqlite3_strnicmp (Some z) (Some [120, 39]) 2 = 0 \<and> sqlite3Strlen30 (Some z) = FILE_HEADER_SZ * 2 + 3 then
            do { let (ok, w) = sqlite3Malloc FILE_HEADER_SZ (ps_w st);
                 salt \<leftarrow> (if ok then Some (replicate 16 0) else None);
                 salt \<leftarrow> cipher_hex2bin (drop 2 z) (FILE_HEADER_SZ * 2) salt;
                 (_, ctx) \<leftarrow> sqlcipher_codec_ctx_set_kdf_salt ctx salt FILE_HEADER_SZ;
                 Some (1, put_ctx a ctx (st\<lparr>ps_w := sqlite3_free (Some salt) w\<rparr>)) }
          else Some (1, st)
      | None \<Rightarrow>
          do { let (ok, w) = sqlite3Malloc (FILE_HEADER_SZ * 2 + 1) (ps_w st);
               (rc, salt, ctx, w) \<leftarrow> sqlcipher_codec_ctx_get_kdf_salt (at_bt a) ctx w;
               if rc = SQLITE_OK then
                 do { s \<leftarrow> salt;
                      hexsalt \<leftarrow> (if ok then Some (replicate 33 0) else None);
                      hexsalt \<leftarrow> cipher_bin2hex s FILE_HEADER_SZ hexsalt;
                      Some (1, sqlcipher_vdbe_return_string ''cipher_salt'' (Some (take 32 hexsalt))
                                 (put_ctx a ctx (st\<lparr>ps_w := w\<rparr>))) }
               else Some (1, put_ctx (error_if rc rc a) ctx
                               (st\<lparr>ps_w := (if ok then sqlite3_free (Some (replicate 33 0)) w else w)\<rparr>)) })"

definition pragma_header :: "bytes \<Rightarrow> bytes option \<Rightarrow> 'e pragma_state \<Rightarrow> 'e pragma_result \<Rightarrow> 'e pragma_result" where
  "pragma_header zLeft zRight st else_chain =
     (if ieq zLeft ''cipher_plaintext_header_size'' then
        if_ctx st (\<lambda>a ctx.
          case zRight of
            Some z \<Rightarrow> Some (1, put_ctx a (snd (sqlcipher_codec_ctx_set_plaintext_header_size ctx (atoi z))) st)
          | None \<Rightarrow> Some (1, ret_int ''cipher_plaintext_header_size'' (ctx_plaintext_header_sz ctx) st))
      else if ieq zLeft ''cipher_default_plaintext_header_size'' then
        (case zRight of Some z \<Rightarrow> Some (1, st\<lparr>ps_w := (ps_w st)\<lparr>default_plaintext_header_size := atoi z\<rparr>\<rparr>)
         | None \<Rightarrow> Some (1, ret_int ''cipher_default_plaintext_header_size'' (default_plaintext_header_size (ps_w st)) st))
      else if ieq zLeft ''cipher_salt'' then if_ctx st (pragma_salt zRight st)
      else else_chain)"


text \<open>The labels of the algorithms; the KDF algorithms have the numbers of the HMAC ones.\<close>

definition hmac_label :: "int \<Rightarrow> string option" where
  "hmac_label algorithm =
     (if algorithm = SQLCIPHER_HMAC_SHA1 then Some ''HMAC_SHA1''
      else if algorithm = SQLCIPHER_HMAC_SHA256 then Some ''HMAC_SHA256''
      else if algorithm = SQLCIPHER_HMAC_SHA512 then Some ''HMAC_SHA512'' else None)"

definition hmac_of_label :: "bytes \<Rightarrow> int option" where
  "hmac_of_label z =
     (if ieq z ''HMAC_SHA1'' then Some SQLCIPHER_HMAC_SHA1
      else if ieq z ''HMAC_SHA256'' then Some SQLCIPHER_HMAC_SHA256
      else if ieq z ''HMAC_SHA512'' then Some SQLCIPHER_HMAC_SHA512 else None)"

definition kdf_label :: "int \<Rightarrow> string option" where
  "kdf_label algorithm =
     (if algorithm = SQLCIPHER_HMAC_SHA1 then Some ''PBKDF2_HMAC_SHA1''
      else if algorithm = SQLCIPHER_HMAC_SHA256 then Some ''PBKDF2_HMAC_SHA256''
      else if algorithm = SQLCIPHER_HMAC_SHA512 then Some ''PBKDF2_HMAC_SHA512'' else None)"

definition kdf_of_label :: "bytes \<Rightarrow> int option" where
  "kdf_of_label z =
     (if ieq z ''PBKDF2_HMAC_SHA1'' then Some SQLCIPHER_HMAC_SHA1
      else if ieq z ''PBKDF2_HMAC_SHA256'' then Some SQLCIPHER_HMAC_SHA256
      else if ieq z ''PBKDF2_HMAC_SHA512'' then Some SQLCIPHER_HMAC_SHA512 else None)"

text \<open>A row with the label, none for an unknown algorithm.\<close>

definition ret_label :: "string \<Rightarrow> string option \<Rightarrow> 'e pragma_state \<Rightarrow> 'e pragma_state" where
  "ret_label zLabel l st = (case l of None \<Rightarrow> st | Some s \<Rightarrow> ret_text zLabel s st)"

definition pragma_hmac_algorithm :: "bytes \<Rightarrow> bytes option \<Rightarrow> 'e pragma_state \<Rightarrow> 'e pragma_result \<Rightarrow> 'e pragma_result" where
  "pragma_hmac_algorithm zLeft zRight st else_chain =
     (if ieq zLeft ''cipher_hmac_algorithm'' then
        if_ctx st (\<lambda>a ctx.
          case zRight of
            Some z \<Rightarrow>
              do { (rc, ctx) \<leftarrow> (case hmac_of_label z of None \<Rightarrow> Some (SQLITE_ERROR, ctx)
                                  | Some alg \<Rightarrow> sqlcipher_codec_ctx_set_hmac_algorithm ctx alg);
                   sync_pagesize (\<lambda>rc. SQLITE_ERROR) (error_if rc SQLITE_ERROR a) ctx st }
          | None \<Rightarrow> Some (1, ret_label ''cipher_hmac_algorithm'' (hmac_label (ctx_hmac_algorithm ctx)) st))
      else if ieq zLeft ''cipher_default_hmac_algorithm'' then
        (case zRight of
           Some z \<Rightarrow> Some (1, (case hmac_of_label z of None \<Rightarrow> st
                             | Some alg \<Rightarrow> st\<lparr>ps_w := (ps_w st)\<lparr>default_hmac_algorithm := alg\<rparr>\<rparr>))
         | None \<Rightarrow> Some (1, ret_label ''cipher_default_hmac_algorithm'' (hmac_label (default_hmac_algorithm (ps_w st))) st))
      else else_chain)"

definition pragma_kdf_algorithm :: "bytes \<Rightarrow> bytes option \<Rightarrow> 'e pragma_state \<Rightarrow> 'e pragma_result \<Rightarrow> 'e pragma_result" where
  "pragma_kdf_algorithm zLeft zRight st else_chain =
     (if ieq zLeft ''cipher_kdf_algorithm'' then
        if_ctx st (\<lambda>a ctx.
          case zRight of
            Some z \<Rightarrow>
              (case (case kdf_of_label z of None \<Rightarrow> (SQLITE_ERROR, ctx)
                     | Some alg \<Rightarrow> sqlcipher_codec_ctx_set_kdf_algorithm ctx alg) of (rc, ctx) \<Rightarrow>
               Some (1, put_ctx (error_if rc SQLITE_ERROR a) ctx st))
          | None \<Rightarrow> Some (1, ret_label ''cipher_kdf_algorithm'' (kdf_label (ctx_kdf_algorithm ctx)) st))
      else if ieq zLeft ''cipher_default_kdf_algorithm'' then
        (case zRight of
           Some z \<Rightarrow> Some (1, (case kdf_of_label z of None \<Rightarrow> st
                             | Some alg \<Rightarrow> st\<lparr>ps_w := (ps_w st)\<lparr>default_kdf_algorithm := alg\<rparr>\<rparr>))
         | None \<Rightarrow> Some (1, ret_label ''cipher_default_kdf_algorithm'' (kdf_label (default_kdf_algorithm (ps_w st))) st))
      else else_chain)"

text \<open>The settings of a major version: page size, HMAC algorithm, KDF algorithm, iterations, whether
  HMACs are used.\<close>

definition compat_settings :: "int \<Rightarrow> int \<times> int \<times> int \<times> int \<times> int" where
  "compat_settings version =
     (if version = 1 then (1024, SQLCIPHER_HMAC_SHA1, SQLCIPHER_HMAC_SHA1, 4000, 0)
      else if version = 2 then (1024, SQLCIPHER_HMAC_SHA1, SQLCIPHER_HMAC_SHA1, 4000, 1)
      else if version = 3 then (1024, SQLCIPHER_HMAC_SHA1, SQLCIPHER_HMAC_SHA1, 64000, 1)
      else (4096, SQLCIPHER_HMAC_SHA512, SQLCIPHER_HMAC_SHA512, 256000, 1))"

text \<open>The five setters in the order of the source; each failure sets \<open>SQLITE_ERROR\<close> and the next one runs.\<close>

definition set_compat :: "int \<Rightarrow> 'e attached \<Rightarrow> 'e codec_ctx \<Rightarrow> 'e pragma_state \<Rightarrow> 'e pragma_result" where
  "set_compat version a ctx st =
     (case compat_settings version of (page_sz, hmac_alg, kdf_alg, iter, use) \<Rightarrow>
      do { (rc, ctx, w) \<leftarrow> sqlcipher_codec_ctx_set_pagesize ctx page_sz (ps_w st);
           let a = error_if rc SQLITE_ERROR a;
           (rc, ctx) \<leftarrow> sqlcipher_codec_ctx_set_hmac_algorithm ctx hmac_alg;
           let a = error_if rc SQLITE_ERROR a;
           let (rc, ctx) = sqlcipher_codec_ctx_set_kdf_algorithm ctx kdf_alg;
           let a = error_if rc SQLITE_ERROR a;
           let (rc, ctx) = sqlcipher_codec_ctx_set_kdf_iter ctx iter;
           let a = error_if rc SQLITE_ERROR a;
           (rc, ctx) \<leftarrow> sqlcipher_codec_ctx_set_use_hmac ctx use;
           let a = error_if rc SQLITE_ERROR a;
           sync_pagesize (\<lambda>rc. SQLITE_ERROR) a ctx (st\<lparr>ps_w := w\<rparr>) })"

definition set_default_compat :: "int \<Rightarrow> 'e world \<Rightarrow> 'e world" where
  "set_default_compat version w =
     (case compat_settings version of (page_sz, hmac_alg, kdf_alg, iter, use) \<Rightarrow>
      sqlcipher_set_default_use_hmac use
        (w\<lparr>default_page_size := page_sz, default_hmac_algorithm := hmac_alg,
           default_kdf_algorithm := kdf_alg, default_kdf_iter := iter\<rparr>))"

definition pragma_compatibility :: "bytes \<Rightarrow> bytes option \<Rightarrow> 'e pragma_state \<Rightarrow> 'e pragma_result \<Rightarrow> 'e pragma_result" where
  "pragma_compatibility zLeft zRight st else_chain =
     (if ieq zLeft ''cipher_compatibility'' then
        if_ctx st (\<lambda>a ctx. case zRight of Some z \<Rightarrow> set_compat (atoi z) a ctx st | None \<Rightarrow> Some (1, st))
      else if ieq zLeft ''cipher_default_compatibility'' then
        (case zRight of Some z \<Rightarrow> Some (1, st\<lparr>ps_w := set_default_compat (atoi z) (ps_w st)\<rparr>) | None \<Rightarrow> Some (1, st))
      else else_chain)"

definition pragma_memory_security :: "bytes \<Rightarrow> bytes option \<Rightarrow> 'e pragma_state \<Rightarrow> 'e pragma_result \<Rightarrow> 'e pragma_result" where
  "pragma_memory_security zLeft zRight st else_chain =
     (if ieq zLeft ''cipher_memory_security'' then
        (case zRight of
           Some z \<Rightarrow> Some (1, if sqlite3GetBoolean z 1 \<noteq> 0
                             then st\<lparr>ps_w := (ps_w st)\<lparr>sqlcipher_mem_security_on := 1\<rparr>\<rparr> else st)
         | None \<Rightarrow> Some (1, ret_int ''cipher_memory_security''
                       (of_bool (sqlcipher_mem_security_on (ps_w st) \<noteq> 0 \<and> sqlcipher_mem_executed (ps_w st) \<noteq> 0)) st))
      else else_chain)"

text \<open>\<open>PRAGMA <name> = <value>;\<close>\<close>

definition pragma_line :: "string \<Rightarrow> bytes \<Rightarrow> bytes" where
  "pragma_line name v = cstr ''PRAGMA '' @ cstr name @ cstr '' = '' @ v @ cstr '';''"

definition ret_line :: "string \<Rightarrow> bytes option \<Rightarrow> 'e pragma_state \<Rightarrow> 'e pragma_state" where
  "ret_line name v st = sqlcipher_vdbe_return_string ''pragma'' (map_option (pragma_line name) v) st"

definition pragma_settings :: "bytes \<Rightarrow> bytes option \<Rightarrow> 'e pragma_state \<Rightarrow> 'e pragma_result \<Rightarrow> 'e pragma_result" where
  "pragma_settings zLeft zRight st else_chain =
     (if ieq zLeft ''cipher_settings'' then
        if_ctx st (\<lambda>a ctx.
          let st = ret_line ''kdf_iter'' (Some (fmt_d (ctx_kdf_iter ctx))) st;
              st = ret_line ''cipher_page_size'' (Some (fmt_d (ctx_page_sz ctx))) st;
              st = ret_line ''cipher_use_hmac'' (Some (fmt_d (of_bool (flag_get (ctx_flags ctx) CIPHER_FLAG_HMAC)))) st;
              st = ret_line ''cipher_plaintext_header_size'' (Some (fmt_d (ctx_plaintext_header_sz ctx))) st;
              st = ret_line ''cipher_hmac_algorithm'' (map_option cstr (hmac_label (ctx_hmac_algorithm ctx))) st;
              st = ret_line ''cipher_kdf_algorithm'' (map_option cstr (kdf_label (ctx_kdf_algorithm ctx))) st
          in Some (1, st))
      else if ieq zLeft ''cipher_default_settings'' then
        (let w = ps_w st;
             st = ret_line ''cipher_default_kdf_iter'' (Some (fmt_d (default_kdf_iter w))) st;
             st = ret_line ''cipher_default_page_size'' (Some (fmt_d (default_page_size w))) st;
             st = ret_line ''cipher_default_use_hmac'' (Some (fmt_d (of_bool (flag_get (default_flags w) CIPHER_FLAG_HMAC)))) st;
             st = ret_line ''cipher_default_plaintext_header_size'' (Some (fmt_d (default_plaintext_header_size w))) st;
             st = ret_line ''cipher_default_hmac_algorithm'' (map_option cstr (hmac_label (default_hmac_algorithm w))) st;
             st = ret_line ''cipher_default_kdf_algorithm'' (map_option cstr (kdf_label (default_kdf_algorithm w))) st
         in Some (1, st))
      else else_chain)"

definition log_level_of :: "bytes \<Rightarrow> u32" where
  "log_level_of z =
     (if ieq z ''ERROR'' then SQLCIPHER_LOG_ERROR else if ieq z ''WARN'' then SQLCIPHER_LOG_WARN
      else if ieq z ''INFO'' then SQLCIPHER_LOG_INFO else if ieq z ''DEBUG'' then SQLCIPHER_LOG_DEBUG
      else if ieq z ''TRACE'' then SQLCIPHER_LOG_TRACE else SQLCIPHER_LOG_NONE)"

definition log_source_of :: "bytes \<Rightarrow> u32 \<Rightarrow> u32" where
  "log_source_of z src =
     (if ieq z ''NONE'' then SQLCIPHER_LOG_NONE else if ieq z ''ANY'' then SQLCIPHER_LOG_ANY
      else if ieq z ''CORE'' then flag_set src SQLCIPHER_LOG_CORE
      else if ieq z ''MEMORY'' then flag_set src SQLCIPHER_LOG_MEMORY
      else if ieq z ''MUTEX'' then flag_set src SQLCIPHER_LOG_MUTEX
      else if ieq z ''PROVIDER'' then flag_set src SQLCIPHER_LOG_PROVIDER else src)"

definition pragma_log ::
    "'e pragma_env \<Rightarrow> bytes \<Rightarrow> bytes option \<Rightarrow> 'e pragma_state \<Rightarrow> 'e pragma_result" where
  "pragma_log env zLeft zRight st =
     (if ieq zLeft ''cipher_integrity_check'' then
        if_ctx st (\<lambda>a ctx.
          do { (rows, ctx, w) \<leftarrow> sqlcipher_codec_ctx_integrity_check (at_bt a) ctx (ps_w st);
               Some (1, fold (\<lambda>r. sqlcipher_vdbe_return_string ''cipher_integrity_check'' (Some r)) rows
                          (put_ctx a ctx (st\<lparr>ps_w := w\<rparr>))) })
      else if ieq zLeft ''cipher_log_level'' then
        (let st = (case zRight of None \<Rightarrow> st | Some z \<Rightarrow> st\<lparr>ps_w := (ps_w st)\<lparr>sqlcipher_log_level := log_level_of z\<rparr>\<rparr>)
         in Some (1, sqlcipher_vdbe_return_string ''cipher_log_level''
                       (Some (sqlcipher_get_log_level_str (sqlcipher_log_level (ps_w st)))) st))
      else if ieq zLeft ''cipher_log_source'' then
        (let st = (case zRight of None \<Rightarrow> st
                   | Some z \<Rightarrow> st\<lparr>ps_w := (ps_w st)\<lparr>sqlcipher_log_source := log_source_of z (sqlcipher_log_source (ps_w st))\<rparr>\<rparr>)
         in Some (1, sqlcipher_vdbe_return_string ''cipher_log_source''
                       (sqlcipher_get_log_sources_str (sqlcipher_log_source (ps_w st))) st))
      else if ieq zLeft ''cipher_log'' \<and> zRight \<noteq> None then
        (case sqlcipher_set_log (env_fopen env) (the zRight) (ps_w st) of (rc, w) \<Rightarrow>
         Some (1, ret_int ''cipher_log'' rc (st\<lparr>ps_w := w\<rparr>)))
      else Some (0, st))"

definition sqlcipher_codec_pragma ::
    "'e pragma_env \<Rightarrow> bytes \<Rightarrow> bytes option \<Rightarrow> 'e pragma_state \<Rightarrow> 'e pragma_result" where
  "sqlcipher_codec_pragma env zLeft zRight st =
     do { st \<leftarrow> pragma_store_pass zLeft zRight st;
          pragma_provider env zLeft zRight st
          (pragma_kdf zLeft zRight st
          (pragma_page_size zLeft zRight st
          (pragma_hmac zLeft zRight st
          (pragma_header zLeft zRight st
          (pragma_hmac_algorithm zLeft zRight st
          (pragma_kdf_algorithm zLeft zRight st
          (pragma_compatibility zLeft zRight st
          (pragma_memory_security zLeft zRight st
          (pragma_settings zLeft zRight st
          (pragma_log env zLeft zRight st)))))))))) }"

end
