(* ===== verification/Pragma_Properties.thy ===== *)
theory Pragma_Properties
  imports Integrity_Properties Codec_Pragma
begin

text \<open>
  The properties of the \<open>PRAGMA\<close> interface: which branch a name selects, what every pragma keeps, that the
  settings one context reports can be replayed on another, and where the settings of the codec and of
  the b-tree come apart.
\<close>

section \<open>Dispatch\<close>

text \<open>A name in lower case without a zero byte.\<close>

definition plain :: "string \<Rightarrow> bool" where
  "plain s \<longleftrightarrow> list_all (\<lambda>c. UpperToLower c = c \<and> c \<noteq> 0) (cstr s)"

text \<open>\<open>z\<close> spells the name \<open>s\<close>, in upper or lower case.\<close>

definition spells :: "bytes \<Rightarrow> string \<Rightarrow> bool" where
  "spells z s \<longleftrightarrow> nul_free z \<and> ieq z s"

lemma plain_lower: "plain s \<Longrightarrow> map UpperToLower (cstr s) = cstr s" "plain s \<Longrightarrow> nul_free (cstr s)"
  by (auto simp: plain_def list_all_iff intro: map_idI)

lemma cstr_inj: "cstr s = cstr t \<longleftrightarrow> s = t"
proof -
  have "(word_of_nat (of_char c) :: u8) = word_of_nat (of_char d) \<longleftrightarrow> c = d" for c d
    using of_char_eq_iff [of c d] by (simp add: unat_of_nat word_unat_eq_iff take_bit_eq_mod)
  then have "inj (of_char :: char \<Rightarrow> u8)" by (auto simp: inj_on_def of_nat_of_char)
  then show ?thesis by (simp add: cstr_def inj_map_eq_map)
qed

lemma spells_ieq: "spells z s \<Longrightarrow> plain s \<Longrightarrow> plain t \<Longrightarrow> ieq z t \<longleftrightarrow> s = t"
  using sqlite3StrICmp_eq_0 [of z "cstr s"] sqlite3StrICmp_eq_0 [of z "cstr t"] plain_lower [of s] plain_lower [of t]
  by (simp add: spells_def sqlite3_stricmp_def cstr_inj)

lemma spells_cstr: "plain s \<Longrightarrow> spells (cstr s) s"
  using sqlite3StrICmp_eq_0 [of "cstr s" "cstr s"] plain_lower [of s] by (simp add: spells_def sqlite3_stricmp_def)

lemma plain_names [simp]:
  "plain ''cipher''" "plain ''cipher_add_random''" "plain ''cipher_compatibility''"
  "plain ''cipher_default_compatibility''" "plain ''cipher_default_hmac_algorithm''"
  "plain ''cipher_default_kdf_algorithm''" "plain ''cipher_default_kdf_iter''"
  "plain ''cipher_default_page_size''" "plain ''cipher_default_plaintext_header_size''"
  "plain ''cipher_default_settings''" "plain ''cipher_default_use_hmac''" "plain ''cipher_fips_status''"
  "plain ''cipher_hmac_algorithm''" "plain ''cipher_hmac_pgno''" "plain ''cipher_hmac_salt_mask''"
  "plain ''cipher_integrity_check''" "plain ''cipher_kdf_algorithm''" "plain ''cipher_log''"
  "plain ''cipher_log_level''" "plain ''cipher_log_source''" "plain ''cipher_memory_security''"
  "plain ''cipher_migrate''" "plain ''cipher_page_size''" "plain ''cipher_plaintext_header_size''"
  "plain ''cipher_profile''" "plain ''cipher_provider''" "plain ''cipher_provider_version''"
  "plain ''cipher_salt''" "plain ''cipher_settings''" "plain ''cipher_store_pass''"
  "plain ''cipher_use_hmac''" "plain ''cipher_version''" "plain ''fast_kdf_iter''" "plain ''kdf_iter''"
  "plain ''page_size''" "plain ''rekey_cipher''" "plain ''rekey_kdf_iter''"
  by (code_simp)+

lemmas pragma_branches = pragma_store_pass_def pragma_provider_def pragma_kdf_def pragma_page_size_def pragma_hmac_def
  pragma_header_def pragma_hmac_algorithm_def pragma_kdf_algorithm_def pragma_compatibility_def
  pragma_memory_security_def pragma_settings_def pragma_log_def

section \<open>What every pragma keeps\<close>

text \<open>The state of the process may change in its defaults and its memory, but legal allocations keep
  succeeding and memory security is never switched off.\<close>

definition world_rel :: "'e world \<Rightarrow> 'e world \<Rightarrow> bool" where
  "world_rel w w' \<longleftrightarrow> w_alloc_ok w' = w_alloc_ok w \<and> (sqlcipher_mem_security_on w \<noteq> 0 \<longrightarrow> sqlcipher_mem_security_on w' \<noteq> 0)"

definition pragma_wf :: "'e sqlcipher_provider \<Rightarrow> 'e pragma_state \<Rightarrow> bool" where
  "pragma_wf p st \<longleftrightarrow> memory_ok (ps_w st) \<and> (\<forall>a. ps_a st = Some a \<longrightarrow> attached_wf p a)"

definition pragma_rel :: "'e sqlcipher_provider \<Rightarrow> 'e pragma_state \<Rightarrow> 'e pragma_state \<Rightarrow> bool" where
  "pragma_rel p st st' \<longleftrightarrow> pragma_wf p st' \<and> world_rel (ps_w st) (ps_w st') \<and> (\<exists>r. ps_rows st' = ps_rows st @ r)"

definition pragma_ok :: "'e sqlcipher_provider \<Rightarrow> 'e pragma_state \<Rightarrow> 'e pragma_result \<Rightarrow> bool" where
  "pragma_ok p st r \<longleftrightarrow> (\<exists>rc st'. r = Some (rc, st') \<and> pragma_rel p st st')"

named_theorems pragma_intros \<open>introduction rules for what the pragmas keep\<close>

lemma world_rel_refl [pragma_intros, simp]: "world_rel w w"
  by (simp add: world_rel_def)

lemma world_rel_trans [trans]: "world_rel w w' \<Longrightarrow> world_rel w' w'' \<Longrightarrow> world_rel w w''"
  by (simp add: world_rel_def)

lemma mem_step_rel: "mem_step w w' \<Longrightarrow> world_rel w w'"
  by (simp add: world_rel_def mem_step_fields)

lemma malloc_rel:
  assumes "sqlite3Malloc n w = (got, w')"
  shows "world_rel w w'" "memory_ok w \<Longrightarrow> 0 < n \<Longrightarrow> n \<le> 2147483391 \<Longrightarrow> got"
  using assms by (auto simp: sqlite3Malloc_def sqlcipher_mem_malloc_def world_rel_def memory_ok_def split: if_splits)

lemma free_rel: "world_rel w (sqlite3_free x w)"
  by (cases x) (simp_all add: sqlite3_free_def sqlcipher_mem_free_def world_rel_def Let_def)

lemma world_rel_defaults [pragma_intros]:
  "world_rel w (w\<lparr>default_kdf_iter := n\<rparr>)" "world_rel w (w\<lparr>default_page_size := n\<rparr>)"
  "world_rel w (w\<lparr>default_plaintext_header_size := n\<rparr>)" "world_rel w (w\<lparr>default_hmac_algorithm := n\<rparr>)"
  "world_rel w (w\<lparr>default_kdf_algorithm := n\<rparr>)" "world_rel w (w\<lparr>hmac_salt_mask := m\<rparr>)"
  "world_rel w (w\<lparr>sqlcipher_log_level := l\<rparr>)" "world_rel w (w\<lparr>sqlcipher_log_source := l\<rparr>)"
  "world_rel w (w\<lparr>sqlcipher_mem_security_on := 1\<rparr>)"
  "world_rel w (sqlcipher_set_default_use_hmac u w)" "world_rel w (set_default_compat v w)"
  "world_rel w (snd (sqlcipher_set_log fopen d w))"
  by (simp_all add: world_rel_def sqlcipher_set_default_use_hmac_def set_default_compat_def compat_settings_def
      sqlcipher_set_log_def Let_def)

lemma set_pagesize_rel:
  assumes "codec_set_btree_to_codec_pagesize bt ctx w = (rc, bt', w')"
  shows "world_rel w w'"
proof -
  have pager: "world_rel w (snd (snd (sqlite3PagerSetPagesize b n w)))" for b n
  proof -
    obtain g1 w1 g2 w2 where m: "sqlite3Malloc (bt_pageSize b + 8) w = (g1, w1)" "sqlite3Malloc (bt_pageSize b) w1 = (g2, w2)"
      by (metis surj_pair)
    have "world_rel w w1" "world_rel w w2" using malloc_rel(1) [OF m(1)] malloc_rel(1) [OF m(2)] world_rel_trans by blast+
    then show ?thesis by (simp add: sqlite3PagerSetPagesize_def Let_def m)
  qed
  have "world_rel w (snd (snd (sqlite3BtreeSetPageSize b s n f w)))" for b s n f
    using pager by (simp add: sqlite3BtreeSetPageSize_def Let_def case_prod_unfold)
  then show ?thesis using assms unfolding codec_set_btree_to_codec_pagesize_def by (metis snd_conv)
qed

lemma pragma_rel_refl [pragma_intros]: "pragma_wf p st \<Longrightarrow> pragma_rel p st st"
  by (simp add: pragma_rel_def)

lemma pragma_rel_trans: "pragma_rel p st st' \<Longrightarrow> pragma_rel p st' st'' \<Longrightarrow> pragma_rel p st st''"
  by (auto simp: pragma_rel_def intro: world_rel_trans)

lemma pragma_rel_ret [pragma_intros]:
  "pragma_rel p st st' \<Longrightarrow> pragma_rel p st (sqlcipher_vdbe_return_string l v st')"
  "pragma_rel p st st' \<Longrightarrow> pragma_rel p st (ret_int l i st')"
  "pragma_rel p st st' \<Longrightarrow> pragma_rel p st (ret_text l t st')"
  "pragma_rel p st st' \<Longrightarrow> pragma_rel p st (ret_line l v st')"
  "pragma_rel p st st' \<Longrightarrow> pragma_rel p st (ret_label l lab st')"
  by (auto simp: pragma_rel_def pragma_wf_def sqlcipher_vdbe_return_string_def ret_int_def ret_text_def ret_line_def
      ret_label_def split: option.splits)

lemma pragma_rel_world [pragma_intros]:
  "pragma_wf p st \<Longrightarrow> world_rel (ps_w st) w \<Longrightarrow> pragma_rel p st (st\<lparr>ps_w := w\<rparr>)"
  by (auto simp: pragma_rel_def pragma_wf_def world_rel_def memory_ok_def)

lemma pragma_rel_profile [pragma_intros]: "pragma_wf p st \<Longrightarrow> pragma_rel p st (st\<lparr>ps_profile := t\<rparr>)"
  by (auto simp: pragma_rel_def pragma_wf_def)

lemma pragma_rel_put [pragma_intros]:
  "pragma_rel p st st' \<Longrightarrow> at_xCodecFree a \<Longrightarrow> codec_wf p ctx \<Longrightarrow> pragma_rel p st (put_ctx a ctx st')"
  by (auto simp: pragma_rel_def pragma_wf_def put_ctx_def attached_wf_def)

lemma pragma_ok_Some [pragma_intros]: "pragma_rel p st st' \<Longrightarrow> pragma_ok p st (Some (rc, st'))"
  by (simp add: pragma_ok_def)

lemma pragma_ok_if: "(c \<Longrightarrow> pragma_ok p st r) \<Longrightarrow> (\<not> c \<Longrightarrow> pragma_ok p st r') \<Longrightarrow> pragma_ok p st (if c then r else r')"
  by simp

lemma error_if_frame [simp]:
  "at_xCodecFree (error_if rc e a) = at_xCodecFree a" "at_pCodec (error_if rc e a) = at_pCodec a"
  by (simp_all add: error_if_def)

lemma if_ctx_ok [pragma_intros]:
  assumes "pragma_wf p st"
    and "\<And>a ctx. ps_a st = Some a \<Longrightarrow> at_pCodec a = Some ctx \<Longrightarrow> at_xCodecFree a \<Longrightarrow> codec_wf p ctx \<Longrightarrow> pragma_ok p st (f a ctx)"
  shows "pragma_ok p st (if_ctx st f)"
proof -
  have "pragma_ok p st (Some (1, st))" by (intro pragma_intros assms(1))
  then show ?thesis
    using assms by (auto simp: if_ctx_def sqlcipherPagerGetCodec_def pragma_wf_def attached_wf_def split: option.splits)
qed

lemma sync_pagesize_ok [pragma_intros]:
  assumes "pragma_rel p st st'" "at_xCodecFree a" "codec_wf p ctx"
  shows "pragma_ok p st (sync_pagesize e a ctx st')"
proof -
  obtain rc bt w where r: "codec_set_btree_to_codec_pagesize (at_bt a) ctx (ps_w st') = (rc, bt, w)" by (rule prod_cases3)
  have "pragma_rel p st' (put_ctx (error_if rc (e rc) (a\<lparr>at_bt := bt\<rparr>)) ctx (st'\<lparr>ps_w := w\<rparr>))"
    using assms set_pagesize_rel [OF r] by (intro pragma_intros) (auto simp: pragma_rel_def)
  then show ?thesis
    using assms(1) r by (auto simp: sync_pagesize_def intro: pragma_ok_Some pragma_rel_trans)
qed

subsection \<open>The setters\<close>

lemma codec_wf_upd [pragma_intros]:
  assumes "codec_wf p ctx"
  shows "codec_wf p (ctx\<lparr>ctx_store_pass := b\<rparr>)" "codec_wf p (snd (sqlcipher_codec_ctx_set_kdf_iter ctx n))"
    "codec_wf p (snd (sqlcipher_codec_ctx_set_fast_kdf_iter ctx n))"
    "codec_wf p (snd (sqlcipher_codec_ctx_set_kdf_algorithm ctx n))"
    "codec_wf p (snd (sqlcipher_codec_ctx_set_plaintext_header_size ctx n))"
    "codec_wf p (ctx\<lparr>ctx_flags := pgno_flags z (ctx_flags ctx)\<rparr>)"
proof -
  have c: "cipher_ctx_wf ctx' (map_option (c_derive_key_update (\<lambda>_. d)) c) = cipher_ctx_wf ctx' c" for d c and ctx' :: "'a codec_ctx"
    by (cases c) (simp_all add: cipher_ctx_wf_def)
  have h: "flag_get (pgno_flags z f) CIPHER_FLAG_HMAC = flag_get f CIPHER_FLAG_HMAC" for f
  proof -
    have "CIPHER_FLAG_LE_PGNO AND CIPHER_FLAG_HMAC = 0" "CIPHER_FLAG_BE_PGNO AND CIPHER_FLAG_HMAC = 0"
      by (simp_all add: cipher_flags)
    then show ?thesis by (simp add: pgno_flags_def flag_get_unset_other)
  qed
  show "codec_wf p (ctx\<lparr>ctx_store_pass := b\<rparr>)" "codec_wf p (ctx\<lparr>ctx_flags := pgno_flags z (ctx_flags ctx)\<rparr>)"
    "codec_wf p (snd (sqlcipher_codec_ctx_set_kdf_algorithm ctx n))"
    by (rule codec_wf_cong [OF assms];
        use assms in \<open>simp add: sizes_wf_def codec_wf_def h sqlcipher_codec_ctx_set_kdf_algorithm_def\<close>)+
  show "codec_wf p (snd (sqlcipher_codec_ctx_set_kdf_iter ctx n))"
    "codec_wf p (snd (sqlcipher_codec_ctx_set_fast_kdf_iter ctx n))"
    using assms cipher_ctx_wf_cong [of "sqlcipher_set_derive_key (ctx\<lparr>ctx_kdf_iter := n\<rparr>) 1" ctx]
      cipher_ctx_wf_cong [of "sqlcipher_set_derive_key (ctx\<lparr>ctx_fast_kdf_iter := n\<rparr>) 1" ctx]
    by (simp_all add: codec_wf_def sizes_wf_def sqlcipher_codec_ctx_set_kdf_iter_def
        sqlcipher_codec_ctx_set_fast_kdf_iter_def sqlcipher_set_derive_key_def c)
  show "codec_wf p (snd (sqlcipher_codec_ctx_set_plaintext_header_size ctx n))"
    using set_plaintext_header_size_wf(1) assms by (metis surj_pair snd_conv)
qed

lemma set_pagesize_memory_ok:
  assumes "codec_wf p ctx" "memory_ok w"
  obtains (bad) "\<not> page_size_ok sz" "sqlcipher_codec_ctx_set_pagesize ctx sz w = Some (1, ctx, w)"
  | (ok) w' where "page_size_ok sz" "mem_step w w'"
      "sqlcipher_codec_ctx_set_pagesize ctx sz w =
         Some (0, ctx\<lparr>ctx_page_sz := sz, ctx_buffer := Some (replicate (nat sz) 0)\<rparr>, w')"
      "codec_wf p (ctx\<lparr>ctx_page_sz := sz, ctx_buffer := Some (replicate (nat sz) 0)\<rparr>)"
proof -
  have "ctx_buffer ctx = None \<or> block_of (ctx_page_sz ctx) (ctx_buffer ctx)" using assms(1) by (simp add: codec_wf_def)
  then show thesis
  proof (cases rule: set_pagesize_step [where sz = sz and w = w])
    case 1: (ok w')
    then show thesis using ok set_pagesize_wf [OF assms(1) 1(3)] by blast
  next
    case (nomem w')
    then show thesis using assms(2) by (auto simp: may_fail_def memory_ok_def page_size_ok_def)
  qed (use bad in blast)
qed

lemma strlen_nul_free: "nul_free z \<Longrightarrow> length z < 2 ^ 30 \<Longrightarrow> sqlite3Strlen30 (Some z) = int (length z)"
proof -
  assume z: "nul_free z" "length z < 2 ^ 30"
  have "takeWhile (\<lambda>c. c \<noteq> 0) z = z" by (rule takeWhile_eq_all_conv [THEN iffD2]) (use z(1) in auto)
  moreover have "(0x3fffffff :: int) AND int (length z) = int (length z)"
    using z(2) take_bit_int_eq_self [of "int (length z)" 30] take_bit_eq_mask [of 30 "int (length z)"]
    by (simp add: mask_eq_exp_minus_1 and.commute)
  ultimately show ?thesis by (simp only: sqlite3Strlen30_def option.case)
qed

definition arg_ok :: "bytes option \<Rightarrow> bool" where
  "arg_ok zRight \<longleftrightarrow> (\<forall>z. zRight = Some z \<longrightarrow> nul_free z \<and> length z < 2 ^ 30)"

subsection \<open>The branches\<close>

lemma pragma_store_pass_keeps:
  assumes "pragma_wf p st"
  shows "\<exists>st'. pragma_store_pass zLeft zRight st = Some st' \<and> pragma_rel p st st'"
proof -
  have "ctx_provider ctx = Some p" if "codec_wf p ctx" for ctx using that by (simp add: codec_wf_def sizes_wf_def)
  then have "pragma_ok p st
      (if ieq zLeft ''cipher_fips_status'' \<and> zRight = None then
         if_ctx st (\<lambda>a ctx. do { p \<leftarrow> ctx_provider ctx;
                                 Some (1, ret_int ''cipher_fips_status'' (p_fips_status p) st) })
       else if ieq zLeft ''cipher_store_pass'' \<and> zRight \<noteq> None then
         if_ctx st (\<lambda>a ctx.
           Some (1, ret_text ''cipher_store_pass'' ''PRAGMA cipher_store_pass is deprecated, please remove from use''
                      (put_ctx a (ctx\<lparr>ctx_store_pass := sqlite3GetBoolean (the zRight) 1\<rparr>) st)))
       else if ieq zLeft ''cipher_store_pass'' \<and> zRight = None then
         if_ctx st (\<lambda>a ctx. Some (1, ret_int ''cipher_store_pass'' (ctx_store_pass ctx) st))
       else Some (0, st))"
    using assms by (auto intro!: pragma_intros)
  then show ?thesis unfolding pragma_store_pass_def pragma_ok_def by auto
qed

lemma add_random_keeps:
  assumes "codec_wf p ctx" "memory_ok w" "nul_free z" "length z < 2 ^ 30"
  obtains rc w' where "sqlcipher_codec_add_random ctx z (sqlite3Strlen30 (Some z)) w = Some (rc, w')" "world_rel w w'"
proof -
  define n where "n = int (length z) - 3"
  define fits where "fits \<longleftrightarrow> n > 0 \<and> sqlite3_strnicmp (Some z) (Some [120, 39]) 2 = 0
      \<and> sqlite3_strnicmp (Some (drop (nat (int (length z) - 1)) z)) (Some [39]) 1 = 0 \<and> n mod 2 = 0"
  have run: "sqlcipher_codec_add_random ctx z (sqlite3Strlen30 (Some z)) w =
     (if fits then do {
        let (m, w) = sqlcipher_malloc (n div 2) w;
        b \<leftarrow> m;
        b \<leftarrow> cipher_hex2bin (drop 2 z) n b;
        p \<leftarrow> ctx_provider ctx;
        let (rc, e) = p_add_random p (w_entropy w) b;
        w \<leftarrow> sqlcipher_free (Some b) (n div 2) (w\<lparr>w_entropy := e\<rparr>);
        Some (rc, w) }
      else Some (SQLITE_ERROR, w))"
    unfolding sqlcipher_codec_add_random_def fits_def n_def strlen_nul_free [OF assms(3,4)] Let_def by (rule refl)
  show thesis
  proof (cases fits)
    case False
    then show thesis using run by (intro that [of SQLITE_ERROR w]) simp_all
  next
    case True
    have n: "0 < n" "even n" "n \<le> 2147483391" using True assms(4) by (auto simp: fits_def n_def)
    obtain m w1 where m: "sqlcipher_malloc (n div 2) w = (m, w1)" by fastforce
    have "\<not> may_fail w (n div 2)" using assms(2) n by (auto simp: may_fail_def memory_ok_def)
    then obtain b where b: "m = Some b" "b = replicate (nat (n div 2)) 0" using malloc_step(2,3) [OF m] by (cases m) auto
    have len: "int (length b) = n div 2" "n \<le> int (length (drop 2 z))" using b n by (auto simp: n_def)
    have "n \<le> 2 * int (length b)" using len n by simp
    then have "cipher_hex2bin (drop 2 z) n b = poke b 0 (hexpairs (take (nat n) (drop 2 z)))"
      using n len by (intro cipher_hex2bin_closed) simp_all
    moreover have "int (length (hexpairs (take (nat n) (drop 2 z)))) = n div 2"
    proof -
      have "length (take (nat n) (drop 2 z)) = nat n" using len(2) n by auto
      then show ?thesis using zdiv_int [of "nat n" 2] n by simp
    qed
    ultimately obtain b' where b': "cipher_hex2bin (drop 2 z) n b = Some b'" "int (length b') = n div 2"
      using poke_defined [of 0 "hexpairs (take (nat n) (drop 2 z))" b] len(1) by auto
    have p: "ctx_provider ctx = Some p" using assms(1) by (simp add: codec_wf_def sizes_wf_def)
    obtain rc e where e: "p_add_random p (w_entropy w1) b' = (rc, e)" by fastforce
    obtain w2 where w2: "sqlcipher_free (Some b') (n div 2) (w1\<lparr>w_entropy := e\<rparr>) = Some w2"
        "mem_step (w1\<lparr>w_entropy := e\<rparr>) w2"
      using free_step [of "Some b'" "n div 2" "w1\<lparr>w_entropy := e\<rparr>"] b'(2) by (auto simp: free_if_def)
    have "world_rel w w2"
      using mem_step_rel [OF malloc_step(1) [OF m]] mem_step_rel [OF w2(2)] by (simp add: world_rel_def)
    moreover have "sqlcipher_codec_add_random ctx z (sqlite3Strlen30 (Some z)) w = Some (rc, w2)"
      unfolding run by (simp add: True m b(1) b'(1) p e w2(1))
    ultimately show thesis by (rule that [rotated])
  qed
qed

lemma pragma_provider_keeps:
  assumes "pragma_wf p st" "arg_ok zRight" "\<not> ieq zLeft ''cipher_migrate''" "pragma_ok p st r"
  shows "pragma_ok p st (pragma_provider env zLeft zRight st r)"
proof -
  have prov: "ctx_provider ctx = Some p" if "codec_wf p ctx" for ctx using that by (simp add: codec_wf_def sizes_wf_def)
  have rnd: "pragma_ok p st (do { (rc, w) \<leftarrow> sqlcipher_codec_add_random ctx (the zRight) (sqlite3Strlen30 zRight) (ps_w st);
               Some (1, ret_int l rc (st\<lparr>ps_w := w\<rparr>)) })" if wf: "codec_wf p ctx" and some: "zRight \<noteq> None" for ctx l
  proof -
    from some obtain z where z: "zRight = Some z" "nul_free z" "length z < 2 ^ 30" using assms(2) by (auto simp: arg_ok_def)
    have m: "memory_ok (ps_w st)" using assms(1) by (simp add: pragma_wf_def)
    obtain rc w' where "sqlcipher_codec_add_random ctx z (sqlite3Strlen30 (Some z)) (ps_w st) = Some (rc, w')" "world_rel (ps_w st) w'"
      using add_random_keeps [OF wf m z(2,3)] by blast
    then show ?thesis using z(1) assms(1) by (auto intro!: pragma_intros)
  qed
  show ?thesis
    unfolding pragma_provider_def using assms prov rnd
    by (auto intro!: pragma_intros split: prod.splits)
qed

lemma pragma_kdf_keeps:
  "pragma_wf p st \<Longrightarrow> pragma_ok p st r \<Longrightarrow> pragma_ok p st (pragma_kdf zLeft zRight st r)"
  unfolding pragma_kdf_def by (auto intro!: pragma_intros split: option.splits)

lemma pragma_page_size_keeps:
  assumes wf: "pragma_wf p st" and p: "provider_sizes p" and r: "pragma_ok p st r"
  shows "pragma_ok p st (pragma_page_size zLeft zRight st r)"
proof -
  have m: "memory_ok (ps_w st)" using wf by (simp add: pragma_wf_def)
  have 1: "pragma_ok p st (do { (rc, ctx, w) \<leftarrow> sqlcipher_codec_ctx_set_pagesize ctx sz (ps_w st);
             sync_pagesize (\<lambda>rc. rc) (error_if rc rc a) ctx (st\<lparr>ps_w := w\<rparr>) })"
    if "codec_wf p ctx" "at_xCodecFree a" for ctx a sz
    by (rule set_pagesize_memory_ok [OF that(1) m, of sz]) (use that wf in \<open>auto intro!: pragma_intros mem_step_rel\<close>)
  have 2: "pragma_ok p st (do { (rc, ctx) \<leftarrow> sqlcipher_codec_ctx_set_use_hmac ctx u;
             sync_pagesize (\<lambda>rc. rc) (error_if rc rc a) ctx st })"
    if "codec_wf p ctx" "at_xCodecFree a" for ctx a u
    using set_use_hmac_wf [OF p that(1), of u] that(2) wf by (auto intro!: pragma_intros)
  show ?thesis
    unfolding pragma_page_size_def using wf r 1 2 by (auto intro!: pragma_intros split: option.splits)
qed

lemma pragma_hmac_keeps:
  assumes wf: "pragma_wf p st" and z: "arg_ok zRight" and r: "pragma_ok p st r"
  shows "pragma_ok p st (pragma_hmac zLeft zRight st r)"
proof -
  have "pragma_ok p st (do { w \<leftarrow> (if sqlite3_strnicmp (Some z) (Some [120, 39]) 2 = 0 \<and> sqlite3Strlen30 (Some z) = 5
                          then do { m \<leftarrow> cipher_hex2bin (drop 2 z) 2 [0]; Some ((ps_w st)\<lparr>hmac_salt_mask := hd m\<rparr>) }
                          else Some (ps_w st));
                   Some (1, ret_text l t (st\<lparr>ps_w := w\<rparr>)) })" if "zRight = Some z" for z l t
  proof (cases "sqlite3Strlen30 (Some z) = 5")
    case True
    then have "length z = 5" using z that strlen_nul_free [of z] by (simp add: arg_ok_def)
    then obtain m where "cipher_hex2bin (drop 2 z) 2 [0] = Some m"
      using cipher_hex2bin_closed [of 2 "drop 2 z" "[0]"] poke_defined [of 0 "hexpairs (take 2 (drop 2 z))" "[0]"] by auto
    then show ?thesis using wf by (auto intro!: pragma_intros)
  next
    case False
    then show ?thesis using wf by (auto intro!: pragma_intros)
  qed
  note mask = this
  show ?thesis
    unfolding pragma_hmac_def using wf r
    by (cases zRight) (auto intro!: pragma_ok_if pragma_intros mask split del: if_split)
qed

lemma set_kdf_salt_keeps:
  assumes "codec_wf p ctx" "length s = 16"
  shows "sqlcipher_codec_ctx_set_kdf_salt ctx s FILE_HEADER_SZ =
     Some (0, ctx\<lparr>ctx_kdf_salt := Some s, ctx_flags := flag_set (ctx_flags ctx) CIPHER_FLAG_HAS_KDF_SALT\<rparr>)"
    and "codec_wf p (ctx\<lparr>ctx_kdf_salt := Some s, ctx_flags := flag_set (ctx_flags ctx) CIPHER_FLAG_HAS_KDF_SALT\<rparr>)"
proof -
  have "ctx_kdf_salt_sz ctx = 16" and b: "block_of 16 (ctx_kdf_salt ctx)" using assms(1) by (simp_all add: codec_wf_def sizes_wf_def)
  then show "sqlcipher_codec_ctx_set_kdf_salt ctx s FILE_HEADER_SZ =
     Some (0, ctx\<lparr>ctx_kdf_salt := Some s, ctx_flags := flag_set (ctx_flags ctx) CIPHER_FLAG_HAS_KDF_SALT\<rparr>)"
    using assms(2) by (auto simp: sqlcipher_codec_ctx_set_kdf_salt_def block_of_def peek_whole poke_whole)
  show "codec_wf p (ctx\<lparr>ctx_kdf_salt := Some s, ctx_flags := flag_set (ctx_flags ctx) CIPHER_FLAG_HAS_KDF_SALT\<rparr>)"
    by (rule salted_wf [OF salted_has_salt [OF assms] assms(1)])
qed

lemma get_kdf_salt_keeps:
  assumes cc: "commoncrypto_ok cc" and p: "p = sqlcipher_cc_setup cc" and wf: "codec_wf p ctx"
  obtains rc s ctx' w' where "sqlcipher_codec_ctx_get_kdf_salt bt ctx w = Some (rc, Some s, ctx', w')" "length s = 16"
    "codec_wf p ctx'" "mem_step w w'"
proof -
  obtain rc ctx' w' where 1: "sqlcipher_codec_ctx_get_kdf_salt bt ctx w = Some (rc, ctx_kdf_salt ctx', ctx', w')"
    "mem_step w w'" "salted ctx ctx'"
  proof (rule cc.init_kdf_salt_step [OF cc wf [unfolded p], of bt w], goal_cases)
    case (1 ctx' w')
    then show ?case
      using salted_refl [OF wf] by (cases "flag_get (ctx_flags ctx) CIPHER_FLAG_HAS_KDF_SALT")
        (auto simp: sqlcipher_codec_ctx_get_kdf_salt_def)
  next
    case (2 ctx' w')
    then show ?case
      using salted_refl [OF wf] by (cases "flag_get (ctx_flags ctx) CIPHER_FLAG_HAS_KDF_SALT")
        (auto simp: sqlcipher_codec_ctx_get_kdf_salt_def)
  qed
  have "codec_wf p ctx'" using salted_wf [OF 1(3) wf] .
  moreover from this obtain s where "ctx_kdf_salt ctx' = Some s" "length s = 16" by (auto simp: codec_wf_def block_of_def)
  ultimately show thesis using that 1 by metis
qed

lemma pragma_salt_keeps:
  assumes cc: "commoncrypto_ok cc" "p = sqlcipher_cc_setup cc" and wf: "pragma_wf p st" and arg: "arg_ok zRight"
    and a: "at_xCodecFree a" "codec_wf p ctx"
  shows "pragma_ok p st (pragma_salt zRight st a ctx)"
proof (cases zRight)
  case None
  obtain got w where m: "sqlite3Malloc 33 (ps_w st) = (got, w)" by fastforce
  have got: "got" "world_rel (ps_w st) w" using malloc_rel [OF m] wf by (simp_all add: pragma_wf_def)
  obtain rc s ctx' w' where g: "sqlcipher_codec_ctx_get_kdf_salt (at_bt a) ctx w = Some (rc, Some s, ctx', w')"
    "length s = 16" "codec_wf p ctx'" "mem_step w w'" by (rule get_kdf_salt_keeps [OF cc a(2)])
  have w': "world_rel (ps_w st) w'" using got(2) mem_step_rel [OF g(4)] by (rule world_rel_trans)
  obtain h where h: "cipher_bin2hex s 16 (replicate 33 0) = Some h"
    using g(2) cipher_bin2hex_closed [of 16 s "replicate 33 0"] poke_defined [of 0 "concat (map hex2 (take 16 s)) @ [0]" "replicate 33 0"]
    by auto
  have "world_rel (ps_w st) (sqlite3_free (Some (replicate 33 0)) w')" using w' free_rel by (rule world_rel_trans)
  with None m got g w' h wf a show ?thesis
    by (auto simp: pragma_salt_def intro!: pragma_intros)
next
  case (Some z)
  show ?thesis
  proof (cases "sqlite3_strnicmp (Some z) (Some [120, 39]) 2 = 0 \<and> sqlite3Strlen30 (Some z) = 35")
    case False
    then show ?thesis using Some wf by (auto simp: pragma_salt_def intro!: pragma_intros)
  next
    case True
    have l: "length z = 35" using arg Some True strlen_nul_free [of z] by (simp add: arg_ok_def)
    obtain got w where m: "sqlite3Malloc 16 (ps_w st) = (got, w)" by fastforce
    have got: "got" "world_rel (ps_w st) w" using malloc_rel [OF m] wf by (simp_all add: pragma_wf_def)
    obtain s where s: "cipher_hex2bin (drop 2 z) 32 (replicate 16 0) = Some s" "length s = 16"
      using l cipher_hex2bin_closed [of 32 "drop 2 z" "replicate 16 0"]
        poke_defined [of 0 "hexpairs (take 32 (drop 2 z))" "replicate 16 0"] by auto
    have w': "world_rel (ps_w st) (sqlite3_free (Some s) w)" using got(2) free_rel by (rule world_rel_trans)
    show ?thesis
      using Some True m got s set_kdf_salt_keeps [OF a(2) s(2)] w' wf a
      by (auto simp: pragma_salt_def intro!: pragma_intros)
  qed
qed

lemma pragma_header_keeps:
  assumes "commoncrypto_ok cc" "p = sqlcipher_cc_setup cc" "pragma_wf p st" "arg_ok zRight" "pragma_ok p st r"
  shows "pragma_ok p st (pragma_header zLeft zRight st r)"
  unfolding pragma_header_def using assms by (auto intro!: pragma_intros pragma_salt_keeps split: option.splits)

lemma pragma_algorithms_keep:
  assumes wf: "pragma_wf p st" and p: "provider_sizes p" and r: "pragma_ok p st r"
  shows "pragma_ok p st (pragma_hmac_algorithm zLeft zRight st r)" "pragma_ok p st (pragma_kdf_algorithm zLeft zRight st r)"
proof -
  have "pragma_ok p st (do { (rc, ctx) \<leftarrow> (case l of None \<Rightarrow> Some (SQLITE_ERROR, ctx)
             | Some alg \<Rightarrow> sqlcipher_codec_ctx_set_hmac_algorithm ctx alg);
             sync_pagesize (\<lambda>rc. SQLITE_ERROR) (error_if rc SQLITE_ERROR a) ctx st })"
    if "codec_wf p ctx" "at_xCodecFree a" for ctx a l
  proof (cases l)
    case (Some alg)
    then show ?thesis using set_hmac_algorithm_wf [OF p that(1), of alg] that wf by (auto intro!: pragma_intros)
  qed (use that wf in \<open>auto intro!: pragma_intros\<close>)
  note hmac_Some = this [where l = "Some alg" for alg, simplified]
  show "pragma_ok p st (pragma_hmac_algorithm zLeft zRight st r)"
    unfolding pragma_hmac_algorithm_def using wf r
    by (cases zRight; cases "hmac_of_label (the zRight)") (auto intro!: pragma_ok_if pragma_intros hmac_Some split del: if_split)
  show "pragma_ok p st (pragma_kdf_algorithm zLeft zRight st r)"
    unfolding pragma_kdf_algorithm_def using wf r codec_wf_upd(4)
    by (auto intro!: pragma_intros simp: sqlcipher_codec_ctx_set_kdf_algorithm_def split: option.splits)
qed

lemma compat_page_size: "page_size_ok (fst (compat_settings v))"
  by (simp add: compat_settings_def page_size_ok_def)

text \<open>The context \<open>PRAGMA cipher_compatibility\<close> leaves.\<close>

definition compat_ctx :: "'e sqlcipher_provider \<Rightarrow> int \<Rightarrow> 'e codec_ctx \<Rightarrow> 'e codec_ctx \<Rightarrow> bool" where
  "compat_ctx p v ctx ctx' \<longleftrightarrow>
     (case compat_settings v of (page_sz, hmac_alg, kdf_alg, iter, use) \<Rightarrow>
        ctx_page_sz ctx' = page_sz \<and> ctx_hmac_algorithm ctx' = hmac_alg \<and> ctx_kdf_algorithm ctx' = kdf_alg
      \<and> ctx_kdf_iter ctx' = iter \<and> flag_get (ctx_flags ctx') CIPHER_FLAG_HMAC = (use \<noteq> 0)
      \<and> ctx_plaintext_header_sz ctx' = ctx_plaintext_header_sz ctx)
   \<and> codec_wf p ctx'"

lemma set_hmac_algorithm_frame:
  assumes "sqlcipher_codec_ctx_set_hmac_algorithm ctx a = Some (rc, ctx')"
  shows "ctx_page_sz ctx' = ctx_page_sz ctx" "ctx_plaintext_header_sz ctx' = ctx_plaintext_header_sz ctx"
    "ctx_kdf_iter ctx' = ctx_kdf_iter ctx" "ctx_kdf_algorithm ctx' = ctx_kdf_algorithm ctx" "ctx_flags ctx' = ctx_flags ctx"
  using assms
  by (auto simp: sqlcipher_codec_ctx_set_hmac_algorithm_def sqlcipher_codec_ctx_reserve_setup_def Let_def
      split: if_splits bind_splits)

lemma set_use_hmac_frame:
  assumes "sqlcipher_codec_ctx_set_use_hmac ctx u = Some (rc, ctx')"
  shows "ctx_page_sz ctx' = ctx_page_sz ctx" "ctx_plaintext_header_sz ctx' = ctx_plaintext_header_sz ctx"
    "ctx_hmac_algorithm ctx' = ctx_hmac_algorithm ctx" "ctx_kdf_algorithm ctx' = ctx_kdf_algorithm ctx"
    "ctx_kdf_iter ctx' = ctx_kdf_iter ctx"
  using assms
  by (auto simp: sqlcipher_codec_ctx_set_use_hmac_def sqlcipher_codec_ctx_reserve_setup_def Let_def
      split: if_splits bind_splits)

lemma set_compat_step:
  assumes p: "provider_sizes p" and wf: "codec_wf p ctx" and m: "memory_ok (ps_w st)"
  obtains ctx' w' where "set_compat v a ctx st = sync_pagesize (\<lambda>rc. SQLITE_ERROR) a ctx' (st\<lparr>ps_w := w'\<rparr>)"
    "mem_step (ps_w st) w'" "compat_ctx p v ctx ctx'"
proof -
  obtain page_sz hmac_alg kdf_alg iter use where s: "compat_settings v = (page_sz, hmac_alg, kdf_alg, iter, use)"
    by (rule prod_cases5)
  have pok: "page_size_ok page_sz" using compat_page_size [of v] s by simp
  obtain ctx1 w1 where 1: "sqlcipher_codec_ctx_set_pagesize ctx page_sz (ps_w st) = Some (0, ctx1, w1)" "mem_step (ps_w st) w1"
      "codec_wf p ctx1" "ctx_page_sz ctx1 = page_sz" "ctx_plaintext_header_sz ctx1 = ctx_plaintext_header_sz ctx"
    by (rule set_pagesize_memory_ok [OF wf m, of page_sz]) (use pok in auto)
  obtain ctx2 where 2: "sqlcipher_codec_ctx_set_hmac_algorithm ctx1 hmac_alg = Some (0, ctx2)" "codec_wf p ctx2"
      "ctx_hmac_algorithm ctx2 = hmac_alg"
    using set_hmac_algorithm_wf [OF p 1(3)] by blast
  note f2 = set_hmac_algorithm_frame [OF 2(1)]
  let ?k = "snd (sqlcipher_codec_ctx_set_kdf_algorithm ctx2 kdf_alg)"
  let ?i = "snd (sqlcipher_codec_ctx_set_kdf_iter ?k iter)"
  have i: "codec_wf p ?i" by (intro codec_wf_upd 2)
  obtain ctx3 where 3: "sqlcipher_codec_ctx_set_use_hmac ?i use = Some (0, ctx3)" "codec_wf p ctx3"
      "flag_get (ctx_flags ctx3) CIPHER_FLAG_HMAC = (use \<noteq> 0)"
    using set_use_hmac_wf [OF p i] by blast
  have "compat_ctx p v ctx ctx3"
    using set_use_hmac_frame [OF 3(1)] 3 2 1 f2
    by (simp add: compat_ctx_def s sqlcipher_codec_ctx_set_kdf_iter_def sqlcipher_set_derive_key_def
        sqlcipher_codec_ctx_set_kdf_algorithm_def)
  moreover have "set_compat v a ctx st = sync_pagesize (\<lambda>rc. SQLITE_ERROR) a ctx3 (st\<lparr>ps_w := w1\<rparr>)"
    using 1(1) 2(1) 3(1)
    by (simp add: set_compat_def s error_if_def sqlcipher_codec_ctx_set_kdf_iter_def sqlcipher_codec_ctx_set_kdf_algorithm_def)
  ultimately show thesis using 1(2) that by blast
qed

lemma pragma_rest_keeps:
  assumes wf: "pragma_wf p st" and p: "provider_sizes p" and r: "pragma_ok p st r"
  shows "pragma_ok p st (pragma_compatibility zLeft zRight st r)" "pragma_ok p st (pragma_memory_security zLeft zRight st r)"
    "pragma_ok p st (pragma_settings zLeft zRight st r)"
proof -
  have m: "memory_ok (ps_w st)" using wf by (simp add: pragma_wf_def)
  have "pragma_ok p st (set_compat v a ctx st)" if "codec_wf p ctx" "at_xCodecFree a" for v a ctx
    by (rule set_compat_step [OF p that(1) m, of v a])
       (use that wf in \<open>auto intro!: pragma_intros mem_step_rel simp: compat_ctx_def\<close>)
  then show "pragma_ok p st (pragma_compatibility zLeft zRight st r)"
    unfolding pragma_compatibility_def using wf r by (auto intro!: pragma_intros split: option.splits)
  show "pragma_ok p st (pragma_memory_security zLeft zRight st r)"
    unfolding pragma_memory_security_def using wf r by (auto intro!: pragma_intros split: option.splits)
  show "pragma_ok p st (pragma_settings zLeft zRight st r)"
    unfolding pragma_settings_def Let_def using wf r by (auto intro!: pragma_intros)
qed

lemma pragma_log_keeps:
  assumes "pragma_wf p st" "\<not> ieq zLeft ''cipher_integrity_check''"
  shows "pragma_ok p st (pragma_log env zLeft zRight st)"
proof -
  have "pragma_ok p st (case sqlcipher_set_log f d (ps_w st) of (rc, w) \<Rightarrow> Some (1, ret_int l rc (st\<lparr>ps_w := w\<rparr>)))" for f d l
    using world_rel_defaults(12) [of "ps_w st" f d] assms(1) by (auto intro!: pragma_intros split: prod.splits)
  then show ?thesis
    unfolding pragma_log_def Let_def using assms by (auto intro!: pragma_intros split: option.splits)
qed


definition sample_env :: "nat pragma_env" where
  "sample_env = \<lparr> env_migrate = (\<lambda>a w. (0, a, w)), env_fopen = (\<lambda>_. True) \<rparr>"

definition sample_st :: "nat pragma_state" where
  "sample_st = \<lparr> ps_a = Some \<lparr> at_bt = sample_bt, at_pCodec = Some sample_ctx, at_xCodecFree = True \<rparr>,
     ps_w = sample_world, ps_rows = [], ps_profile = None \<rparr>"

lemma sample_st_wf: "memory_ok (ps_w sample_st)" "ps_a sample_st = Some a \<Longrightarrow> attached_wf sample_prov a"
  using sample_world_ok(1) sample_wf by (auto simp: sample_st_def attached_wf_def)


section \<open>Settings\<close>

text \<open>The state has this context open.\<close>

definition holds :: "'e sqlcipher_provider \<Rightarrow> 'e pragma_state \<Rightarrow> 'e codec_ctx \<Rightarrow> bool" where
  "holds p st ctx \<longleftrightarrow> memory_ok (ps_w st) \<and> codec_wf p ctx
     \<and> (\<exists>a. ps_a st = Some a \<and> at_pCodec a = Some ctx \<and> at_xCodecFree a)"

lemma holds_if_ctx: "holds p st ctx \<Longrightarrow> \<exists>a. if_ctx st f = f a ctx \<and> ps_a st = Some a \<and> at_xCodecFree a"
  by (auto simp: holds_def if_ctx_def sqlcipherPagerGetCodec_def)

lemma holds_put: "codec_wf p ctx \<Longrightarrow> at_xCodecFree a \<Longrightarrow> memory_ok (ps_w st) \<Longrightarrow> holds p (put_ctx a ctx st) ctx"
  by (simp add: holds_def put_ctx_def)

lemma sync_holds:
  assumes "codec_wf p ctx" "at_xCodecFree a" "memory_ok (ps_w st)"
  shows "\<exists>st'. sync_pagesize e a ctx st = Some (1, st') \<and> holds p st' ctx"
proof -
  obtain rc bt w where r: "codec_set_btree_to_codec_pagesize (at_bt a) ctx (ps_w st) = (rc, bt, w)" by (rule prod_cases3)
  have "memory_ok w" using set_pagesize_rel [OF r] assms(3) by (simp add: world_rel_def memory_ok_def)
  then show ?thesis using assms r by (auto simp: sync_pagesize_def intro: holds_put)
qed


lemma sample_holds: "holds sample_prov sample_st sample_ctx"
  using sample_wf sample_st_wf(1) by (simp add: holds_def sample_st_def)


subsection \<open>Replaying the settings\<close>

text \<open>The statements \<open>PRAGMA cipher_settings\<close> prints for a context: name and value.\<close>

definition settings_rows :: "'e codec_ctx \<Rightarrow> (string \<times> bytes option) list" where
  "settings_rows ctx =
     [(''kdf_iter'', Some (fmt_d (ctx_kdf_iter ctx))), (''cipher_page_size'', Some (fmt_d (ctx_page_sz ctx))),
      (''cipher_use_hmac'', Some (fmt_d (of_bool (flag_get (ctx_flags ctx) CIPHER_FLAG_HMAC)))),
      (''cipher_plaintext_header_size'', Some (fmt_d (ctx_plaintext_header_sz ctx))),
      (''cipher_hmac_algorithm'', map_option cstr (hmac_label (ctx_hmac_algorithm ctx))),
      (''cipher_kdf_algorithm'', map_option cstr (kdf_label (ctx_kdf_algorithm ctx)))]"

text \<open>Running a list of pragmas.\<close>

fun run_pragmas :: "'e pragma_env \<Rightarrow> (string \<times> bytes option) list \<Rightarrow> 'e pragma_state \<Rightarrow> 'e pragma_state option" where
  "run_pragmas env [] st = Some st"
| "run_pragmas env ((name, v) # rest) st =
     do { (_, st) \<leftarrow> sqlcipher_codec_pragma env (cstr name) v st; run_pragmas env rest st }"

definition same_settings :: "'e codec_ctx \<Rightarrow> 'e codec_ctx \<Rightarrow> bool" where
  "same_settings x y \<longleftrightarrow> ctx_kdf_iter x = ctx_kdf_iter y \<and> ctx_page_sz x = ctx_page_sz y
     \<and> flag_get (ctx_flags x) CIPHER_FLAG_HMAC = flag_get (ctx_flags y) CIPHER_FLAG_HMAC
     \<and> ctx_plaintext_header_sz x = ctx_plaintext_header_sz y \<and> ctx_hmac_algorithm x = ctx_hmac_algorithm y
     \<and> ctx_kdf_algorithm x = ctx_kdf_algorithm y \<and> ctx_hmac_sz x = ctx_hmac_sz y \<and> ctx_reserve_sz x = ctx_reserve_sz y"

lemma labels_read_back:
  "hmac_label a = Some l \<Longrightarrow> hmac_of_label (cstr l) = Some a" "kdf_label a = Some l \<Longrightarrow> kdf_of_label (cstr l) = Some a"
proof -
  have "hmac_of_label (cstr ''HMAC_SHA1'') = Some 0" "hmac_of_label (cstr ''HMAC_SHA256'') = Some 1"
    "hmac_of_label (cstr ''HMAC_SHA512'') = Some 2" "kdf_of_label (cstr ''PBKDF2_HMAC_SHA1'') = Some 0"
    "kdf_of_label (cstr ''PBKDF2_HMAC_SHA256'') = Some 1" "kdf_of_label (cstr ''PBKDF2_HMAC_SHA512'') = Some 2"
    by code_simp+
  then show "hmac_label a = Some l \<Longrightarrow> hmac_of_label (cstr l) = Some a" "kdf_label a = Some l \<Longrightarrow> kdf_of_label (cstr l) = Some a"
    by (auto simp: hmac_label_def kdf_label_def split: if_splits)
qed

lemma boolean_read_back: "sqlite3GetBoolean (fmt_d (of_bool b)) 1 = of_bool b"
proof -
  have "sqlite3GetBoolean (fmt_d 0) 1 = 0" "sqlite3GetBoolean (fmt_d 1) 1 = 1" by code_simp+
  then show ?thesis by (cases b) simp_all
qed

text \<open>One step of the replay: the pragma of a setting applies its setter to the open context.\<close>

lemmas replay_branch = sqlcipher_codec_pragma_def pragma_branches spells_ieq [OF spells_cstr]

lemma step_kdf_iter:
  assumes "holds p st ctx"
  shows "\<exists>st'. sqlcipher_codec_pragma env (cstr ''kdf_iter'') (Some v) st = Some (1, st')
     \<and> holds p st' (snd (sqlcipher_codec_ctx_set_kdf_iter ctx (atoi v)))"
  using assms codec_wf_upd(2) [of p ctx "atoi v"] holds_if_ctx [OF assms]
  by (auto simp: replay_branch holds_def put_ctx_def if_ctx_def sqlcipherPagerGetCodec_def)

lemma step_header:
  assumes "holds p st ctx"
  shows "\<exists>st'. sqlcipher_codec_pragma env (cstr ''cipher_plaintext_header_size'') (Some v) st = Some (1, st')
     \<and> holds p st' (snd (sqlcipher_codec_ctx_set_plaintext_header_size ctx (atoi v)))"
  using assms codec_wf_upd(5) [of p ctx "atoi v"] holds_if_ctx [OF assms]
  by (auto simp: replay_branch holds_def put_ctx_def if_ctx_def sqlcipherPagerGetCodec_def)

lemma step_kdf_algorithm:
  assumes "holds p st ctx" "kdf_of_label v = Some alg"
  shows "\<exists>st'. sqlcipher_codec_pragma env (cstr ''cipher_kdf_algorithm'') (Some v) st = Some (1, st')
     \<and> holds p st' (snd (sqlcipher_codec_ctx_set_kdf_algorithm ctx alg))"
  using assms codec_wf_upd(4) [of p ctx alg] holds_if_ctx [OF assms(1)]
  by (auto simp: replay_branch holds_def put_ctx_def if_ctx_def sqlcipherPagerGetCodec_def
      sqlcipher_codec_ctx_set_kdf_algorithm_def)

lemma step_page_size:
  assumes "holds p st ctx" "page_size_ok (atoi v)"
  shows "\<exists>st'. sqlcipher_codec_pragma env (cstr ''cipher_page_size'') (Some v) st = Some (1, st')
     \<and> holds p st' (ctx\<lparr>ctx_page_sz := atoi v, ctx_buffer := Some (replicate (nat (atoi v)) 0)\<rparr>)"
proof -
  obtain a where a: "ps_a st = Some a" "at_pCodec a = Some ctx" "at_xCodecFree a" and wf: "codec_wf p ctx" "memory_ok (ps_w st)"
    using assms(1) by (auto simp: holds_def)
  let ?c = "ctx\<lparr>ctx_page_sz := atoi v, ctx_buffer := Some (replicate (nat (atoi v)) 0)\<rparr>"
  obtain w' where w: "sqlcipher_codec_ctx_set_pagesize ctx (atoi v) (ps_w st) = Some (0, ?c, w')" "codec_wf p ?c" "mem_step (ps_w st) w'"
    by (rule set_pagesize_memory_ok [OF wf, of "atoi v"]) (use assms(2) in auto)
  have "memory_ok (ps_w (st\<lparr>ps_w := w'\<rparr>))" using w(3) wf(2) by (simp add: memory_ok_def mem_step_fields)
  from sync_holds [OF w(2) a(3) this, of "\<lambda>rc. rc"] show ?thesis
    using a w(1) by (simp add: replay_branch if_ctx_def sqlcipherPagerGetCodec_def error_if_def)
qed

lemma step_use_hmac:
  assumes "holds p st ctx" "provider_sizes p" "sqlcipher_codec_ctx_set_use_hmac ctx (sqlite3GetBoolean v 1) = Some (0, ctx')"
  shows "\<exists>st'. sqlcipher_codec_pragma env (cstr ''cipher_use_hmac'') (Some v) st = Some (1, st') \<and> holds p st' ctx'"
proof -
  obtain a where a: "ps_a st = Some a" "at_pCodec a = Some ctx" "at_xCodecFree a" and wf: "codec_wf p ctx" "memory_ok (ps_w st)"
    using assms(1) by (auto simp: holds_def)
  have "codec_wf p ctx'" using set_use_hmac_wf [OF assms(2) wf(1), of "sqlite3GetBoolean v 1"] assms(3) by auto
  from sync_holds [OF this a(3) wf(2), of "\<lambda>rc. rc"] show ?thesis
    using a assms(3) by (simp add: replay_branch if_ctx_def sqlcipherPagerGetCodec_def error_if_def)
qed

lemma step_hmac_algorithm:
  assumes "holds p st ctx" "provider_sizes p" "hmac_of_label v = Some alg"
    "sqlcipher_codec_ctx_set_hmac_algorithm ctx alg = Some (0, ctx')"
  shows "\<exists>st'. sqlcipher_codec_pragma env (cstr ''cipher_hmac_algorithm'') (Some v) st = Some (1, st') \<and> holds p st' ctx'"
proof -
  obtain a where a: "ps_a st = Some a" "at_pCodec a = Some ctx" "at_xCodecFree a" and wf: "codec_wf p ctx" "memory_ok (ps_w st)"
    using assms(1) by (auto simp: holds_def)
  have "codec_wf p ctx'" using set_hmac_algorithm_wf [OF assms(2) wf(1), of alg] assms(4) by auto
  from sync_holds [OF this a(3) wf(2), of "\<lambda>rc. SQLITE_ERROR"] show ?thesis
    using a assms(3,4) by (simp add: replay_branch if_ctx_def sqlcipherPagerGetCodec_def error_if_def)
qed

lemma settings_printed:
  assumes "holds p st ctx"
  shows "sqlcipher_codec_pragma env (cstr ''cipher_settings'') None st =
     Some (1, st\<lparr>ps_rows := ps_rows st @ map (\<lambda>(n, v). (cstr ''pragma'', map_option (pragma_line n) v)) (settings_rows ctx)\<rparr>)"
  using assms
  by (auto simp: replay_branch holds_def if_ctx_def sqlcipherPagerGetCodec_def ret_line_def
      sqlcipher_vdbe_return_string_def settings_rows_def Let_def)

lemma set_header_ok:
  assumes "codec_wf p ctx" "provider_sizes p" "0 \<le> n" "p_get_block_sz p dvd n" "n + 144 \<le> ctx_page_sz ctx"
  shows "snd (sqlcipher_codec_ctx_set_plaintext_header_size ctx n) = ctx\<lparr>ctx_plaintext_header_sz := n\<rparr>"
proof -
  have s: "sizes_wf p ctx" using assms(1) by (simp add: codec_wf_def)
  have "ctx_reserve_sz ctx \<le> 143" using sizes_reserve(2) [OF assms(2) s] .
  then show ?thesis
    using s assms by (auto simp: sqlcipher_codec_ctx_set_plaintext_header_size_def sizes_wf_def provider_sizes_def dvd_eq_mod_eq_0)
qed

lemma same_settingsI:
  assumes "codec_wf p x" "codec_wf p y" "ctx_kdf_iter x = ctx_kdf_iter y" "ctx_page_sz x = ctx_page_sz y"
    "flag_get (ctx_flags x) CIPHER_FLAG_HMAC = flag_get (ctx_flags y) CIPHER_FLAG_HMAC"
    "ctx_plaintext_header_sz x = ctx_plaintext_header_sz y" "ctx_hmac_algorithm x = ctx_hmac_algorithm y"
    "ctx_kdf_algorithm x = ctx_kdf_algorithm y"
  shows "same_settings x y"
  using assms by (simp add: same_settings_def codec_wf_def sizes_wf_def)

text \<open>
  C18. The settings one context reports restore them on another: \<open>PRAGMA cipher_settings\<close> prints one statement
  per setting, and running the printed statements in that order on any open database (with memory
  left) gives it the same iteration count, page size, HMAC use, plaintext header, algorithms, HMAC size and page
  reserve.  The plaintext header has to leave 144 bytes, since it is set while the reserve is still
  the old one.
\<close>

theorem settings_replay:
  assumes cc: "commoncrypto_ok cc" and p: "p = sqlcipher_cc_setup cc"
    and src: "holds p st0 src" "- (2 ^ 31) \<le> ctx_kdf_iter src" "ctx_kdf_iter src < 2 ^ 31"
    and hdr: "0 \<le> ctx_plaintext_header_sz src" "p_get_block_sz p dvd ctx_plaintext_header_sz src"
      "ctx_plaintext_header_sz src + 144 \<le> ctx_page_sz src"
    and alg: "hmac_label (ctx_hmac_algorithm src) = Some hl" "kdf_label (ctx_kdf_algorithm src) = Some kl"
    and st: "holds p st ctx"
  shows "sqlcipher_codec_pragma env (cstr ''cipher_settings'') None st0 =
       Some (1, st0\<lparr>ps_rows := ps_rows st0 @ map (\<lambda>(n, v). (cstr ''pragma'', map_option (pragma_line n) v)) (settings_rows src)\<rparr>)
     \<and> (\<exists>st' ctx'. run_pragmas env (settings_rows src) st = Some st' \<and> holds p st' ctx' \<and> same_settings ctx' src)"
proof -
  have sz: "provider_sizes p" using cc.sizes_ok [OF cc] p by simp
  have wf: "codec_wf p src" using src(1) by (simp add: holds_def)
  have ps: "page_size_ok (ctx_page_sz src)" using wf by (simp add: codec_wf_def sizes_wf_def)
  have rd: "atoi (fmt_d (ctx_kdf_iter src)) = ctx_kdf_iter src" "atoi (fmt_d (ctx_page_sz src)) = ctx_page_sz src"
    "atoi (fmt_d (ctx_plaintext_header_sz src)) = ctx_plaintext_header_sz src"
    using src(2,3) ps hdr by (auto intro!: atoi_fmt_d simp: page_size_ok_def)
  let ?c1 = "snd (sqlcipher_codec_ctx_set_kdf_iter ctx (ctx_kdf_iter src))"
  obtain st1 where 1: "sqlcipher_codec_pragma env (cstr ''kdf_iter'') (Some (fmt_d (ctx_kdf_iter src))) st = Some (1, st1)" "holds p st1 ?c1"
    using step_kdf_iter [OF st] rd(1) by metis
  let ?c2 = "?c1\<lparr>ctx_page_sz := ctx_page_sz src, ctx_buffer := Some (replicate (nat (ctx_page_sz src)) 0)\<rparr>"
  obtain st2 where 2: "sqlcipher_codec_pragma env (cstr ''cipher_page_size'') (Some (fmt_d (ctx_page_sz src))) st1 = Some (1, st2)" "holds p st2 ?c2"
    using step_page_size [OF 1(2)] rd(2) ps by metis
  let ?u = "of_bool (flag_get (ctx_flags src) CIPHER_FLAG_HMAC) :: int"
  have wf2: "codec_wf p ?c2" using 2(2) by (simp add: holds_def)
  then obtain c3 where c3: "sqlcipher_codec_ctx_set_use_hmac ?c2 ?u = Some (0, c3)" "codec_wf p c3"
      "flag_get (ctx_flags c3) CIPHER_FLAG_HMAC = flag_get (ctx_flags src) CIPHER_FLAG_HMAC"
    using set_use_hmac_wf [OF sz, of ?c2 ?u] by auto
  note f3 = set_use_hmac_frame [OF c3(1)]
  obtain st3 where 3: "sqlcipher_codec_pragma env (cstr ''cipher_use_hmac'') (Some (fmt_d ?u)) st2 = Some (1, st3)" "holds p st3 c3"
    using step_use_hmac [OF 2(2) sz] c3(1) boolean_read_back by metis
  let ?c4 = "c3\<lparr>ctx_plaintext_header_sz := ctx_plaintext_header_sz src\<rparr>"
  have "snd (sqlcipher_codec_ctx_set_plaintext_header_size c3 (ctx_plaintext_header_sz src)) = ?c4"
    by (rule set_header_ok [OF c3(2) sz hdr(1,2)]) (use hdr(3) f3(1) in simp)
  then obtain st4 where 4: "sqlcipher_codec_pragma env (cstr ''cipher_plaintext_header_size'') (Some (fmt_d (ctx_plaintext_header_sz src))) st3 = Some (1, st4)" "holds p st4 ?c4"
    using step_header [OF 3(2)] rd(3) by metis
  have "codec_wf p ?c4" using 4(2) by (simp add: holds_def)
  then obtain c5 where c5: "sqlcipher_codec_ctx_set_hmac_algorithm ?c4 (ctx_hmac_algorithm src) = Some (0, c5)"
      "ctx_hmac_algorithm c5 = ctx_hmac_algorithm src"
    using set_hmac_algorithm_wf [OF sz, of ?c4 "ctx_hmac_algorithm src"] by blast
  note f5 = set_hmac_algorithm_frame [OF c5(1)]
  obtain st5 where 5: "sqlcipher_codec_pragma env (cstr ''cipher_hmac_algorithm'') (Some (cstr hl)) st4 = Some (1, st5)" "holds p st5 c5"
    using step_hmac_algorithm [OF 4(2) sz labels_read_back(1) [OF alg(1)] c5(1)] by metis
  let ?c6 = "snd (sqlcipher_codec_ctx_set_kdf_algorithm c5 (ctx_kdf_algorithm src))"
  obtain st6 where 6: "sqlcipher_codec_pragma env (cstr ''cipher_kdf_algorithm'') (Some (cstr kl)) st5 = Some (1, st6)" "holds p st6 ?c6"
    using step_kdf_algorithm [OF 5(2) labels_read_back(2) [OF alg(2)]] by metis
  have c6: "codec_wf p ?c6" using 6(2) by (simp add: holds_def)
  have "same_settings ?c6 src"
    by (rule same_settingsI [OF c6 wf])
       (use f3 f5 c3(3) c5(2) in \<open>simp_all add: sqlcipher_codec_ctx_set_kdf_algorithm_def sqlcipher_codec_ctx_set_kdf_iter_def
          sqlcipher_set_derive_key_def\<close>)
  moreover have "run_pragmas env (settings_rows src) st = Some st6"
    by (simp add: settings_rows_def alg 1(1) 2(1) 3(1) 4(1) 5(1) 6(1))
  ultimately show ?thesis using 6(2) settings_printed [OF src(1)] by blast
qed

theorem settings_replay_witness:
  "\<exists>st' ctx'. run_pragmas sample_env (settings_rows sample_ctx) sample_st = Some st' \<and> holds sample_prov st' ctx'
     \<and> same_settings ctx' sample_ctx"
proof -
  have f: "ctx_kdf_iter sample_ctx = 256000" "ctx_plaintext_header_sz sample_ctx = 0" "ctx_page_sz sample_ctx = 512"
    "hmac_label (ctx_hmac_algorithm sample_ctx) = Some ''HMAC_SHA512''" "kdf_label (ctx_kdf_algorithm sample_ctx) = Some ''PBKDF2_HMAC_SHA512''"
    by (simp_all add: sample_ctx_def hmac_label_def kdf_label_def)
  show ?thesis
    using settings_replay [OF sample_cc_ok sample_prov_def sample_holds _ _ _ _ _ f(4,5) sample_holds, of sample_env] f by simp
qed

section \<open>Where the settings come apart\<close>

lemma page_size_512_lemma:
  assumes m: "memory_ok w" and bt: "\<not> pg_memDb bt" "pg_nRef bt = 0" and c: "ctx_page_sz ctx = 512" "32 < ctx_reserve_sz ctx"
  obtains bt' w' where "codec_set_btree_to_codec_pagesize bt ctx w = (0, bt', w')" "bt_pageSize bt' = 1024"
    "pg_pageSize bt' = 1024" "pg_errCode bt' = pg_errCode bt"
proof -
  obtain w1 w2 where a: "sqlite3Malloc 1032 w = (True, w1)" "sqlite3Malloc 1024 w1 = (True, w2)"
    using m by (simp add: sqlite3Malloc_def sqlcipher_mem_malloc_def memory_ok_def)
  have fixed: "(x AND NOT BTS_PAGESIZE_FIXED) AND BTS_PAGESIZE_FIXED = 0" for x
    by (simp add: bit_eq_iff bit_simps)
  have "fst (codec_set_btree_to_codec_pagesize bt ctx w) = 0
     \<and> bt_pageSize (fst (snd (codec_set_btree_to_codec_pagesize bt ctx w))) = 1024
     \<and> pg_pageSize (fst (snd (codec_set_btree_to_codec_pagesize bt ctx w))) = 1024
     \<and> pg_errCode (fst (snd (codec_set_btree_to_codec_pagesize bt ctx w))) = pg_errCode bt"
    using bt c
    by (simp add: codec_set_btree_to_codec_pagesize_def sqlite3BtreeSetPageSize_def sqlite3PagerSetPagesize_def Let_def
        fixed a pager_reset_def pagerFixMaplimit_def setGetterMethod_def case_prod_unfold)
  then show thesis by (intro that [of "fst (snd (codec_set_btree_to_codec_pagesize bt ctx w))"]) (auto simp: prod_eq_iff)
qed

text \<open>
  C19. \<open>PRAGMA cipher_page_size = 512\<close> splits the codec from the pager: with a reserve of more than 32
  bytes the b-tree silently takes 1024 instead, so the pragma succeeds without an error and leaves the codec
  encrypting 512-byte pages into a 512-byte buffer under a pager with 1024-byte pages.
\<close>

theorem page_size_512_diverges:
  assumes st: "holds p st ctx" "ps_a st = Some a" and bt: "\<not> pg_memDb (at_bt a)" "pg_nRef (at_bt a) = 0"
    and c: "32 < ctx_reserve_sz ctx"
  shows "\<exists>st' a' ctx' b. sqlcipher_codec_pragma env (cstr ''cipher_page_size'') (Some (cstr ''512'')) st = Some (1, st')
     \<and> ps_a st' = Some a' \<and> at_pCodec a' = Some ctx' \<and> ctx_page_sz ctx' = 512 \<and> ctx_buffer ctx' = Some b \<and> length b = 512
     \<and> bt_pageSize (at_bt a') = 1024 \<and> pg_pageSize (at_bt a') = 1024 \<and> pg_errCode (at_bt a') = pg_errCode (at_bt a)"
proof -
  have 512: "atoi (cstr ''512'') = 512" by code_simp
  have wf: "codec_wf p ctx" "memory_ok (ps_w st)" and a: "at_pCodec a = Some ctx" using st by (auto simp: holds_def)
  let ?c = "ctx\<lparr>ctx_page_sz := 512, ctx_buffer := Some (replicate 512 0)\<rparr>"
  obtain w where w: "sqlcipher_codec_ctx_set_pagesize ctx 512 (ps_w st) = Some (0, ?c, w)" "mem_step (ps_w st) w"
    by (rule set_pagesize_memory_ok [OF wf, of 512]) (auto simp: page_size_ok_def)
  have m: "memory_ok w" using w(2) wf(2) by (simp add: memory_ok_def mem_step_fields)
  obtain bt' w' where b: "codec_set_btree_to_codec_pagesize (at_bt a) ?c w = (0, bt', w')" "bt_pageSize bt' = 1024"
    "pg_pageSize bt' = 1024" "pg_errCode bt' = pg_errCode (at_bt a)"
    by (rule page_size_512_lemma [OF m bt, of ?c]) (use c in simp_all)
  show ?thesis
    using st(2) a w(1) b by (simp add: replay_branch if_ctx_def sqlcipherPagerGetCodec_def 512 error_if_def sync_pagesize_def put_ctx_def)
qed

theorem page_size_512_diverges_witness:
  "\<exists>st' a' ctx'. sqlcipher_codec_pragma sample_env (cstr ''cipher_page_size'') (Some (cstr ''512'')) sample_st = Some (1, st')
     \<and> ps_a st' = Some a' \<and> at_pCodec a' = Some ctx' \<and> ctx_page_sz ctx' = 512 \<and> pg_pageSize (at_bt a') = 1024"
proof -
  obtain a where a: "ps_a sample_st = Some a" "\<not> pg_memDb (at_bt a)" "pg_nRef (at_bt a) = 0"
    by (simp add: sample_st_def sample_bt_def)
  have "32 < ctx_reserve_sz sample_ctx" by (simp add: sample_ctx_def)
  from page_size_512_diverges [OF sample_holds a this, of sample_env] show ?thesis by blast
qed

text \<open>
  C20. The plaintext header is checked against the page size only when it is set: on any open database with
  its keys in place, the page size 4096, a plaintext header of 2048 and then the page size 1024 are
  all accepted, and the next read of page 1 copies 2048 bytes out of a 1024-byte page.
\<close>

theorem header_not_rechecked:
  assumes cc: "commoncrypto_ok cc" and p: "p = sqlcipher_cc_setup cc" and st: "holds p st ctx" and keys: "keys_ready ctx"
  shows "\<exists>st' ctx'. run_pragmas env [(''cipher_page_size'', Some (cstr ''4096'')),
         (''cipher_plaintext_header_size'', Some (cstr ''2048'')), (''cipher_page_size'', Some (cstr ''1024''))] st = Some st'
     \<and> holds p st' ctx' \<and> ctx_page_sz ctx' = 1024 \<and> ctx_plaintext_header_sz ctx' = 2048
     \<and> (\<forall>bt pg w. length pg = 1024 \<longrightarrow> sqlite3Codec bt ctx' pg 1 CODEC_READ_OP w = None)"
proof -
  have sz: "provider_sizes p" using cc.sizes_ok [OF cc] p by simp
  have at: "atoi (cstr ''4096'') = 4096" "atoi (cstr ''2048'') = 2048" "atoi (cstr ''1024'') = 1024" by code_simp+
  have ok: "page_size_ok 4096" "page_size_ok 1024" by (simp_all add: page_size_ok_def)
  let ?c1 = "ctx\<lparr>ctx_page_sz := 4096, ctx_buffer := Some (replicate (nat 4096) 0)\<rparr>"
  obtain st1 where 1: "sqlcipher_codec_pragma env (cstr ''cipher_page_size'') (Some (cstr ''4096'')) st = Some (1, st1)" "holds p st1 ?c1"
    using step_page_size [OF st, of "cstr ''4096''"] at ok by metis
  let ?c2 = "?c1\<lparr>ctx_plaintext_header_sz := 2048\<rparr>"
  have "p_get_block_sz p dvd 2048" using sz dvd_trans [of "p_get_block_sz p" 16 2048] by (simp add: provider_sizes_def)
  then have "snd (sqlcipher_codec_ctx_set_plaintext_header_size ?c1 2048) = ?c2"
    by (intro set_header_ok [OF _ sz]) (use 1(2) in \<open>simp_all add: holds_def\<close>)
  then obtain st2 where 2: "sqlcipher_codec_pragma env (cstr ''cipher_plaintext_header_size'') (Some (cstr ''2048'')) st1 = Some (1, st2)" "holds p st2 ?c2"
    using step_header [OF 1(2), of env "cstr ''2048''"] at by metis
  let ?c3 = "?c2\<lparr>ctx_page_sz := 1024, ctx_buffer := Some (replicate (nat 1024) 0)\<rparr>"
  obtain st3 where 3: "sqlcipher_codec_pragma env (cstr ''cipher_page_size'') (Some (cstr ''1024'')) st2 = Some (1, st3)" "holds p st3 ?c3"
    using step_page_size [OF 2(2), of "cstr ''1024''"] at ok by metis
  have "keys_ready ?c3" using keys by (simp add: keys_ready_def)
  then have "sqlite3Codec bt ?c3 pg 1 CODEC_READ_OP w = None" if "length pg = 1024" for bt pg w
    using that by (simp add: sqlite3Codec_def key_derive_ready codec_read_def peek_def)
  with 1 2 3 show ?thesis by auto
qed

theorem header_not_rechecked_witness:
  "\<exists>st' ctx'. run_pragmas sample_env [(''cipher_page_size'', Some (cstr ''4096'')),
         (''cipher_plaintext_header_size'', Some (cstr ''2048'')), (''cipher_page_size'', Some (cstr ''1024''))] sample_st = Some st'
     \<and> holds sample_prov st' ctx' \<and> sqlite3Codec sample_bt ctx' (replicate 1024 0) 1 CODEC_READ_OP sample_world = None"
proof -
  have "keys_ready sample_ctx" using sample_ready by (simp add: codec_ready_def)
  from header_not_rechecked [OF sample_cc_ok sample_prov_def sample_holds this, of sample_env] show ?thesis by (metis length_replicate)
qed

section \<open>Return value and salt\<close>

text \<open>
  C21. \<open>PRAGMA cipher_store_pass = v\<close> takes effect and yet is reported as not handled: the first chain of
  tests ends without an \<open>else\<close>, so the function goes on to the second one and returns 0, as it does for
  names it does not know.
\<close>

theorem store_pass_not_reported:
  assumes st: "holds p st ctx" and name: "spells z ''cipher_store_pass''"
  shows "\<exists>st' ctx'. sqlcipher_codec_pragma env z (Some v) st = Some (0, st') \<and> holds p st' ctx'
     \<and> ctx_store_pass ctx' = sqlite3GetBoolean v 1
     \<and> ps_rows st' = ps_rows st @ [(cstr ''cipher_store_pass'',
          Some (cstr ''PRAGMA cipher_store_pass is deprecated, please remove from use''))]"
proof -
  let ?c = "ctx\<lparr>ctx_store_pass := sqlite3GetBoolean v 1\<rparr>"
  obtain a where a: "ps_a st = Some a" "at_pCodec a = Some ctx" "at_xCodecFree a" using st by (auto simp: holds_def)
  let ?st = "ret_text ''cipher_store_pass'' ''PRAGMA cipher_store_pass is deprecated, please remove from use'' (put_ctx a ?c st)"
  have "sqlcipher_codec_pragma env z (Some v) st = Some (0, ?st)"
    using a by (simp add: sqlcipher_codec_pragma_def pragma_branches spells_ieq [OF name] if_ctx_def sqlcipherPagerGetCodec_def)
  moreover have "holds p ?st ?c"
    using st a codec_wf_upd(1) [of p ctx] by (simp add: holds_def ret_text_def sqlcipher_vdbe_return_string_def put_ctx_def)
  moreover have "ps_rows ?st = ps_rows st @ [(cstr ''cipher_store_pass'',
          Some (cstr ''PRAGMA cipher_store_pass is deprecated, please remove from use''))]"
    by (simp add: ret_text_def sqlcipher_vdbe_return_string_def put_ctx_def)
  ultimately show ?thesis by (intro exI [of _ ?st] exI [of _ ?c]) simp
qed

theorem store_pass_not_reported_witness:
  "\<exists>st' ctx'. sqlcipher_codec_pragma sample_env (cstr ''cipher_store_pass'') (Some (cstr ''on'')) sample_st = Some (0, st')
     \<and> holds sample_prov st' ctx' \<and> ctx_store_pass ctx' = 1 \<and> ctx_store_pass sample_ctx = 0"
proof -
  have "sqlite3GetBoolean (cstr ''on'') 1 = 1" by code_simp
  moreover have "spells (cstr ''cipher_store_pass'') ''cipher_store_pass''" by (simp add: spells_cstr)
  ultimately show ?thesis
    using store_pass_not_reported [OF sample_holds, of "cstr ''cipher_store_pass''" sample_env "cstr ''on''"]
    by (auto simp: sample_ctx_def)
qed

text \<open>The argument \<open>x'...'\<close> for a salt.\<close>

definition salt_arg :: "bytes \<Rightarrow> bytes" where
  "salt_arg s = [120, 39] @ concat (map hex2 s) @ [39]"

lemma salt_arg_text:
  assumes "length s = 16"
  shows "sqlite3_strnicmp (Some (salt_arg s)) (Some [120, 39]) 2 = 0" "sqlite3Strlen30 (Some (salt_arg s)) = 35"
    "cipher_hex2bin (drop 2 (salt_arg s)) 32 (replicate 16 0) = Some s"
proof -
  have "c \<noteq> 0" if "c \<in> set (hex2 b)" for b c
    using hex2_is_hex [OF that] by (auto simp: is_hex_digit_def)
  then have nf: "nul_free (salt_arg s)" by (auto simp: salt_arg_def)
  have l: "length (salt_arg s) = 35" using assms by (simp add: salt_arg_def)
  show "sqlite3Strlen30 (Some (salt_arg s)) = 35" using strlen_nul_free [OF nf] l by simp
  show "sqlite3_strnicmp (Some (salt_arg s)) (Some [120, 39]) 2 = 0"
    using strnicmp_loop_prefix [of "[120, 39]" 2 "salt_arg s"] by (simp add: sqlite3_strnicmp_def salt_arg_def)
  have "take 32 (drop 2 (salt_arg s)) = concat (map hex2 s)" using assms by (simp add: salt_arg_def)
  then show "cipher_hex2bin (drop 2 (salt_arg s)) 32 (replicate 16 0) = Some s"
    using assms l by (subst cipher_hex2bin_closed) (simp_all add: poke_whole)
qed

lemma salt_printed:
  assumes "length s = 16"
  shows "\<exists>h. cipher_bin2hex s 16 (replicate 33 0) = Some h \<and> take 32 h = concat (map hex2 s)"
proof -
  have "length (concat (map hex2 s) @ [0]) = 33" using assms by simp
  then have "cipher_bin2hex s 16 (replicate 33 0) = Some (concat (map hex2 s) @ [0])"
    using assms by (subst cipher_bin2hex_closed) (simp_all add: poke_whole)
  then show ?thesis using assms by simp
qed

text \<open>
  C22. \<open>PRAGMA cipher_salt = "x'...'"\<close> with 32 hexadecimal digits sets the salt of the context, whatever the
  file holds, and \<open>PRAGMA cipher_salt\<close> reads it back in lower case.
\<close>

theorem salt_roundtrip:
  assumes st: "holds p st ctx" and name: "spells z ''cipher_salt''" and s: "length s = 16"
  shows "\<exists>st1 st2. sqlcipher_codec_pragma env z (Some (salt_arg s)) st = Some (1, st1)
     \<and> (\<exists>ctx1. holds p st1 ctx1 \<and> ctx_kdf_salt ctx1 = Some s)
     \<and> sqlcipher_codec_pragma env z None st1 = Some (1, st2)
     \<and> ps_rows st2 = ps_rows st @ [(cstr ''cipher_salt'', Some (concat (map hex2 s)))]"
proof -
  obtain a where a: "ps_a st = Some a" "at_pCodec a = Some ctx" "at_xCodecFree a" and wf: "codec_wf p ctx" "memory_ok (ps_w st)"
    using st by (auto simp: holds_def)
  have run: "sqlcipher_codec_pragma env z r st = if_ctx st (pragma_salt r st)" for r st
    by (simp add: sqlcipher_codec_pragma_def pragma_branches spells_ieq [OF name])
  let ?c = "ctx\<lparr>ctx_kdf_salt := Some s, ctx_flags := flag_set (ctx_flags ctx) CIPHER_FLAG_HAS_KDF_SALT\<rparr>"
  note set = set_kdf_salt_keeps [OF wf(1) s]
  obtain got w where m: "sqlite3Malloc 16 (ps_w st) = (got, w)" by fastforce
  have got: "got" "world_rel (ps_w st) w" using malloc_rel [OF m] wf(2) by simp_all
  let ?st = "put_ctx a ?c (st\<lparr>ps_w := sqlite3_free (Some s) w\<rparr>)"
  have 1: "sqlcipher_codec_pragma env z (Some (salt_arg s)) st = Some (1, ?st)"
    using a m got(1) salt_arg_text [OF s] set(1)
    by (simp add: run if_ctx_def sqlcipherPagerGetCodec_def pragma_salt_def)
  have mem: "memory_ok (sqlite3_free (Some s) w)"
    using wf(2) world_rel_trans [OF got(2) free_rel] by (simp add: memory_ok_def world_rel_def)
  have h: "holds p ?st ?c" using mem set(2) a(3) by (intro holds_put) simp_all
  obtain got2 w2 where m2: "sqlite3Malloc 33 (sqlite3_free (Some s) w) = (got2, w2)" by fastforce
  have got2: got2 using malloc_rel [OF m2] mem by simp
  obtain hx where hx: "cipher_bin2hex s 16 (replicate 33 0) = Some hx" "take 32 hx = concat (map hex2 s)"
    using salt_printed [OF s] by blast
  have "sqlcipher_codec_ctx_get_kdf_salt bt ?c w' = Some (0, Some s, ?c, w')" for bt w'
    by (subst get_kdf_salt_has) simp_all
  then have "\<exists>st2. sqlcipher_codec_pragma env z None ?st = Some (1, st2)
      \<and> ps_rows st2 = ps_rows st @ [(cstr ''cipher_salt'', Some (concat (map hex2 s)))]"
    using m2 got2 hx by (simp add: run if_ctx_def sqlcipherPagerGetCodec_def put_ctx_def pragma_salt_def sqlcipher_vdbe_return_string_def)
  with 1 h show ?thesis by fastforce
qed

theorem salt_roundtrip_witness:
  "\<exists>st1 st2. sqlcipher_codec_pragma sample_env (cstr ''cipher_salt'') (Some (salt_arg (replicate 16 171))) sample_st = Some (1, st1)
     \<and> sqlcipher_codec_pragma sample_env (cstr ''cipher_salt'') None st1 = Some (1, st2)
     \<and> ps_rows st2 = [(cstr ''cipher_salt'', Some (concat (map hex2 (replicate 16 171))))]"
proof -
  have "spells (cstr ''cipher_salt'') ''cipher_salt''" by (simp add: spells_cstr)
  from salt_roundtrip [OF sample_holds this, of "replicate 16 171" sample_env] show ?thesis
    by (fastforce simp: sample_st_def)
qed

end
