(* ===== verification/Varint.thy ===== *)
theory Varint
  imports Prelude
begin

text \<open>
  The variable-length integers of the file format (\<^verbatim>\<open>util.c\<close> of the amalgamation): \<open>putVarint64\<close>,
  \<open>sqlite3PutVarint\<close>, \<open>sqlite3GetVarint\<close>, \<open>sqlite3GetVarint32\<close>, \<open>sqlite3VarintLen\<close>.  The writers return the bytes they
  store at \<open>p\<close>; the readers take the bytes from \<open>p\<close> on and give \<open>None\<close> when they would read past them.
\<close>

section \<open>Definitions\<close>

text \<open>\<open>p[i]\<close>.\<close>

definition byte_at :: "bytes \<Rightarrow> nat \<Rightarrow> u8 option" where
  "byte_at p i = (if i < length p then Some (p ! i) else None)"

text \<open>The loop \<open>for(i=7; i>=0; i--)\<close> of the nine-byte form: the bytes at \<open>p[0]\<close> to \<open>p[k-1]\<close>.\<close>

fun put_high :: "nat \<Rightarrow> u64 \<Rightarrow> bytes" where
  "put_high 0 v = []"
| "put_high (Suc k) v = put_high k (drop_bit 7 v) @ [ucast (v AND 0x7f) OR 0x80]"

text \<open>The \<open>do ... while( v!=0 )\<close> loop: the bytes it appends to \<open>buf\<close>.\<close>

lemma drop_bit_less: "drop_bit 7 v \<noteq> 0 \<Longrightarrow> unat (drop_bit 7 v) < unat (v :: u64)"
  by (cases "v = 0") (auto simp: drop_bit_eq_div unat_div unat_gt_0)

function put_loop :: "u64 \<Rightarrow> bytes" where
  "put_loop v = (ucast (v AND 0x7f) OR 0x80) # (let v = drop_bit 7 v in if v \<noteq> 0 then put_loop v else [])"
  by pat_completeness auto
termination
  by (relation "measure unat") (auto intro: drop_bit_less)

declare put_loop.simps [simp del]

definition putVarint64 :: "u64 \<Rightarrow> bytes" where
  "putVarint64 v =
     (if v AND push_bit 32 0xff000000 \<noteq> 0
      then put_high 8 (drop_bit 8 v) @ [ucast v]
      else (let buf = put_loop v in rev ((hd buf AND 0x7f) # tl buf)))"

definition sqlite3PutVarint :: "u64 \<Rightarrow> bytes" where
  "sqlite3PutVarint v =
     (if v \<le> 0x7f then [ucast (v AND 0x7f)]
      else if v \<le> 0x3fff then [ucast ((drop_bit 7 v AND 0x7f) OR 0x80), ucast (v AND 0x7f)]
      else putVarint64 v)"

abbreviation (input) SLOT_2_0 :: u32 where "SLOT_2_0 \<equiv> 0x001fc07f"
abbreviation (input) SLOT_4_2_0 :: u32 where "SLOT_4_2_0 \<equiv> 0xf01fc07f"

definition sqlite3GetVarint :: "bytes \<Rightarrow> (nat \<times> u64) option" where
  "sqlite3GetVarint p =
     do { p0 \<leftarrow> byte_at p 0;
          if 0 \<le> sint p0 then Some (1, ucast p0) else do {
          p1 \<leftarrow> byte_at p 1;
          if 0 \<le> sint p1 then Some (2, ucast (push_bit 7 (ucast (p0 AND 0x7f) :: u32) OR ucast p1)) else do {
          let a = push_bit 14 (ucast p0 :: u32);
          let b = (ucast p1 :: u32);
          p2 \<leftarrow> byte_at p 2;
          let a = a OR ucast p2;
          if a AND 0x80 = 0 then Some (3, ucast ((a AND SLOT_2_0) OR push_bit 7 (b AND 0x7f))) else do {
          let a = a AND SLOT_2_0;
          p3 \<leftarrow> byte_at p 3;
          let b = push_bit 14 b OR ucast p3;
          if b AND 0x80 = 0 then Some (4, ucast (push_bit 7 a OR (b AND SLOT_2_0))) else do {
          let b = b AND SLOT_2_0;
          let s = a;
          p4 \<leftarrow> byte_at p 4;
          let a = push_bit 14 a OR ucast p4;
          if a AND 0x80 = 0
          then Some (5, push_bit 32 (ucast (drop_bit 18 s)) OR ucast (a OR push_bit 7 b)) else do {
          let s = push_bit 7 s OR b;
          p5 \<leftarrow> byte_at p 5;
          let b = push_bit 14 b OR ucast p5;
          if b AND 0x80 = 0
          then Some (6, push_bit 32 (ucast (drop_bit 18 s)) OR ucast (push_bit 7 (a AND SLOT_2_0) OR b)) else do {
          p6 \<leftarrow> byte_at p 6;
          let a = push_bit 14 a OR ucast p6;
          if a AND 0x80 = 0
          then Some (7, push_bit 32 (ucast (drop_bit 11 s)) OR ucast ((a AND SLOT_4_2_0) OR push_bit 7 (b AND SLOT_2_0)))
          else do {
          let a = a AND SLOT_2_0;
          p7 \<leftarrow> byte_at p 7;
          let b = push_bit 14 b OR ucast p7;
          if b AND 0x80 = 0
          then Some (8, push_bit 32 (ucast (drop_bit 4 s)) OR ucast (push_bit 7 a OR (b AND SLOT_4_2_0))) else do {
          p8 \<leftarrow> byte_at p 8;
          let a = push_bit 15 a OR ucast p8;
          let a = a OR push_bit 8 (b AND SLOT_2_0);
          let s = push_bit 4 s OR drop_bit 3 (ucast p4 AND 0x7f);
          Some (9, push_bit 32 (ucast s) OR ucast a) } } } } } } } } }"

text \<open>The function assumes that the one-byte form has been handled by the macro \<open>getVarint32\<close>.\<close>

definition sqlite3GetVarint32 :: "bytes \<Rightarrow> (nat \<times> u32) option" where
  "sqlite3GetVarint32 p =
     do { p0 \<leftarrow> byte_at p 0;
          p1 \<leftarrow> byte_at p 1;
          if p1 AND 0x80 = 0 then Some (2, push_bit 7 (ucast (p0 AND 0x7f)) OR ucast p1) else do {
          p2 \<leftarrow> byte_at p 2;
          if p2 AND 0x80 = 0
          then Some (3, push_bit 14 (ucast (p0 AND 0x7f)) OR push_bit 7 (ucast (p1 AND 0x7f)) OR ucast p2) else do {
          (n, v64) \<leftarrow> sqlite3GetVarint p;
          if v64 AND 0xffffffff \<noteq> v64 then Some (n, 0xffffffff) else Some (n, ucast v64) } } }"

function varint_len_loop :: "nat \<Rightarrow> u64 \<Rightarrow> nat" where
  "varint_len_loop i v = (let v = drop_bit 7 v in if v \<noteq> 0 then varint_len_loop (Suc i) v else i)"
  by pat_completeness auto
termination
  by (relation "measure (\<lambda>(i, v). unat v)") (auto intro: drop_bit_less)

declare varint_len_loop.simps [simp del]

definition sqlite3VarintLen :: "u64 \<Rightarrow> nat" where
  "sqlite3VarintLen v = varint_len_loop 1 v"

section \<open>The reference reader\<close>

text \<open>
  The encoding as the file format describes it: seven bits of the value per byte, most significant
  first, the top bit of a byte telling that another one follows; the ninth byte holds eight bits.
  \<open>varint_read i acc p\<close> reads on after \<open>i\<close> bytes that gave \<open>acc\<close>.
\<close>

fun varint_read :: "nat \<Rightarrow> u64 \<Rightarrow> bytes \<Rightarrow> (nat \<times> u64) option" where
  "varint_read i acc [] = None"
| "varint_read i acc (c # r) =
     (if i = 8 then Some (9, push_bit 8 acc OR ucast c)
      else if \<not> bit c 7 then Some (Suc i, push_bit 7 acc OR ucast c)
      else varint_read (Suc i) (push_bit 7 acc OR ucast (c AND 0x7f)) r)"

lemma word64_eqI: "(\<forall>n \<in> set [0..<64]. bit x n = bit y n) \<Longrightarrow> x = (y :: u64)"
  by (rule bit_word_eqI) auto

lemma upto64: "[0..<64] = [0, 1, 2, 3, 4, 5, 6, 7, 8, 9, 10, 11, 12, 13, 14, 15, 16, 17, 18, 19, 20, 21, 22, 23, 24, 25,
   26, 27, 28, 29, 30, 31, 32, 33, 34, 35, 36, 37, 38, 39, 40, 41, 42, 43, 44, 45, 46, 47, 48, 49, 50, 51, 52, 53, 54, 55,
   56, 57, 58, 59, 60, 61, 62, 63]"
  by (simp add: upt_conv_Cons)

lemma u8_high [simp]: "8 \<le> n \<Longrightarrow> bit (c :: u8) n = False"
  using bit_imp_le_length [of c n] by auto

lemma u64_high [simp]: "64 \<le> n \<Longrightarrow> bit (v :: u64) n = False"
  using bit_imp_le_length [of v n] by auto

lemma and_0x80: "(a AND 0x80 = 0) = (\<not> bit a 7)" for a :: u32
  using and_exp_eq_0_iff_not_bit [of a 7] by simp

lemma u8_and_0x80: "(c AND 0x80 = 0) = (\<not> bit c 7)" for c :: u8
  using and_exp_eq_0_iff_not_bit [of c 7] by simp

lemma sint_nonneg: "0 \<le> sint c \<longleftrightarrow> \<not> bit c 7" for c :: u8
  by (simp add: sint_uint signed_take_bit_nonnegative_iff bit_uint_iff)

lemma bind_eqI: "(\<And>c. m = Some c \<Longrightarrow> f c = g c) \<Longrightarrow> Option.bind m f = Option.bind m g"
  by (cases m) simp_all

lemma if_eqI: "(c \<longleftrightarrow> d) \<Longrightarrow> (d \<Longrightarrow> x = y) \<Longrightarrow> (\<not> d \<Longrightarrow> x' = y') \<Longrightarrow> (if c then x else x') = (if d then y else y')"
  by simp

lemma varint_read_at:
  "varint_read i acc (drop i p) =
     do { c \<leftarrow> byte_at p i;
          if i = 8 then Some (9, push_bit 8 acc OR ucast c)
          else if \<not> bit c 7 then Some (Suc i, push_bit 7 acc OR ucast c)
          else varint_read (Suc i) (push_bit 7 acc OR ucast (c AND 0x7f)) (drop (Suc i) p) }"
  by (cases "i < length p") (simp_all add: byte_at_def Cons_nth_drop_Suc [symmetric])

lemma varint_read_unrolled:
  "varint_read 0 0 p =
     do { p0 \<leftarrow> byte_at p 0; if \<not> bit p0 7 then Some (1, ucast p0) else do {
          let v = ucast (p0 AND 0x7f);
          p1 \<leftarrow> byte_at p 1; if \<not> bit p1 7 then Some (2, push_bit 7 v OR ucast p1) else do {
          let v = push_bit 7 v OR ucast (p1 AND 0x7f);
          p2 \<leftarrow> byte_at p 2; if \<not> bit p2 7 then Some (3, push_bit 7 v OR ucast p2) else do {
          let v = push_bit 7 v OR ucast (p2 AND 0x7f);
          p3 \<leftarrow> byte_at p 3; if \<not> bit p3 7 then Some (4, push_bit 7 v OR ucast p3) else do {
          let v = push_bit 7 v OR ucast (p3 AND 0x7f);
          p4 \<leftarrow> byte_at p 4; if \<not> bit p4 7 then Some (5, push_bit 7 v OR ucast p4) else do {
          let v = push_bit 7 v OR ucast (p4 AND 0x7f);
          p5 \<leftarrow> byte_at p 5; if \<not> bit p5 7 then Some (6, push_bit 7 v OR ucast p5) else do {
          let v = push_bit 7 v OR ucast (p5 AND 0x7f);
          p6 \<leftarrow> byte_at p 6; if \<not> bit p6 7 then Some (7, push_bit 7 v OR ucast p6) else do {
          let v = push_bit 7 v OR ucast (p6 AND 0x7f);
          p7 \<leftarrow> byte_at p 7; if \<not> bit p7 7 then Some (8, push_bit 7 v OR ucast p7) else do {
          let v = push_bit 7 v OR ucast (p7 AND 0x7f);
          p8 \<leftarrow> byte_at p 8; Some (9, push_bit 8 v OR ucast p8) } } } } } } } } }"
  using varint_read_at [of 0 0 p]
  by (simp add: varint_read_at [of 1] varint_read_at [of 2] varint_read_at [of 3] varint_read_at [of 4]
      varint_read_at [of 5] varint_read_at [of 6] varint_read_at [of 7] varint_read_at [of 8]
      Let_def One_nat_def [symmetric] del: One_nat_def cong: if_cong)

section \<open>Writing\<close>

lemma put_high_length [simp]: "length (put_high k v) = k"
  by (induction k arbitrary: v) simp_all

lemma cont_byte: "bit ((ucast (v AND 0x7f) :: u8) OR 0x80) 7"
  "ucast (((ucast (v AND 0x7f) :: u8) OR 0x80) AND 0x7f) = (v AND 0x7f :: u64)" for v :: u64
proof -
  show "bit ((ucast (v AND 0x7f) :: u8) OR 0x80) 7" by (simp add: bit_simps)
  show "ucast (((ucast (v AND 0x7f) :: u8) OR 0x80) AND 0x7f) = (v AND 0x7f :: u64)"
    by (rule word64_eqI) (simp add: upto64 bit_simps)
qed

lemma group_join: "push_bit 7 (drop_bit 7 v) OR (v AND 0x7f) = (v :: u64)"
  by (rule word64_eqI) (simp add: upto64 bit_simps)

lemma last_join: "push_bit 8 (drop_bit 8 v) OR ucast (ucast v :: u8) = (v :: u64)"
  by (rule word64_eqI) (simp add: upto64 bit_simps)

text \<open>Reading \<open>k\<close> continuation bytes.\<close>

lemma read_put_high:
  "drop_bit (7 * k) v = 0 \<Longrightarrow> i + k \<le> 8 \<Longrightarrow>
     varint_read i acc (put_high k v @ r) = varint_read (i + k) (push_bit (7 * k) acc OR v) r"
proof (induction k arbitrary: v i r)
  case 0
  then show ?case by simp
next
  case (Suc k)
  have "drop_bit (7 * k) (drop_bit 7 v) = 0" using Suc.prems(1) by (simp add: drop_bit_drop_bit add.commute)
  then have "varint_read i acc (put_high (Suc k) v @ r) =
      varint_read (i + k) (push_bit (7 * k) acc OR drop_bit 7 v) ((ucast (v AND 0x7f) OR 0x80) # r)"
    using Suc by simp
  also have "\<dots> = varint_read (Suc (i + k)) (push_bit 7 (push_bit (7 * k) acc OR drop_bit 7 v) OR (v AND 0x7f)) r"
    using Suc.prems(2) cont_byte [of v] by simp
  also have "push_bit 7 (push_bit (7 * k) acc OR drop_bit 7 v) OR (v AND 0x7f) = push_bit (7 * Suc k) acc OR v"
    using group_join [of v] by (simp add: push_bit_or push_bit_push_bit or.assoc)
  finally show ?case by simp
qed

text \<open>The loop produces the continuation bytes in reverse.\<close>

lemma put_loop_high:
  "\<exists>k. put_loop v = rev (put_high (Suc k) v) \<and> drop_bit (7 * Suc k) v = 0 \<and> (k = 0 \<or> drop_bit (7 * k) v \<noteq> 0)"
proof (induction v rule: put_loop.induct)
  case (1 v)
  show ?case
  proof (cases "drop_bit 7 v = 0")
    case True
    then show ?thesis by (intro exI [of _ 0]) (simp add: put_loop.simps [of v])
  next
    case False
    from 1 [OF refl False] obtain k where k: "put_loop (drop_bit 7 v) = rev (put_high (Suc k) (drop_bit 7 v))"
      "drop_bit (7 * Suc k) (drop_bit 7 v) = 0" "k = 0 \<or> drop_bit (7 * k) (drop_bit 7 v) \<noteq> 0" by blast
    have "put_loop v = rev (put_high (Suc (Suc k)) v)"
      using False k(1) by (simp add: put_loop.simps [of v])
    moreover have "drop_bit (7 * Suc (Suc k)) v = 0" using k(2) by (simp add: drop_bit_drop_bit add.commute)
    moreover have "drop_bit (7 * Suc k) v \<noteq> 0"
      using k(3) False by (auto simp: drop_bit_drop_bit add.commute)
    ultimately show ?thesis by blast
  qed
qed

lemma drop_bit_0_iff: "drop_bit n v = 0 \<longleftrightarrow> unat v < 2 ^ n" for v :: u64
  by (simp add: word_unat_eq_iff unat_drop_bit_eq) (simp add: drop_bit_eq_div div_eq_0_iff)

lemma top_byte_test: "(v AND push_bit 32 0xff000000 = 0) \<longleftrightarrow> drop_bit 56 v = 0" for v :: u64
proof -
  have a: "v AND push_bit 32 0xff000000 = push_bit 56 (drop_bit 56 v)" by (rule word64_eqI) (simp add: upto64 bit_simps)
  have b: "drop_bit 56 (push_bit 56 (drop_bit 56 v)) = drop_bit 56 v" by (rule word64_eqI) (simp add: upto64 bit_simps)
  show ?thesis unfolding a using b by (metis drop_bit_of_0 push_bit_of_0)
qed

lemma drop_bit_0_mono: "drop_bit m v = 0 \<Longrightarrow> m \<le> n \<Longrightarrow> drop_bit n v = 0" for v :: u64
  using drop_bit_drop_bit [of "n - m" m v] by simp

lemma clear_top: "((ucast x :: u8) OR 0x80) AND 0x7f = ucast x AND (0x7f :: u8)" for x :: u64
  by (rule bit_word_eqI) (auto simp: bit_simps less_Suc_eq numeral_eq_Suc)

text \<open>The shape of an encoding: continuation bytes, then a last byte of seven bits, or of eight bits after
  eight continuation bytes.\<close>

lemma putVarint_shape:
  obtains (nine) "drop_bit 56 v \<noteq> 0" "sqlite3PutVarint v = put_high 8 (drop_bit 8 v) @ [ucast v]"
  | (short) k where "k < 8" "drop_bit (7 * Suc k) v = 0" "k = 0 \<or> drop_bit (7 * k) v \<noteq> 0" "length (put_loop v) = Suc k"
      "sqlite3PutVarint v = put_high k (drop_bit 7 v) @ [ucast (v AND 0x7f)]"
proof -
  obtain k where k: "put_loop v = rev (put_high (Suc k) v)" "drop_bit (7 * Suc k) v = 0" "k = 0 \<or> drop_bit (7 * k) v \<noteq> 0"
    using put_loop_high by blast
  have len: "length (put_loop v) = Suc k" using k(1) by simp
  have seven: "ucast (v AND 0x7f) AND (0x7f :: u8) = ucast (v AND 0x7f)"
    by (rule bit_word_eqI) (auto simp: bit_simps)
  show thesis
  proof (cases "drop_bit 56 v = 0")
    case False
    then have "\<not> v \<le> 0x3fff" "\<not> v \<le> 0x7f" by (auto simp: drop_bit_0_iff word_le_nat_alt)
    with False show thesis
      by (intro nine) (simp_all only: sqlite3PutVarint_def putVarint64_def top_byte_test if_False if_True not_False_eq_True)
  next
    case True
    have small: "k \<le> m" if "drop_bit (7 * Suc m) v = 0" for m
      using k(3) drop_bit_0_mono [OF that, of "7 * k"] by (cases "k \<le> m") auto
    have k8: "k < 8" using small [of 7] True by simp
    consider "v \<le> 0x7f" | "\<not> v \<le> 0x7f" "v \<le> 0x3fff" | "\<not> v \<le> 0x3fff" by blast
    then show thesis
    proof cases
      case 1
      then have "k = 0" using small [of 0] by (auto simp: drop_bit_0_iff word_le_nat_alt)
      with 1 k k8 len show thesis by (intro short [of k]) (simp_all add: sqlite3PutVarint_def)
    next
      case 2
      have "\<not> drop_bit 7 v = 0" "drop_bit 14 v = 0" using 2 by (auto simp: drop_bit_0_iff word_le_nat_alt)
      then have "k = 1" using small [of 1] k(2) by (cases k) auto
      moreover have "(ucast ((drop_bit 7 v AND 0x7f) OR 0x80) :: u8) = ucast (drop_bit 7 v AND 0x7f) OR 0x80"
        by (rule bit_word_eqI) (auto simp: bit_simps)
      ultimately show thesis using 2 k k8 len
        by (intro short [of k]) (simp_all add: sqlite3PutVarint_def)
    next
      case 3
      then have "\<not> v \<le> 0x7f" by (auto simp: word_le_nat_alt)
      with 3 True k len k8 seven show thesis
        by (intro short [of k]) (simp_all add: sqlite3PutVarint_def putVarint64_def top_byte_test [simplified] Let_def clear_top)
    qed
  qed
qed

end
