(* ===== verification/Varint_Properties.thy ===== *)
theory Varint_Properties
  imports Varint
begin

text \<open>The properties of the variable-length integers.\<close>

lemma getVarint_reference: "sqlite3GetVarint p = varint_read 0 0 p"
  unfolding varint_read_unrolled sqlite3GetVarint_def Let_def
  by (intro bind_eqI if_eqI;
      ((simp only: option.inject prod.inject simp_thms, rule word64_eqI, simp add: upto64 bit_simps; fail)
    | (simp add: sint_nonneg and_0x80 bit_simps; fail)))

lemma read_putVarint: "varint_read 0 0 (sqlite3PutVarint v @ r) = Some (length (sqlite3PutVarint v), v)"
proof (rule putVarint_shape [of v])
  assume nine: "sqlite3PutVarint v = put_high 8 (drop_bit 8 v) @ [ucast v]"
  have "drop_bit (7 * 8) (drop_bit 8 v) = 0" by (rule word64_eqI) (simp add: upto64 bit_simps)
  then show ?thesis using read_put_high [of 8 "drop_bit 8 v" 0 0 "[ucast v] @ r"] last_join [of v] by (simp add: nine)
next
  fix k
  assume k: "k < 8" "drop_bit (7 * Suc k) v = 0" "sqlite3PutVarint v = put_high k (drop_bit 7 v) @ [ucast (v AND 0x7f)]"
  have d: "drop_bit (7 * k) (drop_bit 7 v) = 0" using k(2) by (simp add: drop_bit_drop_bit add.commute)
  have c: "\<not> bit (ucast (v AND 0x7f) :: u8) 7" by (simp add: bit_simps)
  have u: "ucast (ucast (v AND 0x7f) :: u8) = v AND 0x7f" by (rule word64_eqI) (simp add: upto64 bit_simps)
  show ?thesis
    using read_put_high [OF d, of 0 0 "[ucast (v AND 0x7f)] @ r"] k(1) c group_join [of v] u by (simp add: k(3))
qed

lemma varint_len_put_loop: "Suc (varint_len_loop i v) = i + length (put_loop v)"
proof (induction i v rule: varint_len_loop.induct)
  case (1 i v)
  show ?case
  proof (cases "drop_bit 7 v = 0")
    case True
    then show ?thesis by (simp add: varint_len_loop.simps [of i v] put_loop.simps [of v])
  next
    case False
    then show ?thesis using 1 [OF refl False] by (simp add: varint_len_loop.simps [of i v] put_loop.simps [of v])
  qed
qed

lemma varint_len_eq: "sqlite3VarintLen v = length (put_loop v)"
  using varint_len_put_loop [of 1 v] by (simp add: sqlite3VarintLen_def)

lemma low_half: "v AND 0xffffffff = v \<longleftrightarrow> v \<le> 0xffffffff" for v :: u64
proof -
  have "v AND 0xffffffff = take_bit 32 v" by (simp add: take_bit_eq_mask mask_eq_exp_minus_1)
  then show ?thesis
    by (simp add: word_unat_eq_iff unsigned_take_bit_eq take_bit_nat_eq_self_iff word_le_nat_alt) linarith
qed

lemma small_groups:
  fixes p0 p1 p2 :: u8
  shows "(push_bit 7 (ucast (p0 AND 0x7f)) OR ucast p1 :: u64) \<le> 0xffffffff"
    "(ucast (push_bit 7 (ucast (p0 AND 0x7f)) OR ucast p1 :: u64) :: u32) = push_bit 7 (ucast (p0 AND 0x7f)) OR ucast p1"
    "push_bit 7 (push_bit 7 (ucast (p0 AND 0x7f)) OR ucast (p1 AND 0x7f)) OR ucast p2 \<le> (0xffffffff :: u64)"
    "(ucast (push_bit 7 (push_bit 7 (ucast (p0 AND 0x7f)) OR ucast (p1 AND 0x7f)) OR ucast p2 :: u64) :: u32) =
       push_bit 14 (ucast (p0 AND 0x7f)) OR push_bit 7 (ucast (p1 AND 0x7f)) OR ucast p2"
  unfolding low_half [symmetric]
     apply (rule word64_eqI, simp add: upto64 bit_simps)
    apply (rule bit_word_eqI, auto simp: bit_simps)[1]
   apply (rule word64_eqI, simp add: upto64 bit_simps)
  apply (rule bit_word_eqI, auto simp: bit_simps)[1]
  done

text \<open>
  C23. The unrolled reader \<open>sqlite3GetVarint\<close>, with its two half-words of packed groups, is the reader of the file
  format: on every input it consumes the same number of bytes, gives the same 64-bit value and reads
  past the end in the same cases.
\<close>

theorem getVarint_equiv: "sqlite3GetVarint p = varint_read 0 0 p"
  by (rule getVarint_reference)

text \<open>
  C24. What \<open>sqlite3PutVarint\<close> writes, \<open>sqlite3GetVarint\<close> reads back, for all 64-bit values and whatever follows, and
  it consumes exactly what was written.
\<close>

theorem varint_roundtrip: "sqlite3GetVarint (sqlite3PutVarint v @ r) = Some (length (sqlite3PutVarint v), v)"
  by (simp add: getVarint_reference read_putVarint)

text \<open>
  C25. An encoding has one to nine bytes, and \<open>sqlite3VarintLen\<close> is its length for the values below
  \<open>2 ^ 63\<close>; for the others it is 10, one more than \<open>sqlite3PutVarint\<close> writes.
\<close>

theorem varint_length:
  "1 \<le> length (sqlite3PutVarint v) \<and> length (sqlite3PutVarint v) \<le> 9
     \<and> sqlite3VarintLen v = (if v < 2 ^ 63 then length (sqlite3PutVarint v) else 10)
     \<and> (v < 2 ^ 63 \<or> length (sqlite3PutVarint v) = 9)"
proof (rule putVarint_shape [of v])
  obtain k where k: "put_loop v = rev (put_high (Suc k) v)" "drop_bit (7 * Suc k) v = 0" "k = 0 \<or> drop_bit (7 * k) v \<noteq> 0"
    using put_loop_high by blast
  assume nine: "drop_bit 56 v \<noteq> 0" "sqlite3PutVarint v = put_high 8 (drop_bit 8 v) @ [ucast v]"
  have low: "8 \<le> k" using k(2) nine(1) drop_bit_0_mono [of "7 * Suc k" v 56] by (cases "8 \<le> k") auto
  then have "drop_bit (7 * k) v \<noteq> 0" using k(3) by auto
  then have high: "k \<le> 9" using drop_bit_0_iff [of "7 * k" v] power_increasing [of 64 "7 * k" "2 :: nat"] unsigned_less [of v]
    by (cases "k \<le> 9") auto
  have "v < 2 ^ 63 \<longleftrightarrow> drop_bit 63 v = 0" by (simp add: drop_bit_0_iff word_less_nat_alt)
  also have "\<dots> \<longleftrightarrow> k = 8"
    using k(2) \<open>drop_bit (7 * k) v \<noteq> 0\<close> low high by (cases "k = 8") (auto simp: le_Suc_eq numeral_eq_Suc)
  finally have "v < 2 ^ 63 \<longleftrightarrow> k = 8" .
  moreover have "sqlite3VarintLen v = Suc k" by (simp add: varint_len_eq k(1))
  ultimately show ?thesis using low high by (auto simp: nine(2))
next
  fix k
  assume k: "k < 8" "drop_bit (7 * Suc k) v = 0" "length (put_loop v) = Suc k"
    "sqlite3PutVarint v = put_high k (drop_bit 7 v) @ [ucast (v AND 0x7f)]"
  have "drop_bit 63 v = 0" by (rule drop_bit_0_mono [OF k(2)]) (use k(1) in simp)
  then have "v < 2 ^ 63" by (simp add: drop_bit_0_iff word_less_nat_alt)
  then show ?thesis using k by (simp add: varint_len_eq)
qed

text \<open>
  C26. \<open>sqlite3GetVarint32\<close> is \<open>sqlite3GetVarint\<close> with the value saturated at 32 bits, on the inputs the macro
  \<open>getVarint32\<close> passes to it, those of more than one byte.
\<close>

theorem getVarint32_saturates:
  assumes "bit p0 7"
  shows "sqlite3GetVarint32 (p0 # r) =
     map_option (\<lambda>(n, v). (n, if v \<le> 0xffffffff then ucast v else 0xffffffff)) (sqlite3GetVarint (p0 # r))"
proof -
  have p0: "byte_at (p0 # r) 0 = Some p0" by (simp add: byte_at_def)
  consider "byte_at (p0 # r) 1 = None" | p1 where "byte_at (p0 # r) 1 = Some p1" "\<not> bit p1 7"
    | p1 where "byte_at (p0 # r) 1 = Some p1" "bit p1 7" "byte_at (p0 # r) 2 = None"
    | p1 p2 where "byte_at (p0 # r) 1 = Some p1" "bit p1 7" "byte_at (p0 # r) 2 = Some p2" "\<not> bit p2 7"
    | p1 p2 where "byte_at (p0 # r) 1 = Some p1" "bit p1 7" "byte_at (p0 # r) 2 = Some p2" "bit p2 7"
    by (metis option.exhaust)
  then show ?thesis
  proof cases
    case 5
    then have "sqlite3GetVarint32 (p0 # r) = do { (n, v) \<leftarrow> sqlite3GetVarint (p0 # r);
        if v AND 0xffffffff \<noteq> v then Some (n, 0xffffffff) else Some (n, ucast v) }"
      by (simp add: sqlite3GetVarint32_def p0 u8_and_0x80)
    then show ?thesis by (cases "sqlite3GetVarint (p0 # r)") (auto simp: low_half)
  qed (use assms small_groups in \<open>simp_all add: sqlite3GetVarint32_def getVarint_reference varint_read_unrolled p0 u8_and_0x80
        del: varint_read.simps\<close>)
qed

theorem getVarint32_saturates_witness:
  "sqlite3GetVarint32 (0x90 # replicate 8 0x80) =
     map_option (\<lambda>(n, v). (n, if v \<le> 0xffffffff then ucast v else 0xffffffff)) (sqlite3GetVarint (0x90 # replicate 8 0x80))"
  by (rule getVarint32_saturates) (simp add: bit_simps)

end
