(* ===== verification/Bitvec.thy ===== *)
theory Bitvec
  imports Codec_State Endian
begin

text \<open>
  The sets of page numbers of the pager (\<^verbatim>\<open>bitvec.c\<close> of the amalgamation).  A \<open>Bitvec\<close> is a plain bitmap when
  its size allows it, a hash table of up to 62 values (more without a collision) otherwise, and 62
  sub-vectors once that table is too full.  The union of the C structure is a datatype with one
  constructor per representation; \<open>iSize <= BITVEC_NBIT\<close> is \<open>Bitmap\<close>, \<open>iDivisor != 0\<close> is \<open>Sub\<close>.  The \<open>u32\<close> fields and
  table entries are natural numbers below \<open>2 ^ 32\<close>; the argument of the operations is a word, since its
  decrement can wrap.  Sizes are those of a 64-bit build: \<open>BITVEC_USIZE\<close> is 496.

  \<open>None\<close> is an access out of the arrays, or that the fuel of a loop ran out; the properties show that
  neither happens.
\<close>

section \<open>Definitions\<close>

abbreviation (input) BITVEC_NELEM :: nat where "BITVEC_NELEM \<equiv> 496"
abbreviation (input) BITVEC_NBIT :: nat where "BITVEC_NBIT \<equiv> 3968"
abbreviation (input) BITVEC_NINT :: nat where "BITVEC_NINT \<equiv> 124"
abbreviation (input) BITVEC_MXHASH :: nat where "BITVEC_MXHASH \<equiv> 62"
abbreviation (input) BITVEC_NPTR :: nat where "BITVEC_NPTR \<equiv> 62"

datatype Bitvec =
    Bitmap (iSize: nat) (aBitmap: bytes)
  | Hash (iSize: nat) (nSet: nat) (aHash: "nat list")
  | Sub (iSize: nat) (nSet: nat) (iDivisor: nat) (apSub: "Bitvec option list")

definition BITVEC_HASH :: "nat \<Rightarrow> nat" where
  "BITVEC_HASH x = x mod BITVEC_NINT"

text \<open>A structure of zero bytes with the given size.\<close>

definition new_bitvec :: "nat \<Rightarrow> Bitvec" where
  "new_bitvec n =
     (if n \<le> BITVEC_NBIT then Bitmap n (replicate BITVEC_NELEM 0) else Hash n 0 (replicate BITVEC_NINT 0))"

definition sqlite3BitvecCreate :: "nat \<Rightarrow> 'e world \<Rightarrow> Bitvec option \<times> 'e world" where
  "sqlite3BitvecCreate n w =
     (case sqlite3Malloc 512 w of (ok, w) \<Rightarrow> (if ok then Some (new_bitvec n) else None, w))"

text \<open>The probe of \<open>sqlite3BitvecTestNotNull\<close>; the fuel bounds the number of slots visited.\<close>

fun hash_test :: "nat \<Rightarrow> nat list \<Rightarrow> nat \<Rightarrow> nat \<Rightarrow> bool option" where
  "hash_test 0 hs h i = None"
| "hash_test (Suc k) hs h i =
     (if h < length hs then
        if hs ! h = 0 then Some False
        else if hs ! h = i then Some True
        else hash_test k hs ((h + 1) mod BITVEC_NINT) i
      else None)"

text \<open>\<open>sqlite3BitvecTestNotNull\<close> after the range test; \<open>i\<close> counts from 0.\<close>

function bitvec_test :: "Bitvec \<Rightarrow> nat \<Rightarrow> bool option" where
  "bitvec_test (Sub n k d subs) i =
     (if i div d < length subs then
        (case subs ! (i div d) of None \<Rightarrow> Some False | Some q \<Rightarrow> bitvec_test q (i mod d))
      else None)"
| "bitvec_test (Bitmap n bs) i =
     (if i div 8 < length bs then Some (bs ! (i div 8) AND push_bit (i mod 8) 1 \<noteq> 0) else None)"
| "bitvec_test (Hash n k hs) i = hash_test BITVEC_NINT hs (BITVEC_HASH i) (i + 1)"
  by pat_completeness auto

lemma sub_size: "i < length subs \<Longrightarrow> subs ! i = Some q \<Longrightarrow> size q < Suc (size_list (size_option size) subs)"
proof -
  assume "i < length subs" "subs ! i = Some q"
  then have "Some q \<in> set subs" by (metis nth_mem)
  then have "size_option size (Some q) \<le> size_list (size_option size) subs" by (rule size_list_estimation') simp
  then show ?thesis by simp
qed

termination bitvec_test
  by (relation "measure (\<lambda>(p, i). size p)") (auto dest: sub_size)

definition sqlite3BitvecTestNotNull :: "Bitvec \<Rightarrow> u32 \<Rightarrow> bool option" where
  "sqlite3BitvecTestNotNull p i =
     (let i = unat (i - 1) in if i \<ge> iSize p then Some False else bitvec_test p i)"

definition sqlite3BitvecTest :: "Bitvec option \<Rightarrow> u32 \<Rightarrow> bool option" where
  "sqlite3BitvecTest p i = (case p of None \<Rightarrow> Some False | Some p \<Rightarrow> sqlite3BitvecTestNotNull p i)"

text \<open>Where \<open>sqlite3BitvecSet\<close> stops in the hash table: the value is there, a slot to use at once, or a slot
  to use unless the table is too full.\<close>

datatype slot = Present | At_once nat | If_room nat

fun hash_probe :: "nat \<Rightarrow> nat list \<Rightarrow> nat \<Rightarrow> nat \<Rightarrow> slot option" where
  "hash_probe 0 hs h i = None"
| "hash_probe (Suc k) hs h i =
     (if h < length hs then
        if hs ! h = i then Some Present
        else let h = (if h + 1 \<ge> BITVEC_NINT then 0 else h + 1)
             in if h < length hs then if hs ! h \<noteq> 0 then hash_probe k hs h i else Some (If_room h) else None
      else None)"

definition hash_slot :: "nat \<Rightarrow> nat list \<Rightarrow> nat \<Rightarrow> slot option" where
  "hash_slot used hs i =
     (let h = BITVEC_HASH i in
      if h < length hs then
        if hs ! h = 0 then Some (if used < BITVEC_NINT - 1 then At_once h else If_room h)
        else hash_probe BITVEC_NINT hs h (i + 1)
      else None)"

text \<open>One round of the loop over the sub-vectors: the sub-vector \<open>i\<close> falls in, created when it is not
  there yet, and \<open>f\<close> on it.\<close>

definition sub_set ::
    "(Bitvec \<Rightarrow> nat \<Rightarrow> 'e world \<Rightarrow> (int \<times> Bitvec \<times> 'e world) option) \<Rightarrow>
     Bitvec \<Rightarrow> nat \<Rightarrow> 'e world \<Rightarrow> (int \<times> Bitvec \<times> 'e world) option" where
  "sub_set f p i w =
     (case p of
        Sub n k d subs \<Rightarrow>
          if i div d < length subs then
            (case (case subs ! (i div d) of None \<Rightarrow> sqlite3BitvecCreate d w | Some q \<Rightarrow> (Some q, w)) of
               (None, w) \<Rightarrow> Some (SQLITE_NOMEM, p, w)
             | (Some q, w) \<Rightarrow>
                 do { (rc, q, w) \<leftarrow> f q (i mod d) w;
                      Some (rc, Sub n k d (subs[i div d := Some q]), w) })
          else None
      | _ \<Rightarrow> None)"

text \<open>The loop over the copied table: \<open>rc |= sqlite3BitvecSet(p, aiValues[j])\<close>.\<close>

fun rehash_loop ::
    "(Bitvec \<Rightarrow> nat \<Rightarrow> 'e world \<Rightarrow> (int \<times> Bitvec \<times> 'e world) option) \<Rightarrow>
     nat list \<Rightarrow> int \<times> Bitvec \<times> 'e world \<Rightarrow> (int \<times> Bitvec \<times> 'e world) option" where
  "rehash_loop f [] s = Some s"
| "rehash_loop f (v # vs) (rc, p, w) =
     (if v \<noteq> 0 then do { (rc', p, w) \<leftarrow> sub_set f p (v - 1) w; rehash_loop f vs (rc OR rc', p, w) }
      else rehash_loop f vs (rc, p, w))"

text \<open>\<open>sqlite3BitvecSet\<close> after its decrement; the fuel is the number of levels of sub-vectors.\<close>

fun bitvec_set :: "nat \<Rightarrow> Bitvec \<Rightarrow> nat \<Rightarrow> 'e world \<Rightarrow> (int \<times> Bitvec \<times> 'e world) option" where
  "bitvec_set 0 p i w = None"
| "bitvec_set (Suc l) p i w =
     (case p of
        Sub _ _ _ _ \<Rightarrow> sub_set (bitvec_set l) p i w
      | Bitmap n bs \<Rightarrow>
          if i div 8 < length bs
          then Some (SQLITE_OK, Bitmap n (bs[i div 8 := bs ! (i div 8) OR push_bit (i mod 8) 1]), w) else None
      | Hash n k hs \<Rightarrow>
          do { s \<leftarrow> hash_slot k hs i;
               case s of
                 Present \<Rightarrow> Some (SQLITE_OK, p, w)
               | At_once h \<Rightarrow> Some (SQLITE_OK, Hash n (Suc k) (hs[h := i + 1]), w)
               | If_room h \<Rightarrow>
                   if k \<ge> BITVEC_MXHASH then
                     (case sqlite3Malloc 496 w of
                        (False, w) \<Rightarrow> Some (SQLITE_NOMEM, p, w)
                      | (True, w) \<Rightarrow>
                          do { let q = Sub n k ((n + BITVEC_NPTR - 1) div BITVEC_NPTR) (replicate BITVEC_NPTR None);
                               r \<leftarrow> sub_set (bitvec_set l) q i w;
                               (rc, q, w) \<leftarrow> rehash_loop (bitvec_set l) hs r;
                               Some (rc, q, sqlite3_free (Some (concat (map (\<lambda>v. sqlcipher_put4byte_le (word_of_nat v)) hs))) w) })
                   else Some (SQLITE_OK, Hash n (Suc k) (hs[h := i + 1]), w) })"

definition sqlite3BitvecSet :: "Bitvec option \<Rightarrow> u32 \<Rightarrow> 'e world \<Rightarrow> (int \<times> Bitvec option \<times> 'e world) option" where
  "sqlite3BitvecSet p i w =
     (case p of None \<Rightarrow> Some (SQLITE_OK, None, w)
      | Some p \<Rightarrow> do { (rc, p, w) \<leftarrow> bitvec_set 5 p (unat (i - 1)) w; Some (rc, Some p, w) })"

text \<open>The free slot from \<open>h\<close> on, in the rebuilt table of \<open>sqlite3BitvecClear\<close>.\<close>

fun hash_free :: "nat \<Rightarrow> nat list \<Rightarrow> nat \<Rightarrow> nat option" where
  "hash_free 0 hs h = None"
| "hash_free (Suc k) hs h =
     (if h < length hs then
        if hs ! h \<noteq> 0 then hash_free k hs (if h + 1 \<ge> BITVEC_NINT then 0 else h + 1) else Some h
      else None)"

fun hash_rebuild :: "nat \<Rightarrow> nat list \<Rightarrow> nat \<times> nat list \<Rightarrow> (nat \<times> nat list) option" where
  "hash_rebuild x [] s = Some s"
| "hash_rebuild x (v # vs) (k, hs) =
     (if v \<noteq> 0 \<and> v \<noteq> x
      then do { h \<leftarrow> hash_free BITVEC_NINT hs (BITVEC_HASH (v - 1)); hash_rebuild x vs (Suc k, hs[h := v]) }
      else hash_rebuild x vs (k, hs))"

function bitvec_clear :: "Bitvec \<Rightarrow> nat \<Rightarrow> Bitvec option" where
  "bitvec_clear (Sub n k d subs) i =
     (if i div d < length subs then
        (case subs ! (i div d) of None \<Rightarrow> Some (Sub n k d subs)
         | Some q \<Rightarrow> do { q \<leftarrow> bitvec_clear q (i mod d); Some (Sub n k d (subs[i div d := Some q])) })
      else None)"
| "bitvec_clear (Bitmap n bs) i =
     (if i div 8 < length bs
      then Some (Bitmap n (bs[i div 8 := bs ! (i div 8) AND NOT (push_bit (i mod 8) 1)])) else None)"
| "bitvec_clear (Hash n k hs) i =
     do { (k, hs) \<leftarrow> hash_rebuild (i + 1) hs (0, replicate BITVEC_NINT 0); Some (Hash n k hs) }"
  by pat_completeness auto

termination bitvec_clear
  by (relation "measure (\<lambda>(p, i). size p)") (auto dest: sub_size)

definition sqlite3BitvecClear :: "Bitvec option \<Rightarrow> u32 \<Rightarrow> Bitvec option option" where
  "sqlite3BitvecClear p i =
     (case p of None \<Rightarrow> Some None | Some p \<Rightarrow> map_option Some (bitvec_clear p (unat (i - 1))))"

definition sqlite3BitvecSize :: "Bitvec \<Rightarrow> u32" where
  "sqlite3BitvecSize p = word_of_nat (iSize p)"

text \<open>\<open>sqlite3BitvecDestroy\<close>: the structures given to \<open>sqlite3_free\<close>, in order.\<close>

function sqlite3BitvecDestroy :: "Bitvec option \<Rightarrow> Bitvec list" where
  "sqlite3BitvecDestroy None = []"
| "sqlite3BitvecDestroy (Some (Sub n k d subs)) = concat (map sqlite3BitvecDestroy subs) @ [Sub n k d subs]"
| "sqlite3BitvecDestroy (Some (Bitmap n bs)) = [Bitmap n bs]"
| "sqlite3BitvecDestroy (Some (Hash n k hs)) = [Hash n k hs]"
  by pat_completeness auto
termination
proof (relation "measure (size_option size)", goal_cases)
  case (2 n k d subs x)
  then have "size_option size x \<le> size_list (size_option size) subs" by (rule size_list_estimation') simp
  then show ?case by simp
qed simp

end
