(* ===== verification/Bitvec_Properties.thy ===== *)
theory Bitvec_Properties
  imports Bitvec
begin

text \<open>
  The bit vectors implement finite sets of numbers: the abstraction function, the invariant of the three
  representations (linear probing included), what each operation does to the set, and that no access leaves an
  array and no loop runs on.
\<close>

section \<open>Linear probing\<close>

text \<open>The slot \<open>k\<close> steps after \<open>h\<close>.\<close>

abbreviation slot_at :: "nat \<Rightarrow> nat \<Rightarrow> nat" where
  "slot_at h k \<equiv> (h + k) mod 124"

definition hash_inv :: "nat list \<Rightarrow> bool" where
  "hash_inv hs \<longleftrightarrow> length hs = 124 \<and> distinct (filter (\<lambda>v. v \<noteq> 0) hs)
     \<and> (\<forall>v \<in> set hs. v \<noteq> 0 \<longrightarrow>
          (\<exists>k < 124. hs ! slot_at (BITVEC_HASH (v - 1)) k = v \<and> (\<forall>j < k. hs ! slot_at (BITVEC_HASH (v - 1)) j \<noteq> 0)))"

definition hash_count :: "nat list \<Rightarrow> nat" where
  "hash_count hs = length (filter (\<lambda>v. v \<noteq> 0) hs)"

lemma next_slot: "h < 124 \<Longrightarrow> (if h + 1 \<ge> 124 then 0 else h + 1) = slot_at h 1"
  by (cases "h = 123") auto

lemma slot_at_step: "slot_at (slot_at h 1) k = slot_at h (Suc k)"
  by (simp add: mod_simps)

lemma free_slot_exists:
  assumes "length hs = 124" "hash_count hs < 124" "h < 124"
  shows "\<exists>k < 124. hs ! slot_at h k = 0"
proof -
  have "\<exists>v \<in> set hs. v = 0"
  proof (rule ccontr)
    assume "\<not> (\<exists>v \<in> set hs. v = 0)"
    then have "filter (\<lambda>v. v \<noteq> 0) hs = hs" by (intro filter_True ballI notI) blast
    then show False using assms(1,2) by (simp only: hash_count_def)
  qed
  then obtain x where x: "x < 124" "hs ! x = 0" using assms(1) by (auto simp: in_set_conv_nth)
  let ?k = "(x + 124 - h) mod 124"
  have "slot_at h ?k = x" using x(1) assms(3) by (simp add: mod_simps)
  with x show ?thesis by (intro exI [of _ ?k]) simp
qed

text \<open>What a probe from \<open>h\<close> can see: an entry before the first free slot.\<close>

definition reachable :: "nat list \<Rightarrow> nat \<Rightarrow> nat \<Rightarrow> nat \<Rightarrow> bool" where
  "reachable hs h fuel v \<longleftrightarrow> (\<exists>k < fuel. hs ! slot_at h k = v \<and> (\<forall>j < k. hs ! slot_at h j \<noteq> 0))"

lemma reachable_Suc:
  assumes "h < 124" "v \<noteq> 0"
  shows "reachable hs h (Suc fuel) v \<longleftrightarrow> hs ! h \<noteq> 0 \<and> (hs ! h = v \<or> reachable hs (slot_at h 1) fuel v)"
proof -
  have "reachable hs h (Suc fuel) v \<longleftrightarrow>
      hs ! slot_at h 0 = v \<or> (\<exists>k < fuel. hs ! slot_at h (Suc k) = v \<and> hs ! slot_at h 0 \<noteq> 0 \<and> (\<forall>j < k. hs ! slot_at h (Suc j) \<noteq> 0))"
    by (simp only: reachable_def Ex_less_Suc2 All_less_Suc2) simp
  also have "\<dots> \<longleftrightarrow> hs ! h \<noteq> 0 \<and> (hs ! h = v \<or> reachable hs (slot_at h 1) fuel v)"
    unfolding reachable_def slot_at_step using assms by auto
  finally show ?thesis .
qed

lemma hash_test_spec:
  assumes "length hs = 124" "v \<noteq> 0"
  shows "h < 124 \<Longrightarrow> \<exists>k < fuel. hs ! slot_at h k = 0 \<Longrightarrow> hash_test fuel hs h v = Some (reachable hs h fuel v)"
proof (induction fuel arbitrary: h)
  case 0
  then show ?case by simp
next
  case (Suc fuel)
  show ?case
  proof (cases "hs ! h = 0 \<or> hs ! h = v")
    case True
    then show ?thesis using assms Suc.prems(1) reachable_Suc [OF Suc.prems(1) assms(2)] by auto
  next
    case False
    with Suc.prems have "\<exists>k < fuel. hs ! slot_at (slot_at h 1) k = 0"
      unfolding slot_at_step by (auto simp: less_Suc_eq_0_disj)
    from Suc.IH [OF _ this] False assms Suc.prems(1) reachable_Suc [OF Suc.prems(1) assms(2)] show ?thesis by simp
  qed
qed

text \<open>The first free slot from \<open>h\<close> on.\<close>

definition first_free :: "nat list \<Rightarrow> nat \<Rightarrow> nat \<Rightarrow> bool" where
  "first_free hs h s \<longleftrightarrow> (\<exists>k < 124. s = slot_at h k \<and> hs ! s = 0 \<and> (\<forall>j < k. hs ! slot_at h j \<noteq> 0))"

lemma hash_free_spec:
  assumes "length hs = 124"
  shows "h < 124 \<Longrightarrow> \<exists>k < fuel. hs ! slot_at h k = 0 \<Longrightarrow>
    \<exists>k < fuel. hash_free fuel hs h = Some (slot_at h k) \<and> hs ! slot_at h k = 0 \<and> (\<forall>j < k. hs ! slot_at h j \<noteq> 0)"
proof (induction fuel arbitrary: h)
  case 0
  then show ?case by simp
next
  case (Suc fuel)
  show ?case
  proof (cases "hs ! h = 0")
    case True
    then show ?thesis using assms Suc.prems(1) by (intro exI [of _ 0]) simp
  next
    case False
    with Suc.prems have "\<exists>k < fuel. hs ! slot_at (slot_at h 1) k = 0"
      unfolding slot_at_step by (auto simp: less_Suc_eq_0_disj)
    from Suc.IH [OF _ this] obtain k where k: "k < fuel" "hash_free fuel hs (slot_at h 1) = Some (slot_at h (Suc k))"
      "hs ! slot_at h (Suc k) = 0" "\<forall>j < k. hs ! slot_at h (Suc j) \<noteq> 0" unfolding slot_at_step by auto
    have "hash_free (Suc fuel) hs h = Some (slot_at h (Suc k))"
      using k(2) False assms Suc.prems(1) next_slot [OF Suc.prems(1)] by simp
    moreover have "\<forall>j < Suc k. hs ! slot_at h j \<noteq> 0" using k(4) False Suc.prems(1) by (auto simp: All_less_Suc2)
    ultimately show ?thesis using k by (intro exI [of _ "Suc k"]) simp
  qed
qed

lemma hash_probe_spec:
  assumes "length hs = 124" "v \<noteq> 0"
  shows "h < 124 \<Longrightarrow> hs ! h \<noteq> 0 \<Longrightarrow> \<exists>k < Suc fuel. hs ! slot_at h k = 0 \<Longrightarrow>
    (hash_probe fuel hs h v = Some Present \<and> reachable hs h (Suc fuel) v)
  \<or> (\<exists>k < Suc fuel. hash_probe fuel hs h v = Some (If_room (slot_at h k)) \<and> hs ! slot_at h k = 0
        \<and> (\<forall>j < k. hs ! slot_at h j \<noteq> 0 \<and> hs ! slot_at h j \<noteq> v))"
proof (induction fuel arbitrary: h)
  case 0
  then show ?case by simp
next
  case (Suc fuel)
  note h = Suc.prems(1) and n = next_slot [OF Suc.prems(1)]
  show ?case
  proof (cases "hs ! h = v")
    case True
    then show ?thesis using assms h reachable_Suc [OF h assms(2)] by simp
  next
    case ne: False
    show ?thesis
    proof (cases "hs ! slot_at h 1 = 0")
      case True
      then have "hash_probe (Suc fuel) hs h v = Some (If_room (slot_at h 1))"
        using ne assms(1) h n by simp
      with True ne Suc.prems show ?thesis by (intro disjI2 exI [of _ 1]) auto
    next
      case False
      have run: "hash_probe (Suc fuel) hs h v = hash_probe fuel hs (slot_at h 1) v"
        using False ne assms(1) h n by simp
      have "\<exists>k < Suc fuel. hs ! slot_at (slot_at h 1) k = 0"
        using Suc.prems unfolding slot_at_step by (auto simp: less_Suc_eq_0_disj)
      from Suc.IH [OF _ False this] consider
          "hash_probe fuel hs (slot_at h 1) v = Some Present" "reachable hs (slot_at h 1) (Suc fuel) v"
        | k where "k < Suc fuel" "hash_probe fuel hs (slot_at h 1) v = Some (If_room (slot_at h (Suc k)))" "hs ! slot_at h (Suc k) = 0"
          "\<forall>j < k. hs ! slot_at h (Suc j) \<noteq> 0 \<and> hs ! slot_at h (Suc j) \<noteq> v"
        unfolding slot_at_step by auto
      then show ?thesis
      proof cases
        case 1
        then show ?thesis using run reachable_Suc [OF h assms(2), of hs "Suc fuel"] Suc.prems(2) by simp
      next
        case 2
        have "\<forall>j < Suc k. hs ! slot_at h j \<noteq> 0 \<and> hs ! slot_at h j \<noteq> v"
          using 2(4) ne Suc.prems(1,2) by (simp only: All_less_Suc2) simp
        with 2 run show ?thesis by (intro disjI2 exI [of _ "Suc k"]) simp
      qed
    qed
  qed
qed

lemma hash_lt: "BITVEC_HASH x < 124"
  by (simp add: BITVEC_HASH_def)

lemma reachable_iff:
  assumes "hash_inv hs"
  shows "reachable hs (BITVEC_HASH i) 124 (Suc i) \<longleftrightarrow> Suc i \<in> set hs"
proof
  assume "reachable hs (BITVEC_HASH i) 124 (Suc i)"
  then obtain k where "hs ! slot_at (BITVEC_HASH i) k = Suc i" by (auto simp: reachable_def)
  moreover have "slot_at (BITVEC_HASH i) k < length hs" using assms by (simp add: hash_inv_def)
  ultimately show "Suc i \<in> set hs" by (metis nth_mem)
next
  assume "Suc i \<in> set hs"
  with assms show "reachable hs (BITVEC_HASH i) 124 (Suc i)"
    unfolding hash_inv_def reachable_def by (metis diff_Suc_1 nat.distinct(1))
qed

text \<open>The slot \<open>sqlite3BitvecSet\<close> finds: the first free one, and the value is not in the table; or it is.\<close>

lemma hash_slot_spec:
  assumes inv: "hash_inv hs" and used: "used = hash_count hs" "used < 124"
  obtains (present) "hash_slot used hs i = Some Present" "Suc i \<in> set hs"
  | (at_once) h where "hash_slot used hs i = Some (At_once h)" "first_free hs (BITVEC_HASH i) h" "Suc i \<notin> set hs" "used < 123"
  | (if_room) h where "hash_slot used hs i = Some (If_room h)" "first_free hs (BITVEC_HASH i) h" "Suc i \<notin> set hs"
proof -
  let ?h = "BITVEC_HASH i"
  have len: "length hs = 124" using inv by (simp add: hash_inv_def)
  have free: "\<exists>k < 124. hs ! slot_at ?h k = 0" using free_slot_exists [OF len _ hash_lt] used by simp
  have absent: "Suc i \<notin> set hs" if "hs ! slot_at ?h k = 0" "\<forall>j < k. hs ! slot_at ?h j \<noteq> Suc i" for k
  proof
    assume "Suc i \<in> set hs"
    then obtain m where "hs ! slot_at ?h m = Suc i" "\<forall>j < m. hs ! slot_at ?h j \<noteq> 0"
      using reachable_iff [OF inv] by (auto simp: reachable_def)
    with that show False by (metis linorder_neqE_nat nat.distinct(1))
  qed
  show thesis
  proof (cases "hs ! ?h = 0")
    case True
    have "first_free hs ?h ?h" using True hash_lt [of i] by (auto simp: first_free_def intro!: exI [of _ 0])
    moreover have "Suc i \<notin> set hs" using absent [of 0] True hash_lt [of i] by simp
    ultimately show thesis
      using True len hash_lt [of i] at_once [of ?h] if_room [of ?h] by (cases "used < 123") (auto simp: hash_slot_def)
  next
    case False
    have "\<exists>k < Suc 124. hs ! slot_at ?h k = 0" using free less_SucI by blast
    from hash_probe_spec [OF len, of "Suc i" ?h 124, OF _ hash_lt False this]
    consider "hash_probe 124 hs ?h (Suc i) = Some Present" "reachable hs ?h (Suc 124) (Suc i)"
      | k where "hash_probe 124 hs ?h (Suc i) = Some (If_room (slot_at ?h k))" "hs ! slot_at ?h k = 0"
          "\<forall>j < k. hs ! slot_at ?h j \<noteq> 0 \<and> hs ! slot_at ?h j \<noteq> Suc i" by auto
    then show thesis
    proof cases
      case 1
      then obtain k where "hs ! slot_at ?h k = Suc i" by (auto simp: reachable_def)
      then have "Suc i \<in> set hs" using len nth_mem [of "slot_at ?h k" hs] by simp
      with 1 False len hash_lt [of i] show thesis by (intro present) (simp_all add: hash_slot_def)
    next
      case 2
      have "k < 124"
      proof (rule ccontr)
        assume "\<not> k < 124"
        with 2(3) free show False by (meson linorder_not_le order_less_le_trans)
      qed
      with 2 have "first_free hs ?h (slot_at ?h k)" by (auto simp: first_free_def)
      moreover have "Suc i \<notin> set hs" using absent 2 by blast
      ultimately show thesis using 2(1) False len hash_lt [of i] by (intro if_room) (simp_all add: hash_slot_def)
    qed
  qed
qed

text \<open>Storing a new value in the first free slot.\<close>

lemma hash_insert:
  assumes inv: "hash_inv hs" and s: "first_free hs (BITVEC_HASH i) h" and new: "Suc i \<notin> set hs"
  shows "hash_inv (hs[h := Suc i])" "hash_count (hs[h := Suc i]) = Suc (hash_count hs)"
    "set (hs[h := Suc i]) - {0} = insert (Suc i) (set hs - {0})"
proof -
  have len: "length hs = 124" using inv by (simp add: hash_inv_def)
  obtain k where k: "k < 124" "h = slot_at (BITVEC_HASH i) k" "hs ! h = 0" "\<forall>j < k. hs ! slot_at (BITVEC_HASH i) j \<noteq> 0"
    using s by (auto simp: first_free_def)
  have h: "h < length hs" using k(2) len by simp
  let ?A = "take h hs" and ?B = "drop (Suc h) hs" and ?P = "\<lambda>v :: nat. v \<noteq> 0"
  have old: "hs = ?A @ 0 # ?B" using id_take_nth_drop [OF h] k(3) by simp
  have upd: "hs[h := Suc i] = ?A @ Suc i # ?B" by (rule upd_conv_take_nth_drop [OF h])
  have f: "filter ?P hs = filter ?P ?A @ filter ?P ?B" "filter ?P (hs[h := Suc i]) = filter ?P ?A @ Suc i # filter ?P ?B"
    by (subst old, simp) (simp add: upd)
  show "hash_count (hs[h := Suc i]) = Suc (hash_count hs)" by (simp only: hash_count_def f) simp
  show sets: "set (hs[h := Suc i]) - {0} = insert (Suc i) (set hs - {0})"
    using arg_cong [OF old, of set] unfolding upd by auto
  have "Suc i \<notin> set ?A" "Suc i \<notin> set ?B" using new by (auto dest: in_set_takeD in_set_dropD)
  then have "distinct (filter ?P (hs[h := Suc i]))"
    using inv unfolding hash_inv_def f by auto
  moreover have "\<exists>m < 124. (hs[h := Suc i]) ! slot_at (BITVEC_HASH (v - 1)) m = v
      \<and> (\<forall>j < m. (hs[h := Suc i]) ! slot_at (BITVEC_HASH (v - 1)) j \<noteq> 0)" if v: "v \<in> set (hs[h := Suc i])" "v \<noteq> 0" for v
  proof (cases "v = Suc i")
    case True
    then show ?thesis using k h by (intro exI [of _ k]) (auto simp: nth_list_update)
  next
    case False
    then have "v \<in> set hs" using v sets by blast
    then obtain m where m: "m < 124" "hs ! slot_at (BITVEC_HASH (v - 1)) m = v" "\<forall>j < m. hs ! slot_at (BITVEC_HASH (v - 1)) j \<noteq> 0"
      using inv v(2) unfolding hash_inv_def by blast
    have "slot_at (BITVEC_HASH (v - 1)) m \<noteq> h" using m(2) k(3) v(2) by auto
    with m h show ?thesis by (intro exI [of _ m]) (auto simp: nth_list_update)
  qed
  ultimately show "hash_inv (hs[h := Suc i])" using len by (simp add: hash_inv_def)
qed

lemma hash_inv_empty: "hash_inv (replicate 124 0)" "hash_count (replicate 124 0) = 0"
  by (simp_all add: hash_inv_def hash_count_def)

lemma hash_rebuild_spec:
  assumes "hash_inv hs" "k = hash_count hs" "distinct (filter (\<lambda>v. v \<noteq> 0) vs)" "(set vs - {0}) \<inter> set hs = {}"
    "k + length (filter (\<lambda>v. v \<noteq> 0) vs) < 124"
  shows "\<exists>hs'. hash_rebuild x vs (k, hs) = Some (hash_count hs', hs') \<and> hash_inv hs'
     \<and> hash_count hs' \<le> k + length (filter (\<lambda>v. v \<noteq> 0) vs)
     \<and> set hs' - {0} = (set hs - {0}) \<union> (set vs - {0, x})"
  using assms
proof (induction vs arbitrary: k hs)
  case Nil
  then show ?case by simp
next
  case (Cons v vs)
  show ?case
  proof (cases "v \<noteq> 0 \<and> v \<noteq> x")
    case False
    have "hash_rebuild x (v # vs) (k, hs) = hash_rebuild x vs (k, hs)" using False by auto
    moreover have "set (v # vs) - {0, x} = set vs - {0, x}" using False by auto
    moreover have "\<exists>hs'. hash_rebuild x vs (k, hs) = Some (hash_count hs', hs') \<and> hash_inv hs'
       \<and> hash_count hs' \<le> k + length (filter (\<lambda>v. v \<noteq> 0) vs) \<and> set hs' - {0} = (set hs - {0}) \<union> (set vs - {0, x})"
      using Cons.prems by (intro Cons.IH) (auto split: if_splits)
    ultimately show ?thesis by fastforce
  next
    case True
    have len: "length hs = 124" using Cons.prems(1) by (simp add: hash_inv_def)
    have "hash_count hs < 124" using Cons.prems by simp
    from hash_free_spec [OF len hash_lt free_slot_exists [OF len this hash_lt], of "v - 1"]
    obtain h where h: "hash_free 124 hs (BITVEC_HASH (v - 1)) = Some h" "first_free hs (BITVEC_HASH (v - 1)) h"
      by (auto simp: first_free_def)
    have v: "Suc (v - 1) = v" "v \<notin> set hs" using True Cons.prems(4) by auto
    note ins = hash_insert [OF Cons.prems(1) h(2), unfolded v(1), OF v(2)]
    have "\<exists>hs'. hash_rebuild x vs (Suc k, hs[h := v]) = Some (hash_count hs', hs') \<and> hash_inv hs'
       \<and> hash_count hs' \<le> Suc k + length (filter (\<lambda>v. v \<noteq> 0) vs)
       \<and> set hs' - {0} = (set (hs[h := v]) - {0}) \<union> (set vs - {0, x})"
    proof (rule Cons.IH [OF ins(1)])
      have "set (hs[h := v]) \<subseteq> insert v (set hs)" by (rule set_update_subset_insert)
      moreover have "v \<notin> set vs" using Cons.prems(3) True by auto
      ultimately show "(set vs - {0}) \<inter> set (hs[h := v]) = {}" using Cons.prems(4) by auto
      show "distinct (filter (\<lambda>v. v \<noteq> 0) vs)" using Cons.prems(3) by (simp split: if_splits)
    qed (use ins(2) Cons.prems(2,5) True in simp_all)
    then obtain hs' where hs': "hash_rebuild x vs (Suc k, hs[h := v]) = Some (hash_count hs', hs')" "hash_inv hs'"
       "hash_count hs' \<le> Suc k + length (filter (\<lambda>v. v \<noteq> 0) vs)"
       "set hs' - {0} = (set (hs[h := v]) - {0}) \<union> (set vs - {0, x})" by blast
    have "hash_rebuild x (v # vs) (k, hs) = Some (hash_count hs', hs')" using h(1) True hs'(1) by simp
    moreover have "set hs' - {0} = (set hs - {0}) \<union> (set (v # vs) - {0, x})"
      unfolding hs'(4) ins(3) using True by auto
    ultimately show ?thesis using hs'(2,3) True by (intro exI [of _ hs']) simp
  qed
qed

section \<open>The abstract set and the invariant\<close>

text \<open>The members, counted from 0 as the operations do after their decrement.\<close>

function bits :: "Bitvec \<Rightarrow> nat set" where
  "bits (Bitmap n bs) = {i. i div 8 < length bs \<and> bit (bs ! (i div 8)) (i mod 8)}"
| "bits (Hash n k hs) = {i. Suc i \<in> set hs}"
| "bits (Sub n k d subs) =
     {i. if i div d < length subs then (case subs ! (i div d) of None \<Rightarrow> False | Some q \<Rightarrow> i mod d \<in> bits q) else False}"
  by pat_completeness auto
termination bits
  by (relation "measure size") (auto dest: sub_size)

text \<open>What holds of every vector: sizes, a consistent hash table with at least one free slot, sub-vectors
  of the size of the divisor.\<close>

function bitvec_wf :: "Bitvec \<Rightarrow> bool" where
  "bitvec_wf (Bitmap n bs) \<longleftrightarrow> n \<le> 3968 \<and> length bs = 496"
| "bitvec_wf (Hash n k hs) \<longleftrightarrow> 3968 < n \<and> hash_inv hs \<and> k = hash_count hs \<and> k < 124 \<and> (\<forall>v \<in> set hs. v \<le> n)"
| "bitvec_wf (Sub n k d subs) \<longleftrightarrow> 3968 < n \<and> d = (n + 61) div 62 \<and> length subs = 62
     \<and> (\<forall>i < length subs. case subs ! i of None \<Rightarrow> True | Some q \<Rightarrow> bitvec_wf q \<and> iSize q = d)"
  by pat_completeness auto
termination bitvec_wf
  by (relation "measure size") (auto dest: sub_size)

lemma new_bitvec_wf: "bitvec_wf (new_bitvec n)" "iSize (new_bitvec n) = n" "bits (new_bitvec n) = {}"
  by (auto simp: new_bitvec_def hash_inv_empty)

text \<open>The divisor: 62 sub-vectors cover the range.\<close>

lemma divisor:
  fixes n d i :: nat
  assumes "3968 < n" "d = (n + 61) div 62"
  shows "0 < d" "i < n \<Longrightarrow> i div d < 62" "n \<le> 3968 * 62 ^ Suc l \<Longrightarrow> d \<le> 3968 * 62 ^ l"
proof -
  show d: "0 < d" using assms by simp
  have "n \<le> 62 * d" using assms by (simp add: algebra_simps)
  then show "i div d < 62" if "i < n" using that d by (simp add: less_mult_imp_div_less)
  show "d \<le> 3968 * 62 ^ l" if "n \<le> 3968 * 62 ^ Suc l" using that assms(2) by simp
qed

text \<open>Membership after a sub-vector changed.\<close>

lemma bits_sub_update:
  assumes "0 < d" "i div d < length subs" "bits q' = f (bits q)"
    and old: "bits q = (case subs ! (i div d) of None \<Rightarrow> {} | Some q \<Rightarrow> bits q)"
  shows "x \<in> bits (Sub n k d (subs[i div d := Some q'])) \<longleftrightarrow>
     (if x div d = i div d then x mod d \<in> f (bits q) else x \<in> bits (Sub n k d subs))"
  using assms by (auto simp: nth_list_update)

lemma div_mod_eq_iff: "0 < d \<Longrightarrow> x = i \<longleftrightarrow> x div d = i div d \<and> x mod d = i mod (d :: nat)"
  by (metis div_mult_mod_eq)

section \<open>The operations\<close>

lemma bitvec_test_spec: "bitvec_wf p \<Longrightarrow> i < iSize p \<Longrightarrow> bitvec_test p i = Some (i \<in> bits p)"
proof (induction p i rule: bitvec_test.induct)
  case (1 n k d subs i)
  note div = divisor [of n d]
  have i: "i div d < length subs" "i mod d < d" using 1(2,3) div(1,2) by auto
  show ?case
  proof (cases "subs ! (i div d)")
    case (Some q)
    then have "bitvec_wf q" "iSize q = d" using 1(2) i by auto
    then show ?thesis using 1(1) [OF i(1) Some] i Some by simp
  qed (use i in simp)
next
  case (2 n bs i)
  have "i div 8 < length bs" using 2 by (auto intro: less_mult_imp_div_less)
  then show ?case by (simp add: push_bit_of_1 and_exp_eq_0_iff_not_bit)
next
  case (3 n k hs i)
  have inv: "hash_inv hs" "length hs = 124" "hash_count hs < 124" using 3(1) by (auto simp: hash_inv_def)
  have "hash_test 124 hs (BITVEC_HASH i) (Suc i) = Some (reachable hs (BITVEC_HASH i) 124 (Suc i))"
    by (rule hash_test_spec [OF inv(2) _ hash_lt free_slot_exists [OF inv(2,3) hash_lt]]) simp
  then show ?case using reachable_iff [OF inv(1)] by simp
qed

text \<open>What setting \<open>i\<close> comes to: success with \<open>i\<close> added, or \<open>SQLITE_NOMEM\<close> with no other member added, and the
  latter only when an allocation failed.\<close>

definition set_done :: "Bitvec \<Rightarrow> nat set \<Rightarrow> 'e world \<Rightarrow> int \<Rightarrow> Bitvec \<Rightarrow> 'e world \<Rightarrow> bool" where
  "set_done p I w rc p' w' \<longleftrightarrow> bitvec_wf p' \<and> iSize p' = iSize p \<and> rc \<in> {0, 7}
     \<and> bits p' \<subseteq> I \<union> bits p \<and> (rc = 0 \<longrightarrow> bits p' = I \<union> bits p)
     \<and> w_alloc_ok w' = w_alloc_ok w \<and> ((\<forall>a. w_alloc_ok w a) \<longrightarrow> rc = 0)"

definition setter :: "nat \<Rightarrow> (Bitvec \<Rightarrow> nat \<Rightarrow> 'e world \<Rightarrow> (int \<times> Bitvec \<times> 'e world) option) \<Rightarrow> bool" where
  "setter d f \<longleftrightarrow> (\<forall>q j w. bitvec_wf q \<longrightarrow> iSize q = d \<longrightarrow> j < d \<longrightarrow>
     (\<exists>rc q' w'. f q j w = Some (rc, q', w') \<and> set_done q {j} w rc q' w'))"

lemma malloc_alloc: "sqlite3Malloc n w = (got, w') \<Longrightarrow> w_alloc_ok w' = w_alloc_ok w"
  "sqlite3Malloc n w = (False, w') \<Longrightarrow> 0 < n \<Longrightarrow> n \<le> 2147483391 \<Longrightarrow> \<not> (\<forall>a. w_alloc_ok w a)"
  by (auto simp: sqlite3Malloc_def sqlcipher_mem_malloc_def split: if_splits)

lemma free_alloc: "w_alloc_ok (sqlite3_free x w) = w_alloc_ok w"
  by (cases x) (simp_all add: sqlite3_free_def sqlcipher_mem_free_def Let_def)

lemma sub_wf_update:
  assumes "bitvec_wf (Sub n k d subs)" "bitvec_wf q" "iSize q = d"
  shows "bitvec_wf (Sub n k d (subs[j := Some q]))"
proof (cases "j < length subs")
  case True
  then have "subs[j := Some q] ! i = (if i = j then Some q else subs ! i)" for i by simp
  with assms show ?thesis by auto
qed (use assms in auto)

lemma sub_set_spec:
  assumes wf: "bitvec_wf (Sub n k d subs)" and i: "i < n" and f: "setter d f"
  shows "\<exists>rc subs' w'. sub_set f (Sub n k d subs) i w = Some (rc, Sub n k d subs', w')
     \<and> set_done (Sub n k d subs) {i} w rc (Sub n k d subs') w'"
proof -
  have d: "0 < d" "i div d < length subs" "i mod d < d" using wf i divisor [of n d] by auto
  obtain c w1 where c: "(case subs ! (i div d) of None \<Rightarrow> sqlite3BitvecCreate d w | Some q \<Rightarrow> (Some q, w)) = (c, w1)"
    by fastforce
  have w1: "w_alloc_ok w1 = w_alloc_ok w" "c = None \<Longrightarrow> \<not> (\<forall>a. w_alloc_ok w a)"
    using c malloc_alloc [of 512 w] by (auto simp: sqlite3BitvecCreate_def split: option.splits prod.splits if_splits)
  show ?thesis
  proof (cases c)
    case None
    then have "sub_set f (Sub n k d subs) i w = Some (7, Sub n k d subs, w1)" using c d by (simp add: sub_set_def)
    moreover have "set_done (Sub n k d subs) {i} w 7 (Sub n k d subs) w1"
      using wf w1 None unfolding set_done_def by auto
    ultimately show ?thesis by blast
  next
    case (Some q)
    have q: "bitvec_wf q" "iSize q = d" and old: "bits q = (case subs ! (i div d) of None \<Rightarrow> {} | Some q \<Rightarrow> bits q)"
      using Some c wf d new_bitvec_wf [of d]
      by (auto simp: sqlite3BitvecCreate_def split: option.splits prod.splits if_splits)
    obtain rc q' w' where r: "f q (i mod d) w1 = Some (rc, q', w')" "set_done q {i mod d} w1 rc q' w'"
      using f q d unfolding setter_def by blast
    let ?p = "Sub n k d (subs[i div d := Some q'])"
    have run: "sub_set f (Sub n k d subs) i w = Some (rc, ?p, w')" using c d Some r(1) by (simp add: sub_set_def)
    have "bitvec_wf ?p" using wf r(2) q by (intro sub_wf_update) (auto simp: set_done_def)
    moreover have mem: "x \<in> bits ?p \<longleftrightarrow> (if x div d = i div d then x mod d \<in> bits q' else x \<in> bits (Sub n k d subs))" for x
      using bits_sub_update [OF d(1,2), of q' "\<lambda>_. bits q'" q x n k] old by simp
    have this_q: "x div d = i div d \<Longrightarrow> x mod d \<in> bits q \<longleftrightarrow> x \<in> bits (Sub n k d subs)" for x
      using old d by (auto split: option.splits)
    have "bits ?p \<subseteq> {i} \<union> bits (Sub n k d subs)"
    proof
      fix x assume "x \<in> bits ?p"
      then show "x \<in> {i} \<union> bits (Sub n k d subs)"
        using mem [of x] this_q [of x] r(2) div_mod_eq_iff [OF d(1), of x i] by (auto simp: set_done_def split: if_splits)
    qed
    moreover have "bits ?p = {i} \<union> bits (Sub n k d subs)" if "rc = 0"
    proof (rule set_eqI)
      fix x
      show "x \<in> bits ?p \<longleftrightarrow> x \<in> {i} \<union> bits (Sub n k d subs)"
        using mem [of x] this_q [of x] r(2) that div_mod_eq_iff [OF d(1), of x i] by (auto simp: set_done_def split: if_splits)
    qed
    ultimately have "set_done (Sub n k d subs) {i} w rc ?p w'"
      using r(2) w1 unfolding set_done_def by (simp del: bits.simps bitvec_wf.simps)
    with run show ?thesis by blast
  qed
qed

lemma set_done_trans:
  assumes "set_done p I w rc p' w'" "set_done p' J w' rc' p'' w''"
  shows "set_done p (I \<union> J) w (rc OR rc') p'' w''"
  using assms unfolding set_done_def by auto

lemma rehash_loop_spec:
  assumes f: "setter d f" and vs: "\<forall>v \<in> set vs. v \<le> n"
  shows "bitvec_wf (Sub n k d subs) \<Longrightarrow> set_done p I w0 rc (Sub n k d subs) w \<Longrightarrow>
     \<exists>rc' subs' w'. rehash_loop f vs (rc, Sub n k d subs, w) = Some (rc', Sub n k d subs', w')
       \<and> set_done p (I \<union> {i. Suc i \<in> set vs}) w0 rc' (Sub n k d subs') w'"
  using vs
proof (induction vs arbitrary: I rc subs w)
  case Nil
  then show ?case by simp
next
  case (Cons v vs)
  show ?case
  proof (cases v)
    case 0
    then have "{i. Suc i \<in> set (v # vs)} = {i. Suc i \<in> set vs}" by auto
    then show ?thesis using Cons 0 by simp
  next
    case (Suc i)
    then have "i < n" using Cons.prems(3) by simp
    from sub_set_spec [OF Cons.prems(1) this f, of w] obtain rc' subs' w' where
      s: "sub_set f (Sub n k d subs) i w = Some (rc', Sub n k d subs', w')" "set_done (Sub n k d subs) {i} w rc' (Sub n k d subs') w'"
      by blast
    have "bitvec_wf (Sub n k d subs')" using s(2) unfolding set_done_def by blast
    from Cons.IH [OF this set_done_trans [OF Cons.prems(2) s(2)]] Cons.prems(3)
    obtain rc'' subs'' w'' where
      r: "rehash_loop f vs (rc OR rc', Sub n k d subs', w') = Some (rc'', Sub n k d subs'', w'')"
        "set_done p (I \<union> {i} \<union> {i. Suc i \<in> set vs}) w0 rc'' (Sub n k d subs'') w''" by auto
    have "I \<union> {i} \<union> {i. Suc i \<in> set vs} = I \<union> {i. Suc i \<in> set (v # vs)}" using Suc by auto
    then show ?thesis using r s(1) Suc by simp
  qed
qed

lemma bitmap_set:
  assumes "bitvec_wf (Bitmap n bs)" "i < n"
  shows "i div 8 < length bs" "set_done (Bitmap n bs) {i} w 0 (Bitmap n (bs[i div 8 := bs ! (i div 8) OR push_bit (i mod 8) 1])) w"
proof -
  show i: "i div 8 < length bs" using assms by (auto intro: less_mult_imp_div_less)
  have "x \<in> bits (Bitmap n (bs[i div 8 := bs ! (i div 8) OR push_bit (i mod 8) 1])) \<longleftrightarrow> x \<in> {i} \<union> bits (Bitmap n bs)" for x
    using i div_mod_eq_iff [of 8 x i] by (auto simp: nth_list_update bit_simps push_bit_of_1)
  then show "set_done (Bitmap n bs) {i} w 0 (Bitmap n (bs[i div 8 := bs ! (i div 8) OR push_bit (i mod 8) 1])) w"
    using assms unfolding set_done_def by auto
qed

lemma hash_stored:
  assumes "bitvec_wf (Hash n k hs)" "i < n" "first_free hs (BITVEC_HASH i) h" "Suc i \<notin> set hs" "k < 123"
  shows "set_done (Hash n k hs) {i} w 0 (Hash n (Suc k) (hs[h := Suc i])) w"
proof -
  have inv: "hash_inv hs" using assms(1) by simp
  note ins = hash_insert [OF inv assms(3,4)]
  have "v \<le> n" if "v \<in> set (hs[h := Suc i])" for v
    using that set_update_subset_insert [of hs h "Suc i"] assms(1,2) by auto
  then have "bitvec_wf (Hash n (Suc k) (hs[h := Suc i]))" using assms ins by simp
  moreover have "bits (Hash n (Suc k) (hs[h := Suc i])) = {i} \<union> bits (Hash n k hs)"
    using ins(3) by auto
  ultimately show ?thesis unfolding set_done_def by simp
qed

text \<open>Once the table is too full, all its values go to fresh sub-vectors.\<close>

lemma hash_split:
  assumes wf: "bitvec_wf (Hash n k hs)" and i: "i < n" and f: "setter ((n + 61) div 62) f" and a: "w_alloc_ok w1 = w_alloc_ok w"
  shows "\<exists>rc p' w'. do { r \<leftarrow> sub_set f (Sub n k ((n + 61) div 62) (replicate 62 None)) i w1;
              (rc, q, w) \<leftarrow> rehash_loop f hs r;
              Some (rc, q, sqlite3_free m w) } = Some (rc, p', w') \<and> set_done (Hash n k hs) {i} w rc p' w'"
proof -
  let ?d = "(n + 61) div 62" and ?e = "replicate 62 None"
  have e: "bitvec_wf (Sub n k ?d ?e)" "bits (Sub n k ?d ?e) = {}" using wf by auto
  obtain rc subs w' where s: "sub_set f (Sub n k ?d ?e) i w1 = Some (rc, Sub n k ?d subs, w')"
      "set_done (Sub n k ?d ?e) {i} w1 rc (Sub n k ?d subs) w'"
    using sub_set_spec [OF e(1) i f] by blast
  have "bitvec_wf (Sub n k ?d subs)" using s(2) unfolding set_done_def by blast
  moreover have "\<forall>v \<in> set hs. v \<le> n" using wf by simp
  ultimately obtain rc' subs' w'' where r: "rehash_loop f hs (rc, Sub n k ?d subs, w') = Some (rc', Sub n k ?d subs', w'')"
      "set_done (Sub n k ?d ?e) ({i} \<union> {i. Suc i \<in> set hs}) w1 rc' (Sub n k ?d subs') w''"
    using rehash_loop_spec [OF f _ _ s(2)] by blast
  have "set_done (Hash n k hs) {i} w rc' (Sub n k ?d subs') (sqlite3_free m w'')"
    using r(2) e(2) a unfolding set_done_def by (simp add: free_alloc del: bitvec_wf.simps)
  then show ?thesis using s(1) r(1) by auto
qed

lemma bitvec_set_spec:
  fixes w :: "'e world"
  shows "bitvec_wf p \<Longrightarrow> i < iSize p \<Longrightarrow> iSize p \<le> 3968 * 62 ^ l \<Longrightarrow>
     \<exists>rc p' w'. bitvec_set (Suc l) p i w = Some (rc, p', w') \<and> set_done p {i} w rc p' w'"
proof (induction l arbitrary: p i w)
  case 0
  then show ?case
  proof (cases p)
    case (Bitmap n bs)
    then show ?thesis using 0 bitmap_set(1) [of n bs i] bitmap_set(2) [of n bs i w] by auto
  qed simp_all
next
  case (Suc l)
  show ?case
  proof (cases p)
    case (Bitmap n bs)
    then show ?thesis using Suc.prems bitmap_set(1) [of n bs i] bitmap_set(2) [of n bs i w] by auto
  next
    case p: (Sub n k d subs)
    have "d \<le> 3968 * 62 ^ l" using Suc.prems p divisor(3) [of n d l] by simp
    then have "setter d (bitvec_set (Suc l) :: Bitvec \<Rightarrow> nat \<Rightarrow> 'e world \<Rightarrow> _)" unfolding setter_def by (intro allI impI, intro Suc.IH) auto
    then show ?thesis using sub_set_spec [of n k d subs i "bitvec_set (Suc l)" w] Suc.prems p by auto
  next
    case p: (Hash n k hs)
    have wf: "bitvec_wf (Hash n k hs)" "i < n" using Suc.prems p by auto
    then have "(n + 61) div 62 \<le> 3968 * 62 ^ l" using Suc.prems(3) p divisor(3) [of n "(n + 61) div 62" l] by simp
    then have f: "setter ((n + 61) div 62) (bitvec_set (Suc l) :: Bitvec \<Rightarrow> nat \<Rightarrow> 'e world \<Rightarrow> _)" unfolding setter_def by (intro allI impI, intro Suc.IH) auto
    have inv: "hash_inv hs" "k = hash_count hs" "k < 124" using wf(1) by auto
    then show ?thesis
    proof (cases rule: hash_slot_spec [where i = i])
      case present
      then have "set_done p {i} w 0 p w" using Suc.prems(1) p unfolding set_done_def by auto
      then show ?thesis using present p by auto
    next
      case (at_once h)
      then show ?thesis using hash_stored [OF wf at_once(2,3,4), of w] p by auto
    next
      case (if_room h)
      show ?thesis
      proof (cases "k < 62")
        case True
        then show ?thesis using hash_stored [OF wf if_room(2,3), of w] if_room(1) p by auto
      next
        case False
        obtain got w1 where m: "sqlite3Malloc 496 w = (got, w1)" by fastforce
        note a = malloc_alloc(1) [OF m]
        show ?thesis
        proof (cases got)
          case True
          from hash_split [OF wf f a] show ?thesis
            using m True False if_room(1) p by (simp add: add.commute)
        next
          case nomem: False
          then have "set_done p {i} w 7 p w1"
            using malloc_alloc [of 496 w] m Suc.prems(1) unfolding set_done_def by auto
          then show ?thesis using m nomem False if_room(1) p by simp
        qed
      qed
    qed
  qed
qed

lemma bitvec_clear_spec:
  "bitvec_wf p \<Longrightarrow> i < iSize p \<Longrightarrow>
     \<exists>p'. bitvec_clear p i = Some p' \<and> bitvec_wf p' \<and> iSize p' = iSize p \<and> bits p' = bits p - {i}"
proof (induction p i rule: bitvec_clear.induct)
  case (1 n k d subs i)
  have d: "0 < d" "i div d < length subs" "i mod d < d" using 1(2,3) divisor [of n d] by auto
  show ?case
  proof (cases "subs ! (i div d)")
    case None
    then show ?thesis using d 1(2) by auto
  next
    case (Some q)
    then have q: "bitvec_wf q" "iSize q = d" using 1(2) d by auto
    from 1(1) [OF d(2) Some q(1)] q(2) d obtain q' where
      q': "bitvec_clear q (i mod d) = Some q'" "bitvec_wf q'" "iSize q' = d" "bits q' = bits q - {i mod d}" by auto
    let ?p = "Sub n k d (subs[i div d := Some q'])"
    have old: "bits q = (case subs ! (i div d) of None \<Rightarrow> {} | Some q \<Rightarrow> bits q)" using Some by simp
    have "x div d = i div d \<Longrightarrow> x mod d \<in> bits q \<longleftrightarrow> x \<in> bits (Sub n k d subs)" for x using Some d by simp
    then have "x \<in> bits ?p \<longleftrightarrow> x \<in> bits (Sub n k d subs) - {i}" for x
      using bits_sub_update [OF d(1,2), where f = "\<lambda>b. b - {i mod d}", OF q'(4) old, of x n k] div_mod_eq_iff [OF d(1), of x i]
      by (auto simp del: bits.simps)
    moreover have "bitvec_wf ?p" by (rule sub_wf_update [OF 1(2) q'(2,3)])
    ultimately show ?thesis using q'(1) d(2) Some by (intro exI [of _ ?p]) (auto simp del: bits.simps bitvec_wf.simps)
  qed
next
  case (2 n bs i)
  have i: "i div 8 < length bs" using 2 by (auto intro: less_mult_imp_div_less)
  let ?p = "Bitmap n (bs[i div 8 := bs ! (i div 8) AND NOT (push_bit (i mod 8) 1)])"
  have "x \<in> bits ?p \<longleftrightarrow> x \<in> bits (Bitmap n bs) - {i}" for x
    using i div_mod_eq_iff [of 8 x i] by (auto simp: nth_list_update bit_simps push_bit_of_1)
  then show ?case using 2 i by (intro exI [of _ ?p]) auto
next
  case (3 n k hs i)
  have h: "hash_inv hs" "length (filter (\<lambda>v. v \<noteq> 0) hs) < 124" "distinct (filter (\<lambda>v. v \<noteq> 0) hs)" "\<forall>v \<in> set hs. v \<le> n"
    using 3(1) by (auto simp: hash_inv_def hash_count_def)
  from hash_rebuild_spec [OF hash_inv_empty(1) hash_inv_empty(2) [symmetric] h(3), of "Suc i"] h(2)
  obtain hs' where r: "hash_rebuild (Suc i) hs (0, replicate 124 0) = Some (hash_count hs', hs')" "hash_inv hs'"
     "hash_count hs' < 124" "set hs' - {0} = set hs - {0, Suc i}" by auto
  have "v \<le> n" if "v \<in> set hs'" for v using that r(4) h(4) by (cases "v = 0") auto
  moreover have "{x. Suc x \<in> set hs'} = {x. Suc x \<in> set hs} - {i}" using r(4) by auto
  ultimately show ?case using 3(1) r by simp
qed

section \<open>The interface: a set of page numbers\<close>

text \<open>The members as the callers count them, from 1 on.\<close>

definition bitvec_members :: "Bitvec option \<Rightarrow> u32 set" where
  "bitvec_members s = (case s of None \<Rightarrow> {} | Some p \<Rightarrow> {i. unat (i - 1) < iSize p \<and> unat (i - 1) \<in> bits p})"

definition bitvec_of_size :: "Bitvec option \<Rightarrow> nat \<Rightarrow> bool" where
  "bitvec_of_size s n \<longleftrightarrow> (\<exists>p. s = Some p \<and> bitvec_wf p \<and> iSize p = n \<and> n < 2 ^ 32)"

definition memory_lasts :: "'e world \<Rightarrow> bool" where
  "memory_lasts w \<longleftrightarrow> (\<forall>a. w_alloc_ok w a)"

datatype set_op = Add u32 | Remove u32

fun op_index :: "set_op \<Rightarrow> u32" where
  "op_index (Add i) = i"
| "op_index (Remove i) = i"

text \<open>A sequence of operations, up to the first one that fails; and what it does to a set.\<close>

fun run_ops ::
    "('s \<Rightarrow> u32 \<Rightarrow> 'w \<Rightarrow> (int \<times> 's \<times> 'w) option) \<Rightarrow> ('s \<Rightarrow> u32 \<Rightarrow> 's option) \<Rightarrow>
     set_op list \<Rightarrow> 's \<Rightarrow> 'w \<Rightarrow> (int \<times> 's \<times> 'w) option" where
  "run_ops add remove [] s w = Some (0, s, w)"
| "run_ops add remove (Add i # ops) s w =
     do { (rc, s, w) \<leftarrow> add s i w; if rc \<noteq> 0 then Some (rc, s, w) else run_ops add remove ops s w }"
| "run_ops add remove (Remove i # ops) s w = do { s \<leftarrow> remove s i; run_ops add remove ops s w }"

fun set_ops :: "set_op list \<Rightarrow> u32 set \<Rightarrow> u32 set" where
  "set_ops [] X = X"
| "set_ops (Add i # ops) X = set_ops ops (insert i X)"
| "set_ops (Remove i # ops) X = set_ops ops (X - {i})"

locale page_set =
  fixes of_size :: "'s \<Rightarrow> nat \<Rightarrow> bool"
    and members :: "'s \<Rightarrow> u32 set"
    and test :: "'s \<Rightarrow> u32 \<Rightarrow> bool option"
    and add :: "'s \<Rightarrow> u32 \<Rightarrow> 'w \<Rightarrow> (int \<times> 's \<times> 'w) option"
    and remove :: "'s \<Rightarrow> u32 \<Rightarrow> 's option"
    and healthy :: "'w \<Rightarrow> bool"
  assumes test_member: "of_size s n \<Longrightarrow> test s i = Some (i \<in> members s)"
    and add_member: "of_size s n \<Longrightarrow> 0 < i \<Longrightarrow> unat i \<le> n \<Longrightarrow>
      \<exists>rc s' w'. add s i w = Some (rc, s', w') \<and> of_size s' n
        \<and> members s' \<subseteq> insert i (members s) \<and> (rc = 0 \<longrightarrow> members s' = insert i (members s))
        \<and> (healthy w \<longrightarrow> rc = 0 \<and> healthy w')"
    and remove_member: "of_size s n \<Longrightarrow> 0 < i \<Longrightarrow> unat i \<le> n \<Longrightarrow>
      \<exists>s'. remove s i = Some s' \<and> of_size s' n \<and> members s' = members s - {i}"
begin

lemma run_ops_members:
  assumes "of_size s n" "\<forall>x \<in> set ops. 0 < op_index x \<and> unat (op_index x) \<le> n"
  shows "\<exists>rc s' w'. run_ops add remove ops s w = Some (rc, s', w') \<and> of_size s' n
     \<and> (rc = 0 \<longrightarrow> (\<forall>i. test s' i = Some (i \<in> set_ops ops (members s)))) \<and> (healthy w \<longrightarrow> rc = 0)"
  using assms
proof (induction ops arbitrary: s w)
  case Nil
  then show ?case using test_member by auto
next
  case (Cons x ops)
  show ?case
  proof (cases x)
    case (Add i)
    with Cons.prems obtain rc s' w' where a: "add s i w = Some (rc, s', w')" "of_size s' n"
      "rc = 0 \<longrightarrow> members s' = insert i (members s)" "healthy w \<longrightarrow> rc = 0 \<and> healthy w'"
      using add_member [of s n i w] by auto
    show ?thesis
    proof (cases "rc = 0")
      case True
      then show ?thesis using Cons.IH [OF a(2), of w'] Cons.prems(2) a Add by auto
    next
      case False
      then show ?thesis using a Add by auto
    qed
  next
    case (Remove i)
    with Cons.prems obtain s' where "remove s i = Some s'" "of_size s' n" "members s' = members s - {i}"
      using remove_member [of s n i] by auto
    then show ?thesis using Cons.IH [of s' w] Cons.prems(2) Remove by auto
  qed
qed

end

lemma index_pred: "0 < i \<Longrightarrow> unat (i - 1) < n \<longleftrightarrow> unat i \<le> n" "unat (i - 1) = unat (j - 1) \<longleftrightarrow> i = j" for i j :: u32
proof -
  assume "0 < i"
  then have "unat (i - 1) = unat i - 1" "0 < unat i" by (simp_all add: unat_minus_one word_neq_0_conv unat_gt_0)
  then show "unat (i - 1) < n \<longleftrightarrow> unat i \<le> n" by linarith
qed (metis diff_add_cancel unsigned_word_eqI)

lemma members_update:
  assumes "bits p' = f (bits p)" "iSize p' = iSize p" "f = (\<union>) {unat (i - 1)} \<or> f = (\<lambda>B. B - {unat (i - 1)})"
    "unat (i - 1) < iSize p"
  shows "f = (\<union>) {unat (i - 1)} \<Longrightarrow> bitvec_members (Some p') = insert i (bitvec_members (Some p))"
    "f = (\<lambda>B. B - {unat (i - 1)}) \<Longrightarrow> bitvec_members (Some p') = bitvec_members (Some p) - {i}"
  using assms index_pred(2) [of _ i] by (auto simp: bitvec_members_def)

interpretation bv: page_set bitvec_of_size bitvec_members sqlite3BitvecTest sqlite3BitvecSet sqlite3BitvecClear memory_lasts
proof (unfold_locales, goal_cases)
  case (1 s n i)
  then obtain p where "s = Some p" "bitvec_wf p" "iSize p = n" by (auto simp: bitvec_of_size_def)
  then show ?case using bitvec_test_spec [of p "unat (i - 1)"]
    by (simp add: sqlite3BitvecTest_def sqlite3BitvecTestNotNull_def Let_def bitvec_members_def)
next
  case (2 s n i w)
  then obtain p where p: "s = Some p" "bitvec_wf p" "iSize p = n" "n < 2 ^ 32" by (auto simp: bitvec_of_size_def)
  have i: "unat (i - 1) < iSize p" using 2 p index_pred(1) by simp
  have "iSize p \<le> 3968 * 62 ^ 4" using p by simp
  from bitvec_set_spec [OF p(2) i this, of w] obtain rc p' w' where
    r: "bitvec_set 5 p (unat (i - 1)) w = Some (rc, p', w')" "set_done p {unat (i - 1)} w rc p' w'" by (auto simp: eval_nat_numeral)
  have members_sub: "bitvec_members (Some p') \<subseteq> insert i (bitvec_members (Some p))"
    using r(2) index_pred(2) [of _ i] by (auto simp: bitvec_members_def set_done_def)
  show ?case
    using r p members_sub members_update(1) [of p' "(\<union>) {unat (i - 1)}" p i] i
    by (auto simp: sqlite3BitvecSet_def bitvec_of_size_def set_done_def memory_lasts_def)
next
  case (3 s n i)
  then obtain p where p: "s = Some p" "bitvec_wf p" "iSize p = n" "n < 2 ^ 32" by (auto simp: bitvec_of_size_def)
  have i: "unat (i - 1) < iSize p" using 3 p index_pred(1) by simp
  from bitvec_clear_spec [OF p(2) i] show ?case
    using p i members_update(2) [of _ "\<lambda>B. B - {unat (i - 1)}" p i]
    by (auto simp: sqlite3BitvecClear_def bitvec_of_size_def)
qed

section \<open>Properties\<close>

text \<open>
  C27. A bit vector is a set: after any sequence of set and clear operations in range on a new vector of any
  size, \<open>sqlite3BitvecTest\<close> answers for every number what the same operations on a set give, through
  bitmap, hash table and sub-vectors alike; no loop runs on, and without an allocation failure the
  sequence is run to its end.
\<close>

theorem bitvec_refines_set:
  assumes new: "sqlite3BitvecCreate n w0 = (Some p, w)" "n < 2 ^ 32"
    and ops: "\<forall>x \<in> set ops. 0 < op_index x \<and> unat (op_index x) \<le> n"
  shows "\<exists>rc s w'. run_ops sqlite3BitvecSet sqlite3BitvecClear ops (Some p) w = Some (rc, s, w')
     \<and> (rc = 0 \<longrightarrow> (\<forall>i. sqlite3BitvecTest s i = Some (i \<in> set_ops ops {}))) \<and> (memory_lasts w \<longrightarrow> rc = 0)"
proof -
  have p: "p = new_bitvec n" using new(1) by (auto simp: sqlite3BitvecCreate_def split: prod.splits if_splits)
  have "bitvec_of_size (Some p) n" "bitvec_members (Some p) = {}"
    using new(2) p new_bitvec_wf [of n] by (simp_all add: bitvec_of_size_def bitvec_members_def)
  with bv.run_ops_members [OF _ ops, of "Some p" w] show ?thesis by metis
qed

theorem bitvec_refines_set_witness:
  "\<exists>p w s w'. sqlite3BitvecCreate 5000 (initial_world (\<lambda>_. True) ()) = (Some p, w)
     \<and> run_ops sqlite3BitvecSet sqlite3BitvecClear [Add 1, Add 125, Add 5000, Remove 125] (Some p) w = Some (0, s, w')
     \<and> sqlite3BitvecTest s 1 = Some True \<and> sqlite3BitvecTest s 125 = Some False"
proof -
  let ?ops = "[Add 1, Add 125, Add 5000, Remove 125]"
  obtain p w where new: "sqlite3BitvecCreate 5000 (initial_world (\<lambda>_. True) ()) = (Some p, w)" "memory_lasts w"
    by (simp add: sqlite3BitvecCreate_def sqlite3Malloc_def sqlcipher_mem_malloc_def initial_world_def memory_lasts_def)
  have "\<forall>x \<in> set ?ops. 0 < op_index x \<and> unat (op_index x) \<le> 5000" by simp
  from bitvec_refines_set [OF new(1) _ this] new(2) obtain s w' where
    "run_ops sqlite3BitvecSet sqlite3BitvecClear ?ops (Some p) w = Some (0, s, w')"
    "\<forall>i. sqlite3BitvecTest s i = Some (i \<in> set_ops ?ops {})" by auto
  then show ?thesis using new(1) by fastforce
qed



end
