(* ===== verification/Hashtab.thy ===== *)
theory Hashtab
  imports Util Codec_State
begin

text \<open>
  The generic hash table of the amalgamation (\<^verbatim>\<open>hash.c\<close>): a doubly linked list of all elements in which the
  elements of a bucket are consecutive, with an optional array of buckets that count their elements and
  point at the first.  The elements live in an explicit store (\<open>elems\<close>), so that the pointer updates are
  those of the code; \<open>None\<close> is the use of a pointer that is null or freed, an index out of the bucket
  array, or that the fuel of a list walk ran out.  Keys are the strings the \<open>pKey\<close> pointers refer to; \<open>msize\<close> is
  \<open>sqlite3MallocSize\<close>, which the system's allocator answers.  Freeing an element removes it from the store.
\<close>

section \<open>State\<close>

type_synonym addr = nat

record 'd HashElem =
  he_next :: "addr option"
  he_prev :: "addr option"
  he_data :: "'d option"
  he_pKey :: bytes

record 'd Hash =
  htsize :: nat
  count :: nat
  first :: "addr option"
  ht :: "(nat \<times> addr option) list option"
  elems :: "addr \<rightharpoonup> 'd HashElem"

section \<open>Operations\<close>

definition sqlite3HashInit :: "'d Hash" where
  "sqlite3HashInit = \<lparr> htsize = 0, count = 0, first = None, ht = None, elems = Map.empty \<rparr>"

text \<open>The loop of \<open>sqlite3HashClear\<close> over the elements.\<close>

fun clear_loop :: "nat \<Rightarrow> addr option \<Rightarrow> 'd Hash \<Rightarrow> 'd Hash option" where
  "clear_loop fuel None H = Some H"
| "clear_loop 0 (Some a) H = None"
| "clear_loop (Suc fuel) (Some a) H =
     do { e \<leftarrow> elems H a; clear_loop fuel (he_next e) (H\<lparr>elems := (elems H)(a := None)\<rparr>) }"

definition sqlite3HashClear :: "'d Hash \<Rightarrow> 'd Hash option" where
  "sqlite3HashClear H =
     do { H' \<leftarrow> clear_loop (count H) (first H) (H\<lparr>first := None, ht := None, htsize := 0\<rparr>);
          Some (H'\<lparr>count := 0\<rparr>) }"

fun strHash_loop :: "u32 \<Rightarrow> bytes \<Rightarrow> u32" where
  "strHash_loop h [] = h"
| "strHash_loop h (c # r) = (if c = 0 then h else strHash_loop ((h + ucast (UpperToLower c)) * 0x9e3779b1) r)"

definition strHash :: "bytes \<Rightarrow> u32" where
  "strHash z = strHash_loop 0 z"

definition bucket_of :: "bytes \<Rightarrow> nat \<Rightarrow> nat" where
  "bucket_of z n = unat (strHash z) mod n"

definition put_elem :: "addr \<Rightarrow> 'd HashElem \<Rightarrow> 'd Hash \<Rightarrow> 'd Hash" where
  "put_elem a e H = H\<lparr>elems := (elems H)(a \<mapsto> e)\<rparr>"

definition insertElement :: "'d Hash \<Rightarrow> nat option \<Rightarrow> addr \<Rightarrow> 'd Hash option" where
  "insertElement H pEntry new =
     do { (pHead, H) \<leftarrow>
            (case pEntry of
               None \<Rightarrow> Some (None, H)
             | Some b \<Rightarrow>
                 do { bs \<leftarrow> ht H;
                      if b < length bs then
                        (case bs ! b of (n, chain) \<Rightarrow>
                         Some (if n \<noteq> 0 then chain else None, H\<lparr>ht := Some (bs[b := (Suc n, Some new)])\<rparr>))
                      else None });
          e \<leftarrow> elems H new;
          case pHead of
            Some y \<Rightarrow>
              do { ye \<leftarrow> elems H y;
                   let H = put_elem new (e\<lparr>he_next := Some y, he_prev := he_prev ye\<rparr>) H;
                   H \<leftarrow> (case he_prev ye of
                           Some z \<Rightarrow> do { ze \<leftarrow> elems H z; Some (put_elem z (ze\<lparr>he_next := Some new\<rparr>) H) }
                         | None \<Rightarrow> Some (H\<lparr>first := Some new\<rparr>));
                   ye \<leftarrow> elems H y;
                   Some (put_elem y (ye\<lparr>he_prev := Some new\<rparr>) H) }
          | None \<Rightarrow>
              do { let H = put_elem new (e\<lparr>he_next := first H\<rparr>) H;
                   H \<leftarrow> (case first H of
                           Some f \<Rightarrow> do { fe \<leftarrow> elems H f; Some (put_elem f (fe\<lparr>he_prev := Some new\<rparr>) H) }
                         | None \<Rightarrow> Some H);
                   e \<leftarrow> elems H new;
                   Some ((put_elem new (e\<lparr>he_prev := None\<rparr>) H)\<lparr>first := Some new\<rparr>) } }"

text \<open>The loop of \<open>rehash\<close>, which links every element of the old list into the new table.\<close>

fun relink_loop :: "nat \<Rightarrow> nat \<Rightarrow> addr option \<Rightarrow> 'd Hash \<Rightarrow> 'd Hash option" where
  "relink_loop fuel n None H = Some H"
| "relink_loop 0 n (Some a) H = None"
| "relink_loop (Suc fuel) n (Some a) H =
     do { e \<leftarrow> elems H a;
          H \<leftarrow> insertElement H (Some (bucket_of (he_pKey e) n)) a;
          relink_loop fuel n (he_next e) H }"

definition rehash :: "(int \<Rightarrow> nat) \<Rightarrow> 'd Hash \<Rightarrow> nat \<Rightarrow> 'e world \<Rightarrow> (bool \<times> 'd Hash \<times> 'e world) option" where
  "rehash msize H new_size w =
     (let new_size = (if new_size * 16 > 1024 then 1024 div 16 else new_size) in
      if new_size = htsize H then Some (False, H, w)
      else case sqlite3Malloc (int (new_size * 16)) w of
        (False, w) \<Rightarrow> Some (False, H, w)
      | (True, w) \<Rightarrow>
          do { let n = msize (int (new_size * 16)) div 16;
               H' \<leftarrow> relink_loop (count H) n (first H)
                       (H\<lparr>ht := Some (replicate n (0, None)), htsize := n, first := None\<rparr>);
               Some (True, H', w) })"

text \<open>The loop of \<open>findElementWithHash\<close>; no address is the static null element.\<close>

fun find_loop :: "nat \<Rightarrow> addr option \<Rightarrow> bytes \<Rightarrow> 'd Hash \<Rightarrow> addr option option" where
  "find_loop 0 elem pKey H = Some None"
| "find_loop (Suc n) elem pKey H =
     do { a \<leftarrow> elem;
          e \<leftarrow> elems H a;
          if sqlite3StrICmp (he_pKey e) pKey = 0 then Some (Some a) else find_loop n (he_next e) pKey H }"

definition findElementWithHash :: "'d Hash \<Rightarrow> bytes \<Rightarrow> (addr option \<times> nat) option" where
  "findElementWithHash H pKey =
     (case ht H of
        Some bs \<Rightarrow>
          (let h = bucket_of pKey (htsize H) in
           if h < length bs then
             (case bs ! h of (n, chain) \<Rightarrow> do { r \<leftarrow> find_loop n chain pKey H; Some (r, h) })
           else None)
      | None \<Rightarrow> do { r \<leftarrow> find_loop (count H) (first H) pKey H; Some (r, 0) })"

definition removeElementGivenHash :: "'d Hash \<Rightarrow> addr \<Rightarrow> nat \<Rightarrow> 'd Hash option" where
  "removeElementGivenHash H a h =
     do { e \<leftarrow> elems H a;
          H \<leftarrow> (case he_prev e of
                  Some z \<Rightarrow> do { ze \<leftarrow> elems H z; Some (put_elem z (ze\<lparr>he_next := he_next e\<rparr>) H) }
                | None \<Rightarrow> Some (H\<lparr>first := he_next e\<rparr>));
          H \<leftarrow> (case he_next e of
                  Some y \<Rightarrow> do { ye \<leftarrow> elems H y; Some (put_elem y (ye\<lparr>he_prev := he_prev e\<rparr>) H) }
                | None \<Rightarrow> Some H);
          H \<leftarrow> (case ht H of
                  Some bs \<Rightarrow>
                    if h < length bs then
                      (case bs ! h of (n, chain) \<Rightarrow>
                       Some (H\<lparr>ht := Some (bs[h := (n - 1, if chain = Some a then he_next e else chain)])\<rparr>))
                    else None
                | None \<Rightarrow> Some H);
          let H = H\<lparr>elems := (elems H)(a := None), count := count H - 1\<rparr>;
          if count H = 0 then sqlite3HashClear H else Some H }"

definition sqlite3HashFind :: "'d Hash \<Rightarrow> bytes \<Rightarrow> 'd option option" where
  "sqlite3HashFind H pKey =
     do { (r, h) \<leftarrow> findElementWithHash H pKey;
          case r of None \<Rightarrow> Some None | Some a \<Rightarrow> do { e \<leftarrow> elems H a; Some (he_data e) } }"

text \<open>The data returned, the table, the process.  A new element gets the address of its allocation.\<close>

definition sqlite3HashInsert ::
    "(int \<Rightarrow> nat) \<Rightarrow> 'd Hash \<Rightarrow> bytes \<Rightarrow> 'd option \<Rightarrow> 'e world \<Rightarrow> ('d option \<times> 'd Hash \<times> 'e world) option" where
  "sqlite3HashInsert msize H pKey data w =
     do { (r, h) \<leftarrow> findElementWithHash H pKey;
          old \<leftarrow> (case r of None \<Rightarrow> Some None | Some a \<Rightarrow> do { e \<leftarrow> elems H a; Some (he_data e) });
          case (r, old) of
            (Some a, Some d) \<Rightarrow>
              (case data of
                 None \<Rightarrow> do { H \<leftarrow> removeElementGivenHash H a h; Some (old, H, w) }
               | Some _ \<Rightarrow> do { e \<leftarrow> elems H a; Some (old, put_elem a (e\<lparr>he_data := data, he_pKey := pKey\<rparr>) H, w) })
          | _ \<Rightarrow>
              (case data of
                 None \<Rightarrow> Some (None, H, w)
               | Some _ \<Rightarrow>
                   (let a = w_nalloc w in
                    case sqlite3Malloc 32 w of
                      (False, w) \<Rightarrow> Some (data, H, w)
                    | (True, w) \<Rightarrow>
                        do { let H = put_elem a \<lparr> he_next = None, he_prev = None, he_data = data, he_pKey = pKey \<rparr> H;
                             let H = H\<lparr>count := Suc (count H)\<rparr>;
                             (done, H, w) \<leftarrow> (if count H \<ge> 10 \<and> count H > 2 * htsize H
                                              then rehash msize H (count H * 2) w else Some (False, H, w));
                             let h = (if done then bucket_of pKey (htsize H) else h);
                             H \<leftarrow> insertElement H (if ht H \<noteq> None then Some h else None) a;
                             Some (None, H, w) })) }"

end
