(* ===== verification/Hashtab_Shape.thy ===== *)
theory Hashtab_Shape
  imports Hashtab
begin

text \<open>
  The shape of a hash table: the doubly linked list of its elements, the buckets that divide it, and what
  linking, unlinking and resizing do to them.
\<close>

section \<open>Doubly linked segments\<close>

definition hd_or :: "addr list \<Rightarrow> addr option \<Rightarrow> addr option" where
  "hd_or xs n = (case xs of [] \<Rightarrow> n | x # _ \<Rightarrow> Some x)"

definition last_or :: "addr list \<Rightarrow> addr option \<Rightarrow> addr option" where
  "last_or xs p = (if xs = [] then p else Some (last xs))"

lemma hd_or_simps [simp]: "hd_or [] n = n" "hd_or (x # xs) n = Some x" "hd_or (xs @ ys) n = hd_or xs (hd_or ys n)"
  by (simp_all add: hd_or_def split: list.splits)

lemma last_or_simps [simp]: "last_or [] p = p" "last_or (xs @ [x]) p = Some x" "last_or (x # xs) p = last_or xs (Some x)"
  by (simp_all add: last_or_def)

text \<open>The elements \<open>xs\<close> are linked both ways, between \<open>p\<close> and \<open>n\<close>.\<close>

fun dseg :: "(addr \<rightharpoonup> 'd HashElem) \<Rightarrow> addr option \<Rightarrow> addr list \<Rightarrow> addr option \<Rightarrow> bool" where
  "dseg m p [] n \<longleftrightarrow> True"
| "dseg m p (x # xs) n \<longleftrightarrow> (\<exists>e. m x = Some e \<and> he_prev e = p \<and> he_next e = hd_or xs n \<and> dseg m (Some x) xs n)"

lemma dseg_append: "dseg m p (xs @ ys) n \<longleftrightarrow> dseg m p xs (hd_or ys n) \<and> dseg m (last_or xs p) ys n"
  by (induction xs arbitrary: p) auto

lemma dseg_frame [simp]: "x \<notin> set xs \<Longrightarrow> dseg (m(x := v)) p xs n = dseg m p xs n"
  by (induction xs arbitrary: p) auto

lemma dseg_dom: "dseg m p xs n \<Longrightarrow> x \<in> set xs \<Longrightarrow> \<exists>e. m x = Some e"
  by (induction xs arbitrary: p) auto

text \<open>Only the links matter.\<close>

lemma dseg_cong:
  "dseg m p xs n \<Longrightarrow> (\<And>x e. x \<in> set xs \<Longrightarrow> m x = Some e \<Longrightarrow> \<exists>e'. m' x = Some e' \<and> he_next e' = he_next e \<and> he_prev e' = he_prev e)
     \<Longrightarrow> dseg m' p xs n"
proof (induction xs arbitrary: p)
  case (Cons x xs)
  then obtain e where e: "m x = Some e" "he_prev e = p" "he_next e = hd_or xs n" "dseg m (Some x) xs n" by auto
  obtain e' where "m' x = Some e'" "he_next e' = he_next e" "he_prev e' = he_prev e" using Cons.prems(2) [of x e] e(1) by auto
  moreover have "dseg m' (Some x) xs n" using Cons.IH [OF e(4)] Cons.prems(2) by auto
  ultimately show ?case using e by auto
qed simp

text \<open>Changing what follows a segment, or what precedes it.\<close>

definition set_next :: "(addr \<rightharpoonup> 'd HashElem) \<Rightarrow> addr option \<Rightarrow> addr option \<Rightarrow> (addr \<rightharpoonup> 'd HashElem)" where
  "set_next m z n = (case z of None \<Rightarrow> m | Some z \<Rightarrow> m(z \<mapsto> (the (m z))\<lparr>he_next := n\<rparr>))"

definition set_prev :: "(addr \<rightharpoonup> 'd HashElem) \<Rightarrow> addr option \<Rightarrow> addr option \<Rightarrow> (addr \<rightharpoonup> 'd HashElem)" where
  "set_prev m y p = (case y of None \<Rightarrow> m | Some y \<Rightarrow> m(y \<mapsto> (the (m y))\<lparr>he_prev := p\<rparr>))"

lemma dseg_set_next: "dseg m p xs n \<Longrightarrow> distinct xs \<Longrightarrow> dseg (set_next m (last_or xs None) n') p xs n'"
proof (cases xs rule: rev_cases)
  case (snoc ys z)
  assume "dseg m p xs n" "distinct xs"
  then show ?thesis by (auto simp: snoc dseg_append set_next_def)
qed simp

lemma dseg_set_prev: "dseg m p xs n \<Longrightarrow> distinct xs \<Longrightarrow> dseg (set_prev m (hd_or xs None) p') p' xs n"
  by (cases xs) (auto simp: set_prev_def)

lemma set_link_frame [simp]:
  "set xs \<inter> set ys = {} \<Longrightarrow> dseg (set_next m (last_or ys None) n') p xs n = dseg m p xs n"
  "set xs \<inter> set ys = {} \<Longrightarrow> dseg (set_prev m (hd_or ys None) p') p xs n = dseg m p xs n"
proof -
  assume a: "set xs \<inter> set ys = {}"
  show "dseg (set_next m (last_or ys None) n') p xs n = dseg m p xs n"
  proof (cases "ys = []")
    case False
    then have "last ys \<notin> set xs" using a by (meson disjoint_iff last_in_set)
    then show ?thesis using False by (simp add: set_next_def last_or_def)
  qed (simp add: set_next_def)
  show "dseg (set_prev m (hd_or ys None) p') p xs n = dseg m p xs n"
    using a by (cases ys) (auto simp: set_prev_def)
qed

text \<open>Linking a new element in, and unlinking one.\<close>

definition link_in :: "(addr \<rightharpoonup> 'd HashElem) \<Rightarrow> addr option \<Rightarrow> addr \<Rightarrow> addr option \<Rightarrow> (addr \<rightharpoonup> 'd HashElem)" where
  "link_in m z new y =
     set_prev (set_next (m(new \<mapsto> (the (m new))\<lparr>he_next := y, he_prev := z\<rparr>)) z (Some new)) y (Some new)"

lemma dseg_link_in:
  assumes "dseg m None (pre @ post) None" "distinct (pre @ post)" "new \<notin> set (pre @ post)"
  shows "dseg (link_in m (last_or pre None) new (hd_or post None)) None (pre @ new # post) None"
proof -
  let ?e = "(the (m new))\<lparr>he_next := hd_or post None, he_prev := last_or pre None\<rparr>"
  let ?m1 = "m(new \<mapsto> ?e)"
  let ?m2 = "set_next ?m1 (last_or pre None) (Some new)"
  let ?m3 = "set_prev ?m2 (hd_or post None) (Some new)"
  have d: "set pre \<inter> set post = {}" "distinct pre" "distinct post" "new \<notin> set pre" "new \<notin> set post"
    using assms by auto
  have "dseg ?m1 None pre (hd_or post None)" "dseg ?m1 (last_or pre None) post None"
    using assms d by (simp_all add: dseg_append)
  then have "dseg ?m2 None pre (Some new)" "dseg ?m2 (last_or pre None) post None"
    using d by (simp_all add: dseg_set_next Int_commute)
  then have "dseg ?m3 None pre (Some new)" "dseg ?m3 (Some new) post None"
    using d by (simp_all add: dseg_set_prev)
  moreover have "?m3 new = Some ?e"
    using d by (cases post; cases pre rule: rev_cases) (simp_all add: set_prev_def set_next_def)
  ultimately show ?thesis by (simp add: dseg_append link_in_def)
qed

definition unlink :: "(addr \<rightharpoonup> 'd HashElem) \<Rightarrow> addr option \<Rightarrow> addr option \<Rightarrow> (addr \<rightharpoonup> 'd HashElem)" where
  "unlink m z y = set_prev (set_next m z y) y z"

lemma dseg_unlink:
  assumes "dseg m None (pre @ a # post) None" "distinct (pre @ a # post)"
  shows "dseg (unlink m (last_or pre None) (hd_or post None)) None (pre @ post) None"
proof -
  have d: "set pre \<inter> set post = {}" "distinct pre" "distinct post" using assms(2) by auto
  have "dseg m None pre (Some a)" "dseg m (Some a) post None" using assms(1) by (auto simp: dseg_append)
  then show ?thesis
    using d by (simp add: unlink_def dseg_append dseg_set_next dseg_set_prev Int_commute)
qed

text \<open>What the elements hold, whatever their links.\<close>

definition contents :: "(addr \<rightharpoonup> 'd HashElem) \<Rightarrow> addr \<rightharpoonup> 'd option \<times> bytes" where
  "contents m a = map_option (\<lambda>e. (he_data e, he_pKey e)) (m a)"

lemma contents_links [simp]:
  "z = None \<or> (\<exists>b e. z = Some b \<and> m b = Some e) \<Longrightarrow> contents (set_next m z n) = contents m"
  "z = None \<or> (\<exists>b e. z = Some b \<and> m b = Some e) \<Longrightarrow> contents (set_prev m z n) = contents m"
  by (auto simp: contents_def set_next_def set_prev_def fun_eq_iff)

lemma contents_upd: "contents (m(a \<mapsto> e)) = (contents m)(a \<mapsto> (he_data e, he_pKey e))"
  by (auto simp: contents_def fun_eq_iff)

lemma contents_link_in:
  assumes "dseg m p (pre @ post) q" "m new = Some e"
  shows "contents (link_in m (last_or pre None) new (hd_or post None)) = contents m"
proof -
  let ?m1 = "m(new \<mapsto> (the (m new))\<lparr>he_next := hd_or post None, he_prev := last_or pre None\<rparr>)"
  let ?m2 = "set_next ?m1 (last_or pre None) (Some new)"
  have in_dom: "\<exists>e. m x = Some e" if "x \<in> set (pre @ post)" for x by (rule dseg_dom [OF assms(1) that])
  have "last_or pre None = None \<or> (\<exists>b e. last_or pre None = Some b \<and> ?m1 b = Some e)"
    using in_dom [of "last pre"] by (auto simp: last_or_def)
  then have "contents ?m2 = contents ?m1" by (rule contents_links)
  moreover have "hd_or post None = None \<or> (\<exists>b e. hd_or post None = Some b \<and> ?m2 b = Some e)"
    using in_dom [of "hd post"] by (cases post) (auto simp: set_next_def split: option.splits)
  then have "contents (set_prev ?m2 (hd_or post None) (Some new)) = contents ?m2" by (rule contents_links)
  moreover have "contents ?m1 = contents m"
    using assms(2) by (auto simp: contents_def fun_eq_iff)
  ultimately show ?thesis by (simp add: link_in_def)
qed

lemma contents_key: "contents m = contents m' \<Longrightarrow> map_option he_pKey (m a) = map_option he_pKey (m' a)"
  by (drule fun_cong [of _ _ a]) (cases "m a"; cases "m' a"; simp add: contents_def)

lemma contents_unlink:
  assumes "dseg m p (pre @ a # post) q"
  shows "contents (unlink m (last_or pre None) (hd_or post None)) = contents m"
proof -
  let ?m1 = "set_next m (last_or pre None) (hd_or post None)"
  have in_dom: "\<exists>e. m x = Some e" if "x \<in> set (pre @ a # post)" for x by (rule dseg_dom [OF assms that])
  have "last_or pre None = None \<or> (\<exists>b e. last_or pre None = Some b \<and> m b = Some e)"
    using in_dom [of "last pre"] by (auto simp: last_or_def)
  then have "contents ?m1 = contents m" by (rule contents_links)
  moreover have "hd_or post None = None \<or> (\<exists>b e. hd_or post None = Some b \<and> ?m1 b = Some e)"
    using in_dom [of "hd post"] by (cases post) (auto simp: set_next_def split: option.splits)
  then have "contents (set_prev ?m1 (hd_or post None) (last_or pre None)) = contents ?m1" by (rule contents_links)
  ultimately show ?thesis by (simp add: unlink_def)
qed

section \<open>Buckets\<close>

text \<open>The elements of a class stand together.\<close>

fun grouped :: "('a \<Rightarrow> 'b) \<Rightarrow> 'a list \<Rightarrow> bool" where
  "grouped f [] \<longleftrightarrow> True"
| "grouped f (x # xs) \<longleftrightarrow> grouped f xs \<and> (f x \<in> f ` set xs \<longrightarrow> f (hd xs) = f x)"

lemma grouped_insert:
  assumes "grouped f (A @ x # B)" "f new = f x"
  shows "grouped f (A @ new # x # B)"
  using assms(1)
proof (induction A)
  case Nil
  then show ?case using assms(2) by simp
next
  case (Cons a A)
  have "f ` set (A @ new # x # B) = f ` set (A @ x # B)" using assms(2) by auto
  moreover have "f (hd (A @ new # x # B)) = f (hd (A @ x # B))" using assms(2) by (cases A) simp_all
  ultimately show ?case using Cons by (simp del: set_append)
qed

lemma grouped_remove:
  assumes "grouped f (A @ x # B)"
  shows "grouped f (A @ B)"
  using assms
proof (induction A)
  case (Cons a A)
  have "f (hd (A @ B)) = f a" if "f a \<in> f ` set (A @ B)"
  proof (cases A)
    case Nil
    have g: "grouped f (x # B)" using Cons.prems Nil by simp
    have "f a \<in> f ` set (x # B) \<longrightarrow> f (hd (x # B)) = f a" using Cons.prems unfolding Nil by (simp del: list.set image_insert)
    moreover have "f a \<in> f ` set B" using that Nil by simp
    ultimately have x: "f x = f a" by simp
    have "f x \<in> f ` set B" unfolding x using that Nil by simp
    then have "f (hd B) = f x" using g by simp
    then show ?thesis using x Nil by simp
  next
    case (Cons y A')
    have "f a \<in> f ` set (A @ x # B)" using that by auto
    then show ?thesis using Cons.prems Cons by simp
  qed
  then show ?case using Cons by (simp del: set_append)
qed simp

lemma grouped_cong: "(\<And>x. x \<in> set L \<Longrightarrow> f x = g x) \<Longrightarrow> grouped f L = grouped g L"
proof (induction L)
  case (Cons x L)
  then have "f ` set L = g ` set L" "f x = g x" "grouped f L = grouped g L" by (simp_all cong: image_cong)
  moreover have "f (hd L) = g (hd L)" if "L \<noteq> []" using Cons.prems that by simp
  ultimately show ?case by (cases "L = []") simp_all
qed simp

lemma grouped_split:
  assumes "grouped f L" "filter (\<lambda>a. f a = b) L \<noteq> []"
  shows "\<exists>A B. L = A @ filter (\<lambda>a. f a = b) L @ B"
  using assms
proof (induction L)
  case (Cons x L)
  let ?C = "filter (\<lambda>a. f a = b)"
  show ?case
  proof (cases "?C L = []")
    case True
    then show ?thesis using Cons.prems by (auto intro: exI [of _ "[]"])
  next
    case ne: False
    with Cons obtain A B where AB: "L = A @ ?C L @ B" by auto
    show ?thesis
    proof (cases "f x = b")
      case True
      have "length (?C L) = length (?C A) + length (?C (?C L)) + length (?C B)" by (subst AB) (simp only: filter_append length_append)
      then have "?C A = []" by simp
      moreover have "b \<in> f ` set L" using ne by (auto simp: filter_empty_conv)
      then have "f (hd L) = b" using Cons.prems(1) True by auto
      moreover have "A \<noteq> [] \<Longrightarrow> hd L = hd A" by (subst AB) simp
      ultimately have "A = []" by (cases A) (auto split: if_splits)
      then have "x # L = [] @ ?C (x # L) @ B" using AB True by simp
      then show ?thesis by blast
    next
      case False
      then have "x # L = (x # A) @ ?C (x # L) @ B" using AB by simp
      then show ?thesis by blast
    qed
  qed
qed simp

section \<open>The shape of a table\<close>

definition linked :: "'d Hash \<Rightarrow> addr list \<Rightarrow> bool" where
  "linked H L \<longleftrightarrow> distinct L \<and> dseg (elems H) None L None \<and> first H = hd_or L None"

definition slot :: "'d Hash \<Rightarrow> addr \<Rightarrow> nat" where
  "slot H a = bucket_of (he_pKey (the (elems H a))) (htsize H)"

definition in_bucket :: "'d Hash \<Rightarrow> addr list \<Rightarrow> nat \<Rightarrow> addr list" where
  "in_bucket H L b = filter (\<lambda>a. slot H a = b) L"

text \<open>A bucket counts its elements and points at the first of them; in an empty one the pointer is stale.\<close>

definition bucket_ok :: "nat \<times> addr option \<Rightarrow> addr list \<Rightarrow> bool" where
  "bucket_ok p xs \<longleftrightarrow> fst p = length xs \<and> (xs \<noteq> [] \<longrightarrow> snd p = Some (hd xs))"

definition buckets :: "'d Hash \<Rightarrow> addr list \<Rightarrow> bool" where
  "buckets H L \<longleftrightarrow>
     (case ht H of
        None \<Rightarrow> htsize H = 0
      | Some bs \<Rightarrow> length bs = htsize H \<and> 0 < htsize H \<and> grouped (slot H) L
          \<and> (\<forall>b < htsize H. bucket_ok (bs ! b) (in_bucket H L b)))"

lemma buckets_cong:
  assumes "ht H' = ht H" "htsize H' = htsize H" "\<And>x. x \<in> set L \<Longrightarrow> slot H' x = slot H x" "buckets H L"
  shows "buckets H' L"
proof -
  have "in_bucket H' L b = in_bucket H L b" for b using assms(3) by (auto simp: in_bucket_def intro: filter_cong)
  moreover have "grouped (slot H') L = grouped (slot H) L" using assms(3) by (rule grouped_cong)
  ultimately show ?thesis using assms by (cases "ht H") (simp_all add: buckets_def)
qed

text \<open>What \<open>insertElement\<close> does to the list: the new element goes before \<open>B\<close>.\<close>

lemma insertElement_list:
  assumes "linked H (A @ B)" "new \<notin> set (A @ B)" "elems H new = Some e" "A = []"
  shows "insertElement H None new =
     Some (H\<lparr>first := Some new, elems := link_in (elems H) None new (hd_or B None)\<rparr>)"
proof (cases B)
  case Nil
  then show ?thesis using assms
    by (simp add: insertElement_def linked_def put_elem_def link_in_def set_next_def set_prev_def Let_def)
next
  case (Cons y B')
  with assms obtain ye where "elems H y = Some ye" "y \<noteq> new" "first H = Some y" by (auto simp: linked_def)
  then show ?thesis using assms Cons
    by (simp add: insertElement_def put_elem_def link_in_def set_next_def set_prev_def Let_def fun_upd_twist)
qed

lemma insertElement_bucket:
  assumes "linked H (A @ B)" "new \<notin> set (A @ B)" "elems H new = Some e"
    and b: "ht H = Some bs" "b < length bs" "if fst (bs ! b) = 0 then A = [] else B \<noteq> [] \<and> snd (bs ! b) = Some (hd B)"
  shows "insertElement H (Some b) new =
     Some (H\<lparr>ht := Some (bs[b := (Suc (fst (bs ! b)), Some new)]), first := hd_or A (Some new),
             elems := link_in (elems H) (last_or A None) new (hd_or B None)\<rparr>)"
proof -
  obtain n c where nc: "bs ! b = (n, c)" by fastforce
  let ?H = "H\<lparr>ht := Some (bs[b := (Suc n, Some new)])\<rparr>"
  show ?thesis
  proof (cases "n = 0")
    case True
    then have "insertElement H (Some b) new = insertElement ?H None new"
      using b nc by (simp add: insertElement_def)
    moreover have "linked ?H (A @ B)" "elems ?H new = Some e" using assms by (simp_all add: linked_def)
    ultimately show ?thesis using insertElement_list [of ?H A B new e] assms(2) b nc True by simp
  next
    case False
    then obtain y B' where B: "B = y # B'" "c = Some y" using b nc by (cases B) auto
    with assms obtain ye where ye: "elems H y = Some ye" "y \<noteq> new" "he_prev ye = last_or A None"
      by (auto simp: linked_def dseg_append)
    show ?thesis
    proof (cases A rule: rev_cases)
      case Nil
      then show ?thesis using B ye assms(3) b nc False
        by (simp add: insertElement_def put_elem_def link_in_def set_next_def set_prev_def Let_def)
    next
      case (snoc A' z)
      with assms B obtain ze where "elems H z = Some ze" "z \<noteq> new" "z \<noteq> y"
        by (auto simp: linked_def dseg_append)
      moreover have "hd_or A n = hd_or A None" for n using snoc by (cases A) simp_all
      moreover have "first H = hd_or A None" using assms(1) snoc by (cases A) (simp_all add: linked_def)
      ultimately show ?thesis using B ye assms(3) b nc False snoc
        by (simp add: insertElement_def put_elem_def link_in_def set_next_def set_prev_def Let_def)
    qed
  qed
qed

lemma split_filter_outside: "L = A @ filter P L @ B \<Longrightarrow> filter P A = [] \<and> filter P B = []"
proof -
  assume a: "L = A @ filter P L @ B"
  have "length (filter P L) = length (filter P A) + length (filter P (filter P L)) + length (filter P B)"
    by (subst a) (simp only: filter_append length_append)
  then show ?thesis by simp
qed

text \<open>Where the new element goes.\<close>

lemma bucket_position:
  assumes "grouped f L"
  obtains A B where "L = A @ B" "filter (\<lambda>a. f a = b) A = []"
    "if filter (\<lambda>a. f a = b) L = [] then A = [] else B \<noteq> [] \<and> hd B = hd (filter (\<lambda>a. f a = b) L) \<and> f (hd B) = b"
proof (cases "filter (\<lambda>a. f a = b) L = []")
  case True
  then show ?thesis using that [of "[]" L] by simp
next
  case False
  then obtain A B where AB: "L = A @ filter (\<lambda>a. f a = b) L @ B" using grouped_split [OF assms] by metis
  define C where "C = filter (\<lambda>a. f a = b) L"
  have "f (hd C) = b" using hd_in_set [OF False] by (simp add: C_def)
  moreover have "L = A @ C @ B" unfolding C_def by (rule AB)
  moreover have "filter (\<lambda>a. f a = b) A = []" using split_filter_outside [OF AB] by simp
  ultimately show ?thesis using that [of A "C @ B"] False by (fold C_def) simp
qed

definition same_contents :: "'d Hash \<Rightarrow> 'd Hash \<Rightarrow> bool" where
  "same_contents H' H \<longleftrightarrow> contents (elems H') = contents (elems H) \<and> htsize H' = htsize H \<and> count H' = count H"

lemma same_contents_key: "contents m = contents m' \<Longrightarrow> he_pKey (the (m a)) = he_pKey (the (m' a))"
  by (drule contents_key [of _ _ a]) (cases "m a"; cases "m' a"; simp)

lemma same_contents_slot: "same_contents H' H \<Longrightarrow> slot H' = slot H"
  using same_contents_key [of "elems H'" "elems H"] by (simp add: same_contents_def slot_def fun_eq_iff)

lemma link_in_frame [simp]:
  "x \<notin> insert new (set (A @ B)) \<Longrightarrow> link_in m (last_or A None) new (hd_or B None) x = m x"
  by (cases B; cases A rule: rev_cases) (auto simp: link_in_def set_next_def set_prev_def)

lemma bucket_of_less [simp]: "0 < n \<Longrightarrow> bucket_of z n < n"
  by (simp add: bucket_of_def)

lemma insertElement_ok:
  assumes "linked H L" "buckets H L" "new \<notin> set L" "elems H new = Some e"
  shows "\<exists>H' L'. insertElement H (if ht H \<noteq> None then Some (slot H new) else None) new = Some H'
     \<and> linked H' L' \<and> buckets H' L' \<and> set L' = insert new (set L) \<and> same_contents H' H
     \<and> (\<forall>x. x \<notin> insert new (set L) \<longrightarrow> elems H' x = elems H x)"
proof (cases "ht H")
  case None
  let ?H = "H\<lparr>first := Some new, elems := link_in (elems H) None new (hd_or L None)\<rparr>"
  have "insertElement H None new = Some ?H" using insertElement_list [of H "[]" L] assms by simp
  moreover have "linked ?H (new # L)" using dseg_link_in [of "elems H" "[]" L new] assms by (simp add: linked_def)
  moreover have "same_contents ?H H"
    using contents_link_in [of "elems H" None "[]" L None new] assms by (simp add: same_contents_def linked_def)
  moreover have "buckets ?H (new # L)" using assms(2) None by (simp add: buckets_def)
  moreover have "elems ?H x = elems H x" if "x \<notin> insert new (set L)" for x
    using link_in_frame [of x new "[]" L "elems H"] that by simp
  ultimately show ?thesis using None by (intro exI [of _ ?H] exI [of _ "new # L"]) simp
next
  case (Some bs)
  let ?b = "slot H new"
  let ?C = "in_bucket H L ?b"
  have b: "length bs = htsize H" "?b < length bs" "grouped (slot H) L" "\<forall>b < htsize H. bucket_ok (bs ! b) (in_bucket H L b)"
    using assms(2) Some by (simp_all add: buckets_def slot_def)
  obtain A B where AB: "L = A @ B" "in_bucket H A ?b = []"
    "if ?C = [] then A = [] else B \<noteq> [] \<and> hd B = hd ?C \<and> slot H (hd B) = ?b"
    using bucket_position [OF b(3), of ?b] unfolding in_bucket_def by blast
  let ?H = "H\<lparr>ht := Some (bs[?b := (Suc (fst (bs ! ?b)), Some new)]), first := hd_or A (Some new),
             elems := link_in (elems H) (last_or A None) new (hd_or B None)\<rparr>"
  have bC: "bucket_ok (bs ! ?b) ?C" using b by simp
  then have "if fst (bs ! ?b) = 0 then A = [] else B \<noteq> [] \<and> snd (bs ! ?b) = Some (hd B)"
    using AB(3) by (simp add: bucket_ok_def split: if_splits)
  then have "insertElement H (Some ?b) new = Some ?H" using insertElement_bucket [of H A B new e bs ?b] assms AB(1) Some b(2) by simp
  moreover have "linked ?H (A @ new # B)"
    using dseg_link_in [of "elems H" A B new] assms AB(1) by (auto simp: linked_def)
  moreover have same: "same_contents ?H H"
    using contents_link_in [of "elems H" None A B None new] assms AB(1) by (simp add: same_contents_def linked_def)
  have group: "grouped (slot H) (A @ new # B)"
  proof (cases "?C = []")
    case True
    then have "?b \<notin> slot H ` set L" "A = []" using AB(3) by (auto simp: in_bucket_def filter_empty_conv)
    then show ?thesis using b(3) AB(1) by simp
  next
    case False
    then obtain y B' where "B = y # B'" "slot H y = ?b" using AB(3) by (cases B) auto
    then show ?thesis using grouped_insert [of "slot H" A y B' new] b(3) AB(1) by simp
  qed
  have new_bucket: "in_bucket H (A @ new # B) c = (if c = ?b then new # in_bucket H L c else in_bucket H L c)" for c
    using AB(2) unfolding AB(1) in_bucket_def by (cases "c = ?b") simp_all
  have slots: "slot ?H = slot H" by (rule same_contents_slot [OF same])
  have "bucket_ok (bs[?b := (Suc (fst (bs ! ?b)), Some new)] ! c) (in_bucket ?H (A @ new # B) c)" if "c < htsize H" for c
  proof -
    have "in_bucket ?H (A @ new # B) c = (if c = ?b then new # in_bucket H L c else in_bucket H L c)"
      using new_bucket [of c] unfolding in_bucket_def slots .
    then show ?thesis using b(1,2,4) bC that by (cases "c = ?b") (simp_all add: bucket_ok_def)
  qed
  then have "buckets ?H (A @ new # B)" using b(1,2) group slots by (auto simp: buckets_def)
  moreover have "elems ?H x = elems H x" if "x \<notin> insert new (set L)" for x
    using link_in_frame [of x new A B "elems H"] that AB(1) by simp
  ultimately show ?thesis
    using \<open>insertElement H (Some ?b) new = Some ?H\<close> \<open>linked ?H (A @ new # B)\<close> same Some AB(1)
    by (intro exI [of _ ?H] exI [of _ "A @ new # B"]) simp
qed

section \<open>Resizing\<close>

text \<open>The part of the old list that is still to be linked in: only its forward links are used.\<close>

fun nseg :: "(addr \<rightharpoonup> 'd HashElem) \<Rightarrow> addr list \<Rightarrow> bool" where
  "nseg m [] \<longleftrightarrow> True"
| "nseg m (x # xs) \<longleftrightarrow> (\<exists>e. m x = Some e \<and> he_next e = hd_or xs None \<and> nseg m xs)"

lemma dseg_nseg: "dseg m p xs None \<Longrightarrow> nseg m xs"
  by (induction xs arbitrary: p) auto

lemma nseg_cong: "(\<And>x. x \<in> set xs \<Longrightarrow> m' x = m x) \<Longrightarrow> nseg m' xs = nseg m xs"
  by (induction xs) auto

lemma buckets_ht: "buckets H L \<Longrightarrow> ht H = None \<longleftrightarrow> htsize H = 0"
  by (auto simp: buckets_def split: option.splits)

lemma relink_ok:
  assumes "nseg (elems H) R" "linked H L" "buckets H L" "ht H \<noteq> None" "distinct R" "set R \<inter> set L = {}" "length R \<le> fuel"
  shows "\<exists>H' L'. relink_loop fuel (htsize H) (hd_or R None) H = Some H' \<and> linked H' L' \<and> buckets H' L'
     \<and> set L' = set R \<union> set L \<and> same_contents H' H \<and> (\<forall>x. x \<notin> set R \<union> set L \<longrightarrow> elems H' x = elems H x)"
  using assms
proof (induction R arbitrary: H L fuel)
  case Nil
  then show ?case by (intro exI [of _ H] exI [of _ L]) (simp add: same_contents_def)
next
  case (Cons a R)
  then obtain e k where e: "elems H a = Some e" "he_next e = hd_or R None" "nseg (elems H) R" and k: "fuel = Suc k"
    by (cases fuel) auto
  have slot: "bucket_of (he_pKey e) (htsize H) = slot H a" by (simp add: slot_def e)
  from insertElement_ok [OF Cons.prems(2,3) _ e(1)] Cons.prems obtain H1 L1 where
    one: "insertElement H (Some (slot H a)) a = Some H1" "linked H1 L1" "buckets H1 L1" "set L1 = insert a (set L)"
      "same_contents H1 H" "\<forall>x. x \<notin> insert a (set L) \<longrightarrow> elems H1 x = elems H x"
    by auto
  have size: "htsize H1 = htsize H" using one(5) by (simp add: same_contents_def)
  then have ht: "ht H1 \<noteq> None" using buckets_ht [OF one(3)] buckets_ht [OF Cons.prems(3)] Cons.prems(4) by simp
  have "elems H1 x = elems H x" if "x \<in> set R" for x using one(6) that Cons.prems(5,6) by auto
  then have "nseg (elems H1) R" using e(3) nseg_cong [of R] by blast
  moreover have "set R \<inter> set L1 = {}" using one(4) Cons.prems(5,6) by auto
  ultimately obtain H' L' where rest: "relink_loop k (htsize H1) (hd_or R None) H1 = Some H'" "linked H' L'" "buckets H' L'"
      "set L' = set R \<union> set L1" "same_contents H' H1" "\<forall>x. x \<notin> set R \<union> set L1 \<longrightarrow> elems H' x = elems H1 x"
    using Cons.IH [OF _ one(2,3) ht, of k] Cons.prems(5,7) k by auto
  have "relink_loop fuel (htsize H) (hd_or (a # R) None) H = Some H'"
    using rest(1) one(1) e(1,2) k slot size by simp
  moreover have "same_contents H' H" using rest(5) one(5) by (simp add: same_contents_def)
  ultimately show ?case using rest one by (intro exI [of _ H'] exI [of _ L']) auto
qed

text \<open>Allocations only move on through the outcomes that are in store.\<close>

definition later :: "'e world \<Rightarrow> 'e world \<Rightarrow> bool" where
  "later w w' \<longleftrightarrow> w_nalloc w \<le> w_nalloc w' \<and> w_alloc_ok w' = w_alloc_ok w"

lemma later_refl [simp]: "later w w"
  by (simp add: later_def)

lemma later_trans: "later w w1 \<Longrightarrow> later w1 w2 \<Longrightarrow> later w w2"
  by (simp add: later_def)

lemma sqlite3Malloc_later: "sqlite3Malloc n w = (ok, w') \<Longrightarrow> later w w'"
  by (auto simp: sqlite3Malloc_def sqlcipher_mem_malloc_def later_def split: if_splits)

lemma empty_buckets:
  assumes "0 < n"
  shows "buckets (H\<lparr>ht := Some (replicate n (0, None)), htsize := n, first := None\<rparr>) []"
    "linked (H\<lparr>ht := Some (replicate n (0, None)), htsize := n, first := None\<rparr>) []"
  using assms by (simp_all add: buckets_def linked_def bucket_ok_def in_bucket_def)

text \<open>The system's allocator gives at least what was asked for.\<close>

definition msize_ok :: "(int \<Rightarrow> nat) \<Rightarrow> bool" where
  "msize_ok msize \<longleftrightarrow> (\<forall>n. nat n \<le> msize n)"

lemma rehash_ok:
  assumes "linked H L" "buckets H L" "length L \<le> count H" "0 < n" "msize_ok msize"
  shows "\<exists>done H' w' L'. rehash msize H n w = Some (done, H', w') \<and> linked H' L' \<and> buckets H' L' \<and> set L' = set L
     \<and> contents (elems H') = contents (elems H) \<and> count H' = count H \<and> (\<not> done \<longrightarrow> H' = H)
     \<and> (done \<longrightarrow> ht H' \<noteq> None) \<and> (\<forall>x. x \<notin> set L \<longrightarrow> elems H' x = elems H x) \<and> later w w'"
proof -
  define sz where "sz = (if n * 16 > 1024 then 1024 div 16 else n)"
  obtain ok w' where m: "sqlite3Malloc (int (sz * 16)) w = (ok, w')" by fastforce
  have sz: "0 < sz" using assms(4) by (simp add: sz_def)
  have rehash: "rehash msize H n w =
     (if sz = htsize H then Some (False, H, w) else if \<not> ok then Some (False, H, w')
      else do { let n = msize (int (sz * 16)) div 16;
                H' \<leftarrow> relink_loop (count H) n (first H)
                        (H\<lparr>ht := Some (replicate n (0, None)), htsize := n, first := None\<rparr>);
                Some (True, H', w') })"
    unfolding rehash_def sz_def [symmetric] Let_def m by (cases ok) simp_all
  show ?thesis
  proof (cases "sz = htsize H \<or> \<not> ok")
    case True
    have "\<exists>w'. rehash msize H n w = Some (False, H, w') \<and> later w w'"
      using True m sqlite3Malloc_later [OF m] unfolding rehash by (cases "sz = htsize H") simp_all
    then show ?thesis using assms by blast
  next
    case False
    let ?n = "msize (int (sz * 16)) div 16"
    let ?H = "H\<lparr>ht := Some (replicate ?n (0, None)), htsize := ?n, first := None\<rparr>"
    have "nat (int (sz * 16)) \<le> msize (int (sz * 16))" using assms(5) unfolding msize_ok_def by blast
    then have "0 < ?n" using sz by (simp add: div_greater_zero_iff)
    from empty_buckets [OF this, of H] have e: "buckets ?H []" "linked ?H []" by simp_all
    have "nseg (elems ?H) L" "distinct L" "first H = hd_or L None" using assms(1) dseg_nseg by (auto simp: linked_def)
    with relink_ok [OF _ e(2,1), of L "count H"] assms(3) obtain H' L' where
      r: "relink_loop (count H) (htsize ?H) (hd_or L None) ?H = Some H'" "linked H' L'" "buckets H' L'" "set L' = set L"
        "same_contents H' ?H" "\<forall>x. x \<notin> set L \<longrightarrow> elems H' x = elems ?H x" by auto
    have "rehash msize H n w = Some (True, H', w')"
      using r(1) False m \<open>first H = hd_or L None\<close> unfolding rehash by (simp add: Let_def)
    moreover have "ht H' \<noteq> None" using buckets_ht [OF r(3)] r(5) \<open>0 < ?n\<close> by (simp add: same_contents_def)
    ultimately show ?thesis using r sqlite3Malloc_later [OF m]
      by (intro exI [of _ True] exI [of _ H'] exI [of _ w'] exI [of _ L']) (simp add: same_contents_def)
  qed
qed

end
