(* ===== verification/Hashtab_Properties.thy ===== *)
theory Hashtab_Properties
  imports Hashtab_Shape Bitvec_Properties
begin

text \<open>
  The hash table implements a finite map with case-insensitive keys: looking up, inserting, replacing and
  removing against the map it stands for, also when memory runs out.
\<close>

section \<open>Looking up\<close>

abbreviation lower :: "bytes \<Rightarrow> bytes" where
  "lower k \<equiv> map UpperToLower k"

text \<open>Keys that differ only in case have the same hash.\<close>

lemma strHash_lower: "lower k = lower k' \<Longrightarrow> strHash k = strHash k'"
proof -
  have "strHash_loop h k = strHash_loop h k'" if "lower k = lower k'" for h
    using that
  proof (induction k arbitrary: k' h)
    case (Cons c k)
    then obtain c' r where k': "k' = c' # r" "UpperToLower c' = UpperToLower c" "lower k = lower r" by (cases k') auto
    moreover have "c = 0 \<longleftrightarrow> c' = 0" using k'(2) by (metis UpperToLower_0_iff)
    ultimately show ?case using Cons.IH [OF k'(3)] by simp
  qed simp
  then show "lower k = lower k' \<Longrightarrow> strHash k = strHash k'" by (simp add: strHash_def)
qed

definition key_is :: "'d Hash \<Rightarrow> bytes \<Rightarrow> addr \<Rightarrow> bool" where
  "key_is H k a \<longleftrightarrow> lower (he_pKey (the (elems H a))) = lower k"

lemma find_loop_seg:
  assumes "dseg (elems H) p xs q" "nul_free k" "\<forall>e \<in> ran (elems H). nul_free (he_pKey e)"
  shows "find_loop (length xs) (hd_or xs r) k H = Some (List.find (key_is H k) xs)"
  using assms(1)
proof (induction xs arbitrary: p r)
  case (Cons x xs)
  then obtain e where e: "elems H x = Some e" "he_next e = hd_or xs q" "dseg (elems H) (Some x) xs q" by auto
  have "nul_free (he_pKey e)" using assms(3) e(1) by (auto simp: ran_def)
  then have "sqlite3StrICmp (he_pKey e) k = 0 \<longleftrightarrow> key_is H k x"
    using assms(2) e(1) by (simp add: sqlite3StrICmp_eq_0 key_is_def)
  then show ?case using Cons.IH [OF e(3)] e(1,2) by simp
qed simp

lemma find_filter: "(\<And>a. a \<in> set L \<Longrightarrow> P a \<Longrightarrow> Q a) \<Longrightarrow> List.find P (filter Q L) = List.find P L"
  by (induction L) auto

text \<open>What the elements hold: data, strings, and no two with the same key.\<close>

definition contents_ok :: "(addr \<rightharpoonup> 'd option \<times> bytes) \<Rightarrow> bool" where
  "contents_ok C \<longleftrightarrow>
     (\<forall>a d k. C a = Some (d, k) \<longrightarrow> d \<noteq> None \<and> nul_free k)
     \<and> (\<forall>a b d d' k k'. C a = Some (d, k) \<longrightarrow> C b = Some (d', k') \<longrightarrow> lower k = lower k' \<longrightarrow> a = b)"

definition hash_wf :: "'d Hash \<Rightarrow> addr list \<Rightarrow> bool" where
  "hash_wf H L \<longleftrightarrow> linked H L \<and> buckets H L \<and> dom (elems H) = set L \<and> count H = length L \<and> contents_ok (contents (elems H))"

definition hash_index :: "'d Hash \<Rightarrow> bytes \<Rightarrow> nat" where
  "hash_index H k = (if ht H = None then 0 else bucket_of k (htsize H))"

lemma contents_Some: "contents m a = Some (d, k) \<longleftrightarrow> (\<exists>e. m a = Some e \<and> he_data e = d \<and> he_pKey e = k)"
  by (auto simp: contents_def)

lemma find_ok:
  assumes "hash_wf H L" "nul_free k"
  shows "findElementWithHash H k = Some (List.find (key_is H k) L, hash_index H k)"
proof -
  have l: "dseg (elems H) None L None" "first H = hd_or L None" "count H = length L" "buckets H L"
    using assms(1) by (auto simp: hash_wf_def linked_def)
  have nul: "\<forall>e \<in> ran (elems H). nul_free (he_pKey e)"
    using assms(1) by (fastforce simp: hash_wf_def contents_ok_def contents_Some ran_def)
  show ?thesis
  proof (cases "ht H")
    case None
    then show ?thesis using find_loop_seg [OF l(1) assms(2) nul] l by (simp add: findElementWithHash_def hash_index_def)
  next
    case (Some bs)
    let ?h = "bucket_of k (htsize H)"
    let ?xs = "in_bucket H L ?h"
    have b: "?h < length bs" "grouped (slot H) L" "bucket_ok (bs ! ?h) ?xs"
      using l(4) Some by (simp_all add: buckets_def)
    have "slot H a = ?h" if "key_is H k a" for a
      using that strHash_lower [of "he_pKey (the (elems H a))" k] by (simp add: key_is_def slot_def bucket_of_def)
    then have same: "List.find (key_is H k) ?xs = List.find (key_is H k) L"
      using find_filter [of L "key_is H k" "\<lambda>a. slot H a = ?h"] by (simp add: in_bucket_def)
    obtain p q where "dseg (elems H) p ?xs q"
    proof (cases "?xs = []")
      case False
      then obtain A B where "L = A @ ?xs @ B" using grouped_split [OF b(2)] unfolding in_bucket_def by metis
      then have "dseg (elems H) None (A @ ?xs @ B) None" using l(1) by simp
      then show ?thesis using that by (auto simp only: dseg_append)
    qed (simp add: that)
    from find_loop_seg [OF this assms(2) nul, of "snd (bs ! ?h)"]
    have "find_loop (fst (bs ! ?h)) (snd (bs ! ?h)) k H = Some (List.find (key_is H k) ?xs)"
      using b(3) by (cases ?xs) (simp_all add: bucket_ok_def)
    then show ?thesis using Some b(1) same by (simp add: findElementWithHash_def hash_index_def Let_def case_prod_beta)
  qed
qed

section \<open>Removing\<close>

lemma sqlite3HashClear_empty: "first H = None \<Longrightarrow> sqlite3HashClear H = Some (H\<lparr>first := None, ht := None, htsize := 0, count := 0\<rparr>)"
  by (simp add: sqlite3HashClear_def)

lemma unlink_dom: "dseg m p (A @ a # B) q \<Longrightarrow> dom (unlink m (last_or A None) (hd_or B None)) = dom m"
proof -
  assume "dseg m p (A @ a # B) q"
  from contents_unlink [OF this] have "dom (contents (unlink m (last_or A None) (hd_or B None))) = dom (contents m)" by simp
  then show ?thesis by (simp add: contents_def dom_def)
qed

lemma grouped_drop: "grouped f (A @ B) \<Longrightarrow> grouped f B"
  by (induction A) auto

definition unlinked :: "'d Hash \<Rightarrow> addr list \<Rightarrow> addr \<Rightarrow> addr list \<Rightarrow> 'd Hash" where
  "unlinked H A a B =
     H\<lparr>first := hd_or A (hd_or B None), count := count H - 1,
       elems := (unlink (elems H) (last_or A None) (hd_or B None))(a := None),
       ht := map_option (\<lambda>bs. bs[slot H a := (fst (bs ! slot H a) - 1,
               if snd (bs ! slot H a) = Some a then hd_or B None else snd (bs ! slot H a))]) (ht H)\<rparr>"

lemma remove_unlinked:
  assumes "linked H (A @ a # B)" "buckets H (A @ a # B)" "h = (if ht H = None then 0 else slot H a)"
  shows "removeElementGivenHash H a h =
     (let H' = unlinked H A a B in if count H' = 0 then sqlite3HashClear H' else Some H')"
proof -
  obtain e where e: "elems H a = Some e" "he_prev e = last_or A None" "he_next e = hd_or B None"
    using assms(1) by (auto simp: linked_def dseg_append)
  have ht: "slot H a < length bs" if "ht H = Some bs" for bs using assms(2) that by (simp add: buckets_def slot_def)
  have eq: "H\<lparr>first := f, elems := m\<rparr> = H\<lparr>elems := m\<rparr>" if "first H = f" for f m using that by (cases H) simp
  let ?H1 = "H\<lparr>first := hd_or A (hd_or B None), elems := set_next (elems H) (last_or A None) (hd_or B None)\<rparr>"
  let ?H2 = "?H1\<lparr>elems := unlink (elems H) (last_or A None) (hd_or B None)\<rparr>"
  have 1: "(case he_prev e of Some z \<Rightarrow> do { ze \<leftarrow> elems H z; Some (put_elem z (ze\<lparr>he_next := he_next e\<rparr>) H) }
      | None \<Rightarrow> Some (H\<lparr>first := he_next e\<rparr>)) = Some ?H1"
  proof (cases A rule: rev_cases)
    case (snoc A' z)
    then obtain ze where ze: "elems H z = Some ze" using assms(1) by (auto simp: linked_def dseg_append)
    have "first H = hd_or A (hd_or B None)" using assms(1) snoc by (cases A') (simp_all add: linked_def)
    from eq [OF this] show ?thesis using ze e snoc by (simp add: put_elem_def set_next_def)
  qed (use e in \<open>simp add: set_next_def\<close>)
  have 2: "(case he_next e of Some y \<Rightarrow> do { ye \<leftarrow> elems ?H1 y; Some (put_elem y (ye\<lparr>he_prev := he_prev e\<rparr>) ?H1) }
      | None \<Rightarrow> Some ?H1) = Some ?H2"
  proof (cases B)
    case (Cons y B')
    then obtain ye where "elems H y = Some ye" "last_or A None \<noteq> Some y"
      using assms(1) by (cases A rule: rev_cases) (auto simp: linked_def dseg_append)
    then show ?thesis using e Cons by (auto simp: put_elem_def unlink_def set_next_def set_prev_def split: option.splits)
  qed (use e in \<open>simp add: unlink_def set_prev_def\<close>)
  show ?thesis
    unfolding removeElementGivenHash_def e(1) bind_eq_Some_conv option.simps bind.bind_lunit 1 2
    using ht assms(3) e(3) by (cases H; cases "ht H") (simp_all add: unlinked_def Let_def case_prod_beta)
qed

lemma contents_ok_remove: "contents_ok C \<Longrightarrow> contents_ok (C(a := None))"
  unfolding contents_ok_def by (auto split: if_splits)

lemma contents_remove: "contents (m(a := None)) = (contents m)(a := None)"
  by (simp add: contents_def fun_eq_iff)

lemma unlinked_contents:
  "linked H (A @ a # B) \<Longrightarrow> contents (elems (unlinked H A a B)) = (contents (elems H))(a := None)"
  using contents_unlink [of "elems H" None A a B None] by (simp add: unlinked_def linked_def contents_remove)

lemma unlinked_slot:
  assumes "linked H (A @ a # B)" "x \<in> set (A @ B)"
  shows "slot (unlinked H A a B) x = slot H x"
proof -
  have "x \<noteq> a" using assms by (auto simp: linked_def)
  then have "contents (elems (unlinked H A a B)) x = contents (elems H) x" using unlinked_contents [OF assms(1)] by simp
  then have "he_pKey (the (elems (unlinked H A a B) x)) = he_pKey (the (elems H x))"
    by (cases "elems H x"; cases "elems (unlinked H A a B) x") (simp_all add: contents_def)
  then show ?thesis by (simp add: slot_def unlinked_def)
qed

lemma unlinked_buckets:
  assumes "linked H (A @ a # B)" "buckets H (A @ a # B)"
  shows "buckets (unlinked H A a B) (A @ B)"
proof (cases "ht H")
  case None
  then show ?thesis using assms(2) by (simp add: buckets_def unlinked_def)
next
  case (Some bs)
  let ?U = "unlinked H A a B" and ?h = "slot H a"
  let ?p = "(fst (bs ! ?h) - 1, if snd (bs ! ?h) = Some a then hd_or B None else snd (bs ! ?h))"
  have U: "ht ?U = Some (bs[?h := ?p])" "htsize ?U = htsize H" using Some by (simp_all add: unlinked_def)
  have b: "length bs = htsize H" "0 < htsize H" "grouped (slot H) (A @ a # B)" "?h < length bs"
    "\<forall>b < htsize H. bucket_ok (bs ! b) (in_bucket H (A @ a # B) b)"
    using assms(2) Some by (simp_all add: buckets_def slot_def)
  have in_U: "in_bucket ?U (A @ B) c = in_bucket H A c @ in_bucket H B c" for c
    using unlinked_slot [OF assms(1)] by (auto simp: in_bucket_def intro!: filter_cong arg_cong2 [of _ _ _ _ "(@)"])
  have "grouped (slot ?U) (A @ B)"
    using grouped_remove [OF b(3)] grouped_cong [of "A @ B" "slot ?U" "slot H"] unlinked_slot [OF assms(1)] by blast
  moreover have "bucket_ok (bs[?h := ?p] ! c) (in_bucket ?U (A @ B) c)" if c: "c < htsize H" for c
  proof (cases "c = ?h")
    case True
    let ?A = "in_bucket H A ?h" and ?B = "in_bucket H B ?h"
    have ok: "bucket_ok (bs ! ?h) (?A @ a # ?B)" using b(1,4,5) by (auto simp: in_bucket_def)
    have "hd_or B None = Some (hd ?B)" if "?B \<noteq> []"
    proof -
      have "?h \<in> slot H ` set B" using that by (auto simp: in_bucket_def filter_empty_conv image_iff intro: sym)
      moreover have "grouped (slot H) (a # B)" by (rule grouped_drop [OF b(3)])
      ultimately have "slot H (hd B) = ?h" "B \<noteq> []" by auto
      then show ?thesis by (cases B) (simp_all add: in_bucket_def)
    qed
    moreover have "?A \<noteq> [] \<Longrightarrow> hd ?A \<noteq> a"
      using assms(1) hd_in_set [of ?A] by (auto simp: linked_def in_bucket_def)
    ultimately have "bucket_ok ?p (?A @ ?B)" using ok by (cases "?A = []") (auto simp: bucket_ok_def)
    then show ?thesis using True b(4) in_U [of ?h] by simp
  next
    case False
    then have "in_bucket H A c @ in_bucket H B c = in_bucket H (A @ a # B) c" by (simp add: in_bucket_def)
    then show ?thesis using False b(5) c in_U [of c] by simp
  qed
  ultimately show ?thesis using U b(1,2) by (simp add: buckets_def)
qed

lemma unlinked_wf:
  assumes "hash_wf H (A @ a # B)"
  shows "hash_wf (unlinked H A a B) (A @ B)"
proof -
  have l: "linked H (A @ a # B)" "buckets H (A @ a # B)" "dom (elems H) = set (A @ a # B)" "count H = length (A @ a # B)"
    using assms by (simp_all add: hash_wf_def)
  have "dseg (elems (unlinked H A a B)) None (A @ B) None"
    using dseg_unlink [of "elems H" A a B] l(1) by (auto simp: linked_def unlinked_def)
  then have "linked (unlinked H A a B) (A @ B)" using l(1) by (auto simp: linked_def unlinked_def)
  moreover have "dom (elems (unlinked H A a B)) = set (A @ B)"
    using unlink_dom [of "elems H" None A a B None] l(1,3) by (auto simp: linked_def unlinked_def)
  moreover have "count (unlinked H A a B) = length (A @ B)" using l(4) by (simp add: unlinked_def)
  ultimately show ?thesis
    using unlinked_buckets [OF l(1,2)] unlinked_contents [OF l(1)] assms
    by (simp add: hash_wf_def contents_ok_remove)
qed

lemma remove_ok:
  assumes "hash_wf H L" "a \<in> set L" "h = (if ht H = None then 0 else slot H a)"
  shows "\<exists>H' L'. removeElementGivenHash H a h = Some H' \<and> hash_wf H' L'
     \<and> contents (elems H') = (contents (elems H))(a := None)"
proof -
  obtain A B where L: "L = A @ a # B" using assms(2) by (auto simp: in_set_conv_decomp)
  let ?U = "unlinked H A a B"
  have wf: "hash_wf ?U (A @ B)" using unlinked_wf assms(1) L by blast
  have l: "linked H (A @ a # B)" "buckets H (A @ a # B)" using assms(1) L by (simp_all add: hash_wf_def)
  note r = remove_unlinked [OF l assms(3)]
  show ?thesis
  proof (cases "count ?U = 0")
    case True
    then have "A @ B = []" using wf by (simp add: hash_wf_def)
    then have "sqlite3HashClear ?U = Some (?U\<lparr>first := None, ht := None, htsize := 0, count := 0\<rparr>)"
      by (intro sqlite3HashClear_empty) (simp add: unlinked_def)
    moreover have "hash_wf (V\<lparr>first := None, ht := None, htsize := 0, count := 0\<rparr>) []" if "hash_wf V []" for V :: "'a Hash"
      using that by (auto simp: hash_wf_def linked_def buckets_def)
    then have "hash_wf (?U\<lparr>first := None, ht := None, htsize := 0, count := 0\<rparr>) []" using wf \<open>A @ B = []\<close> by metis
    ultimately show ?thesis using r True unlinked_contents [OF l(1)] by (auto simp: Let_def)
  next
    case False
    then show ?thesis using r wf unlinked_contents [OF l(1)] by (auto simp: Let_def)
  qed
qed

section \<open>Inserting\<close>

text \<open>The map a store stands for; keys are compared without regard to case.\<close>

definition stands_for :: "(addr \<rightharpoonup> 'd option \<times> bytes) \<Rightarrow> (bytes \<rightharpoonup> 'd) \<Rightarrow> bool" where
  "stands_for C M \<longleftrightarrow> (\<forall>k d. M k = Some d \<longleftrightarrow> (\<exists>a key. C a = Some (Some d, key) \<and> lower key = k))"

lemma contents_okD:
  "contents_ok C \<Longrightarrow> C a = Some (d, k) \<Longrightarrow> d \<noteq> None \<and> nul_free k"
  "contents_ok C \<Longrightarrow> C a = Some (d, k) \<Longrightarrow> C b = Some (d', k') \<Longrightarrow> lower k = lower k' \<Longrightarrow> a = b"
  unfolding contents_ok_def by blast+

lemma stands_for_remove:
  assumes "stands_for C M" "contents_ok C" "C a = Some (d, key)"
  shows "stands_for (C(a := None)) (M(lower key := None))"
  unfolding stands_for_def
proof (intro allI)
  fix k d'
  have "(M(lower key := None)) k = Some d' \<longleftrightarrow> k \<noteq> lower key \<and> (\<exists>b k'. C b = Some (Some d', k') \<and> lower k' = k)"
    using assms(1) by (simp add: stands_for_def)
  also have "\<dots> \<longleftrightarrow> (\<exists>b k'. b \<noteq> a \<and> C b = Some (Some d', k') \<and> lower k' = k)"
  proof -
    have "b \<noteq> a \<longleftrightarrow> lower k' \<noteq> lower key" if "C b = Some (d'', k')" for b d'' k'
      using contents_okD(2) [OF assms(2) that assms(3)] that assms(3) by auto
    then show ?thesis by blast
  qed
  also have "\<dots> \<longleftrightarrow> (\<exists>b k'. (C(a := None)) b = Some (Some d', k') \<and> lower k' = k)" by auto
  finally show "((M(lower key := None)) k = Some d') = (\<exists>b k'. (C(a := None)) b = Some (Some d', k') \<and> lower k' = k)" .
qed

lemma stands_for_absent: "stands_for C M \<Longrightarrow> contents_ok C \<Longrightarrow> M k = None \<longleftrightarrow> (\<forall>a d key. C a = Some (d, key) \<longrightarrow> lower key \<noteq> k)"
  unfolding stands_for_def contents_ok_def by (metis not_None_eq option.distinct(1))

lemma stands_for_put:
  assumes "stands_for C M" "contents_ok C" "nul_free key"
    and "\<And>b d' k'. C b = Some (d', k') \<Longrightarrow> lower k' = lower key \<Longrightarrow> b = a"
    and "C a = None \<or> (\<exists>d' k'. C a = Some (d', k') \<and> lower k' = lower key)"
  shows "stands_for (C(a \<mapsto> (Some d, key))) (M(lower key \<mapsto> d))" "contents_ok (C(a \<mapsto> (Some d, key)))"
proof -
  have C: "C b = Some (d', k') \<Longrightarrow> d' \<noteq> None \<and> nul_free k'" for b d' k' using assms(2) by (auto simp: contents_ok_def)
  show "stands_for (C(a \<mapsto> (Some d, key))) (M(lower key \<mapsto> d))"
    unfolding stands_for_def
  proof (intro allI)
    fix k d'
    show "((M(lower key \<mapsto> d)) k = Some d') = (\<exists>b k'. (C(a \<mapsto> (Some d, key))) b = Some (Some d', k') \<and> lower k' = k)"
    proof (cases "k = lower key")
      case True
      then show ?thesis using assms(4) by (auto split: if_splits)
    next
      case False
      then have "(M(lower key \<mapsto> d)) k = Some d' \<longleftrightarrow> (\<exists>b k'. C b = Some (Some d', k') \<and> lower k' = k)"
        using assms(1) by (simp add: stands_for_def)
      also have "\<dots> \<longleftrightarrow> (\<exists>b k'. b \<noteq> a \<and> C b = Some (Some d', k') \<and> lower k' = k)"
      proof -
        have "b \<noteq> a" if "C b = Some (x, k')" "lower k' \<noteq> lower key" for b x k' using assms(5) that by auto
        then show ?thesis using False by blast
      qed
      also have "\<dots> \<longleftrightarrow> (\<exists>b k'. (C(a \<mapsto> (Some d, key))) b = Some (Some d', k') \<and> lower k' = k)"
      proof -
        have "(C(a \<mapsto> (Some d, key))) b = Some (Some d', k') \<and> lower k' = k \<longleftrightarrow> b \<noteq> a \<and> C b = Some (Some d', k') \<and> lower k' = k"
          for b k' using False by (cases "b = a") auto
        then show ?thesis by simp
      qed
      finally show ?thesis .
    qed
  qed
  show "contents_ok (C(a \<mapsto> (Some d, key)))"
    using assms(2-4) unfolding contents_ok_def by (auto split: if_splits dest: sym)
qed

definition hash_rep :: "'d Hash \<Rightarrow> 'e world \<Rightarrow> (bytes \<rightharpoonup> 'd) \<Rightarrow> bool" where
  "hash_rep H w M \<longleftrightarrow> (\<exists>L. hash_wf H L) \<and> dom (elems H) \<subseteq> {..<w_nalloc w} \<and> stands_for (contents (elems H)) M"

lemma dom_contents [simp]: "dom (contents m) = dom m"
  by (auto simp: contents_def)

text \<open>The element a lookup returns.\<close>

lemma find_found:
  assumes "hash_wf H L" "nul_free k" "stands_for (contents (elems H)) M"
  shows "(\<exists>a d key. List.find (key_is H k) L = Some a \<and> contents (elems H) a = Some (Some d, key) \<and> lower key = lower k \<and> M (lower k) = Some d)
     \<or> List.find (key_is H k) L = None \<and> M (lower k) = None"
proof (cases "List.find (key_is H k) L")
  case None
  have "lower key \<noteq> lower k" if "contents (elems H) a = Some (d, key)" for a d key
  proof -
    have "a \<in> set L" using assms(1) that by (metis domI dom_contents hash_wf_def)
    then have "\<not> key_is H k a" using None by (simp add: find_None_iff)
    then show ?thesis using that by (auto simp: key_is_def contents_Some)
  qed
  then show ?thesis using None stands_for_absent [OF assms(3)] assms(1) by (simp add: hash_wf_def)
next
  case (Some a)
  then have a: "a \<in> set L" "key_is H k a" by (auto simp: find_Some_iff)
  then obtain e where e: "elems H a = Some e" using assms(1) by (auto simp: hash_wf_def)
  then have "contents (elems H) a = Some (he_data e, he_pKey e)" by (simp add: contents_def)
  moreover from this obtain d where "he_data e = Some d" using assms(1) contents_okD(1) by (fastforce simp: hash_wf_def)
  moreover have "lower (he_pKey e) = lower k" using a(2) e by (simp add: key_is_def)
  ultimately show ?thesis using Some assms(3) by (auto simp: stands_for_def)
qed

lemma hash_find_ok:
  assumes "hash_rep H w M" "nul_free k"
  shows "sqlite3HashFind H k = Some (M (lower k))"
proof -
  obtain L where L: "hash_wf H L" "stands_for (contents (elems H)) M" using assms(1) by (auto simp: hash_rep_def)
  from find_found [OF L(1) assms(2) L(2)] find_ok [OF L(1) assms(2)] show ?thesis
    by (auto simp: sqlite3HashFind_def contents_Some)
qed

lemma put_elem_fields [simp]:
  "ht (put_elem a e H) = ht H" "htsize (put_elem a e H) = htsize H" "count (put_elem a e H) = count H" "first (put_elem a e H) = first H"
  by (simp_all add: put_elem_def)

text \<open>A new element: put into the store, the table resized if it is too small, and linked in.\<close>

lemma put_new:
  assumes "hash_wf H L" "a \<notin> dom (elems H)"
  shows "linked ((put_elem a e H)\<lparr>count := n\<rparr>) L" "buckets ((put_elem a e H)\<lparr>count := n\<rparr>) L"
proof -
  let ?H = "(put_elem a e H)\<lparr>count := n\<rparr>"
  have a: "a \<notin> set L" using assms by (simp add: hash_wf_def)
  then show "linked ?H L" using assms(1) by (simp add: hash_wf_def linked_def put_elem_def)
  have slots: "slot ?H x = slot H x" if "x \<in> set L" for x using a that by (auto simp: slot_def put_elem_def)
  show "buckets ?H L" using assms(1) slots by (intro buckets_cong [of ?H H L]) (simp_all add: hash_wf_def)
qed

lemma grow_ok:
  assumes "linked H L" "buckets H L" "length L \<le> count H" "0 < n" "msize_ok msize"
  shows "\<exists>moved H' w' L'. (if big then rehash msize H n w else Some (False, H, w)) = Some (moved, H', w')
     \<and> linked H' L' \<and> buckets H' L' \<and> set L' = set L
     \<and> contents (elems H') = contents (elems H) \<and> count H' = count H \<and> (\<not> moved \<longrightarrow> H' = H)
     \<and> (moved \<longrightarrow> ht H' \<noteq> None) \<and> (\<forall>x. x \<notin> set L \<longrightarrow> elems H' x = elems H x) \<and> later w w'"
proof (cases big)
  case True
  then show ?thesis using rehash_ok [OF assms, of w] by simp
next
  case False
  then show ?thesis using assms(1,2) by (intro exI [of _ False] exI [of _ H] exI [of _ w] exI [of _ L]) simp
qed

lemma insert_new_ok:
  fixes H :: "'d Hash" and w :: "'e world"
  assumes "hash_wf H L" "a \<notin> dom (elems H)" "contents_ok ((contents (elems H))(a \<mapsto> (data, k)))" "msize_ok msize"
  defines "H1 \<equiv> (put_elem a \<lparr> he_next = None, he_prev = None, he_data = data, he_pKey = k \<rparr> H)\<lparr>count := Suc (count H)\<rparr>"
  shows "\<exists>H' L' w'.
     do { (moved, H2, w) \<leftarrow> (if count H1 \<ge> 10 \<and> count H1 > 2 * htsize H1 then rehash msize H1 (count H1 * 2) w else Some (False, H1, w));
          let h = (if moved then bucket_of k (htsize H2) else hash_index H k);
          H3 \<leftarrow> insertElement H2 (if ht H2 \<noteq> None then Some h else None) a;
          Some (None :: 'd option, H3, w) } = Some (None, H', w')
     \<and> hash_wf H' L' \<and> contents (elems H') = (contents (elems H))(a \<mapsto> (data, k)) \<and> later w w'"
proof -
  have a: "a \<notin> set L" using assms(1,2) by (simp add: hash_wf_def)
  have H1: "linked H1 L" "buckets H1 L" using put_new [OF assms(1,2)] by (simp_all add: H1_def)
  have "length L \<le> count H1" "0 < count H1 * 2" using assms(1) by (simp_all add: H1_def hash_wf_def)
  with grow_ok [OF H1 _ _ assms(4), where big = "count H1 \<ge> 10 \<and> count H1 > 2 * htsize H1" and n = "count H1 * 2" and w = w]
  obtain moved H2 w' L2 where
    2: "(if count H1 \<ge> 10 \<and> count H1 > 2 * htsize H1 then rehash msize H1 (count H1 * 2) w else Some (False, H1, w))
        = Some (moved, H2, w')"
      "linked H2 L2" "buckets H2 L2" "set L2 = set L" "contents (elems H2) = contents (elems H1)" "count H2 = count H1"
      "\<not> moved \<longrightarrow> H2 = H1" "moved \<longrightarrow> ht H2 \<noteq> None" "\<forall>x. x \<notin> set L \<longrightarrow> elems H2 x = elems H1 x" "later w w'"
    by blast
  have e: "elems H2 a = Some \<lparr> he_next = None, he_prev = None, he_data = data, he_pKey = k \<rparr>"
    using 2(9) a by (simp add: H1_def put_elem_def)
  have "ht H1 = ht H" "htsize H1 = htsize H" by (simp_all add: H1_def put_elem_def)
  then have h: "(if moved then bucket_of k (htsize H2) else hash_index H k) = slot H2 a" if "ht H2 \<noteq> None"
    using e 2(7) that by (cases moved) (auto simp: slot_def hash_index_def)
  from insertElement_ok [OF 2(2,3) _ e] a 2(4) obtain H3 L3 where
    3: "insertElement H2 (if ht H2 \<noteq> None then Some (slot H2 a) else None) a = Some H3" "linked H3 L3" "buckets H3 L3"
      "set L3 = insert a (set L)" "same_contents H3 H2" by auto
  have C: "contents (elems H3) = (contents (elems H))(a \<mapsto> (data, k))"
    using 3(5) 2(5) by (simp add: same_contents_def H1_def put_elem_def contents_upd)
  have "dom (elems H3) = set L3"
    using arg_cong [OF C, of dom] assms(1) 3(4) by (simp add: hash_wf_def)
  moreover have "count H3 = length L3"
    using 3(2,4,5) 2(6) a assms(1) distinct_card [of L3] distinct_card [of L]
    by (simp add: same_contents_def hash_wf_def linked_def H1_def)
  ultimately have "hash_wf H3 L3" using 3(2,3) C assms(3) by (simp add: hash_wf_def)
  moreover have "insertElement H2 (if ht H2 \<noteq> None then Some (if moved then bucket_of k (htsize H2) else hash_index H k) else None) a = Some H3"
    using 3(1) h by (cases "ht H2 = None") simp_all
  ultimately show ?thesis using 2(1,10) C
    by (intro exI [of _ H3] exI [of _ L3] exI [of _ w']) (simp add: Let_def)
qed

lemma sqlite3Malloc_32: "sqlite3Malloc 32 w = (ok, w') \<Longrightarrow> ok = w_alloc_ok w (w_nalloc w) \<and> w_nalloc w' = Suc (w_nalloc w)"
  by (auto simp: sqlite3Malloc_def sqlcipher_mem_malloc_def)

lemma replace_wf:
  assumes "hash_wf H L" "elems H a = Some e" "lower k = lower (he_pKey e)" "contents_ok ((contents (elems H))(a \<mapsto> (d, k)))"
  shows "hash_wf (put_elem a (e\<lparr>he_data := d, he_pKey := k\<rparr>) H) L"
proof -
  let ?H = "put_elem a (e\<lparr>he_data := d, he_pKey := k\<rparr>) H"
  have "slot ?H x = slot H x" for x
    using assms(2) strHash_lower [OF assms(3)] by (simp add: slot_def put_elem_def bucket_of_def)
  then have "buckets ?H L" using assms(1) by (intro buckets_cong [of ?H H L]) (simp_all add: hash_wf_def)
  moreover have "linked ?H L"
    using assms(1,2) dseg_cong [of "elems H" None L None "elems ?H"] by (fastforce simp: hash_wf_def linked_def put_elem_def)
  moreover have "dom (elems ?H) = dom (elems H)" using assms(2) by (auto simp: put_elem_def)
  ultimately show ?thesis using assms(1,4) by (simp add: hash_wf_def put_elem_def contents_upd)
qed

text \<open>A key that is there: its element is removed or gets the new data.\<close>

lemma insert_found:
  assumes "hash_rep H w M" "nul_free k" "M (lower k) \<noteq> None"
  shows "\<exists>H'. sqlite3HashInsert msize H k data w = Some (M (lower k), H', w) \<and> hash_rep H' w (M(lower k := data))"
proof -
  obtain L where L: "hash_wf H L" and M: "stands_for (contents (elems H)) M" and D: "dom (elems H) \<subseteq> {..<w_nalloc w}"
    using assms(1) by (auto simp: hash_rep_def)
  have C: "contents_ok (contents (elems H))" using L by (simp add: hash_wf_def)
  note find = find_ok [OF L assms(2)]
  from find_found [OF L assms(2) M] assms(3) obtain a d key where
    f: "List.find (key_is H k) L = Some a" "contents (elems H) a = Some (Some d, key)" "lower key = lower k" "M (lower k) = Some d" by auto
  then obtain e where e: "elems H a = Some e" "he_data e = Some d" "he_pKey e = key" by (auto simp: contents_Some)
  have a: "a \<in> set L" using L e(1) by (auto simp: hash_wf_def)
  show ?thesis
  proof (cases data)
    case None
    have "hash_index H k = (if ht H = None then 0 else slot H a)"
      using e strHash_lower [OF f(3)] by (simp add: hash_index_def slot_def bucket_of_def)
    from remove_ok [OF L a this] obtain H' L' where
      r: "removeElementGivenHash H a (hash_index H k) = Some H'" "hash_wf H' L'" "contents (elems H') = (contents (elems H))(a := None)" by auto
    have "stands_for (contents (elems H')) (M(lower k := None))" using stands_for_remove [OF M C f(2)] r(3) f(3) by simp
    moreover have "dom (elems H') \<subseteq> dom (elems H)" using arg_cong [OF r(3), of dom] by auto
    ultimately have "hash_rep H' w (M(lower k := None))" using r(2) D by (auto simp: hash_rep_def)
    then show ?thesis using find f e r(1) None by (simp add: sqlite3HashInsert_def)
  next
    case (Some d')
    let ?H = "put_elem a (e\<lparr>he_data := data, he_pKey := k\<rparr>) H"
    note put = stands_for_put [OF M C assms(2), of a d']
    have new: "stands_for ((contents (elems H))(a \<mapsto> (Some d', k))) (M(lower k \<mapsto> d'))" "contents_ok ((contents (elems H))(a \<mapsto> (Some d', k)))"
      using put f(2,3) contents_okD(2) [OF C] by metis+
    have "hash_wf ?H L" using replace_wf [OF L e(1)] new(2) e(3) f(3) Some by simp
    then have "hash_rep ?H w (M(lower k := data))"
      using new(1) D e(1) Some unfolding hash_rep_def by (auto simp: put_elem_def contents_upd)
    then show ?thesis using find f e Some by (simp add: sqlite3HashInsert_def)
  qed
qed

text \<open>A key that is not there: a new element, if there is memory for one.\<close>

lemma insert_absent:
  assumes "hash_rep H w M" "nul_free k" "M (lower k) = None" "msize_ok msize"
  shows "if data = None then sqlite3HashInsert msize H k data w = Some (None, H, w)
     else if w_alloc_ok w (w_nalloc w)
     then \<exists>H' w'. sqlite3HashInsert msize H k data w = Some (None, H', w') \<and> hash_rep H' w' (M(lower k := data)) \<and> later w w'
     else \<exists>w'. sqlite3HashInsert msize H k data w = Some (data, H, w') \<and> hash_rep H w' M \<and> later w w'"
proof -
  obtain L where L: "hash_wf H L" and M: "stands_for (contents (elems H)) M" and D: "dom (elems H) \<subseteq> {..<w_nalloc w}"
    using assms(1) by (auto simp: hash_rep_def)
  have C: "contents_ok (contents (elems H))" using L by (simp add: hash_wf_def)
  note find = find_ok [OF L assms(2)]
  have f: "List.find (key_is H k) L = None" using find_found [OF L assms(2) M] assms(3) by auto
  obtain ok w1 where m: "sqlite3Malloc 32 w = (ok, w1)" by fastforce
  note m' = sqlite3Malloc_32 [OF m] sqlite3Malloc_later [OF m]
  show ?thesis
  proof (cases data)
    case None
    then show ?thesis using find f by (simp add: sqlite3HashInsert_def)
  next
    case (Some d)
    show ?thesis
    proof (cases ok)
      case False
      have "hash_rep H w1 M" using assms(1) m'(1) by (auto simp: hash_rep_def)
      then show ?thesis using find f m m' Some False by (simp add: sqlite3HashInsert_def)
    next
      case True
      let ?a = "w_nalloc w"
      have a: "?a \<notin> dom (elems H)" using D by auto
      then have Ca: "contents (elems H) ?a = None" by (metis dom_contents domIff)
      have "lower k' \<noteq> lower k" if "contents (elems H) b = Some (x, k')" for b x k'
        using stands_for_absent [OF M C] assms(3) that by metis
      then have new: "stands_for ((contents (elems H))(?a \<mapsto> (Some d, k))) (M(lower k \<mapsto> d))"
          "contents_ok ((contents (elems H))(?a \<mapsto> (Some d, k)))"
        using stands_for_put [OF M C assms(2), of ?a d] Ca by metis+
      from insert_new_ok [OF L a _ assms(4), of "Some d" k w1, OF new(2)] obtain H' L' w' where
        r: "sqlite3HashInsert msize H k data w = Some (None, H', w')" "hash_wf H' L'"
          "contents (elems H') = (contents (elems H))(?a \<mapsto> (Some d, k))" "later w1 w'"
        unfolding sqlite3HashInsert_def find f(1) Some
        by (simp only: m True Let_def option.simps prod.case bind.bind_lunit if_True bool.simps put_elem_fields(3)) blast
      have "dom (elems H') = insert ?a (dom (elems H))" using arg_cong [OF r(3), of dom] by simp
      then have "hash_rep H' w' (M(lower k := data))"
        using r(2,3,4) new(1) Some D m'(1) by (auto simp: hash_rep_def later_def)
      then show ?thesis using r(1,4) Some True m' later_trans by auto
    qed
  qed
qed

section \<open>Clearing\<close>

lemma clear_loop_ok:
  assumes "nseg (elems H) L" "distinct L" "length L \<le> fuel"
  shows "clear_loop fuel (hd_or L None) H = Some (H\<lparr>elems := elems H |` (- set L)\<rparr>)"
  using assms
proof (induction L arbitrary: H fuel)
  case (Cons a L)
  then obtain e n where e: "elems H a = Some e" "he_next e = hd_or L None" "nseg (elems H) L" and n: "fuel = Suc n" by (cases fuel) auto
  let ?H = "H\<lparr>elems := (elems H)(a := None)\<rparr>"
  have "elems ?H x = elems H x" if "x \<in> set L" for x using that Cons.prems(2) by auto
  then have s: "nseg (elems ?H) L" using e(3) nseg_cong [of L "elems ?H" "elems H"] by blast
  have "clear_loop n (hd_or L None) ?H = Some (?H\<lparr>elems := elems ?H |` (- set L)\<rparr>)"
    by (rule Cons.IH [OF s]) (use Cons.prems n in simp_all)
  moreover have "elems ?H |` (- set L) = elems H |` (- set (a # L))" by (auto simp: restrict_map_def)
  ultimately show ?case using e n by simp
qed (simp add: restrict_map_def)

text \<open>Clearing frees every element and leaves the table as \<open>sqlite3HashInit\<close> makes it.\<close>

lemma hash_clear_ok: "hash_rep H w M \<Longrightarrow> sqlite3HashClear H = Some sqlite3HashInit"
proof -
  assume "hash_rep H w M"
  then obtain L where L: "hash_wf H L" by (auto simp: hash_rep_def)
  then have l: "distinct L" "nseg (elems H) L" "first H = hd_or L None" "count H = length L" "dom (elems H) = set L"
    using dseg_nseg by (auto simp: hash_wf_def linked_def)
  have "elems H |` (- set L) = Map.empty" using l(5) by (auto simp: restrict_map_def fun_eq_iff)
  then have "clear_loop (count H) (first H) (H\<lparr>first := None, ht := None, htsize := 0\<rparr>)
      = Some (H\<lparr>first := None, ht := None, htsize := 0, elems := Map.empty\<rparr>)"
    using clear_loop_ok [of "H\<lparr>first := None, ht := None, htsize := 0\<rparr>" L "count H"] l by simp
  then show ?thesis by (cases H) (simp add: sqlite3HashClear_def sqlite3HashInit_def)
qed

lemma hash_init_ok: "hash_rep sqlite3HashInit w Map.empty"
  unfolding hash_rep_def
  by (intro conjI exI [of _ "[]"])
    (simp_all add: sqlite3HashInit_def hash_wf_def linked_def buckets_def contents_ok_def contents_def stands_for_def)

section \<open>The interface: a map with case-insensitive keys\<close>

datatype 'd map_op = Put bytes "'d option" | Clear

fun op_key_ok :: "'d map_op \<Rightarrow> bool" where
  "op_key_ok (Put k d) \<longleftrightarrow> nul_free k"
| "op_key_ok Clear \<longleftrightarrow> True"

text \<open>A sequence of operations with what each insertion returns; and what it does to a map.\<close>

fun run_map_ops ::
    "('s \<Rightarrow> bytes \<Rightarrow> 'd option \<Rightarrow> 'w \<Rightarrow> ('d option \<times> 's \<times> 'w) option) \<Rightarrow> ('s \<Rightarrow> 's option) \<Rightarrow>
     'd map_op list \<Rightarrow> 's \<Rightarrow> 'w \<Rightarrow> ('d option list \<times> 's \<times> 'w) option" where
  "run_map_ops ins clear [] s w = Some ([], s, w)"
| "run_map_ops ins clear (Put k d # ops) s w =
     do { (r, s, w) \<leftarrow> ins s k d w; (rs, s, w) \<leftarrow> run_map_ops ins clear ops s w; Some (r # rs, s, w) }"
| "run_map_ops ins clear (Clear # ops) s w = do { s \<leftarrow> clear s; run_map_ops ins clear ops s w }"

fun map_ops :: "'d map_op list \<Rightarrow> (bytes \<rightharpoonup> 'd) \<Rightarrow> 'd option list \<times> (bytes \<rightharpoonup> 'd)" where
  "map_ops [] M = ([], M)"
| "map_ops (Put k d # ops) M = (let (rs, M') = map_ops ops (M(lower k := d)) in (M (lower k) # rs, M'))"
| "map_ops (Clear # ops) M = map_ops ops Map.empty"

locale string_map =
  fixes rep :: "'s \<Rightarrow> 'w \<Rightarrow> (bytes \<rightharpoonup> 'd) \<Rightarrow> bool"
    and find :: "'s \<Rightarrow> bytes \<Rightarrow> 'd option option"
    and ins :: "'s \<Rightarrow> bytes \<Rightarrow> 'd option \<Rightarrow> 'w \<Rightarrow> ('d option \<times> 's \<times> 'w) option"
    and clear :: "'s \<Rightarrow> 's option"
    and healthy :: "'w \<Rightarrow> bool"
  assumes find_rep: "rep s w M \<Longrightarrow> nul_free k \<Longrightarrow> find s k = Some (M (lower k))"
    and ins_rep: "rep s w M \<Longrightarrow> nul_free k \<Longrightarrow> healthy w \<Longrightarrow>
      \<exists>s' w'. ins s k d w = Some (M (lower k), s', w') \<and> rep s' w' (M(lower k := d)) \<and> healthy w'"
    and clear_rep: "rep s w M \<Longrightarrow> \<exists>s'. clear s = Some s' \<and> rep s' w Map.empty"
begin

lemma run_map_ops_rep:
  assumes "rep s w M" "healthy w" "\<forall>x \<in> set ops. op_key_ok x"
  shows "\<exists>s' w'. run_map_ops ins clear ops s w = Some (fst (map_ops ops M), s', w') \<and> rep s' w' (snd (map_ops ops M))"
  using assms
proof (induction ops arbitrary: s w M)
  case (Cons x ops)
  show ?case
  proof (cases x)
    case (Put k d)
    with Cons.prems ins_rep [of s w M k d] obtain s1 w1 where
      1: "ins s k d w = Some (M (lower k), s1, w1)" "rep s1 w1 (M(lower k := d))" "healthy w1" by auto
    from Cons.IH [OF 1(2,3)] Cons.prems(3) 1(1) Put show ?thesis by (auto simp: case_prod_beta Let_def simp del: fun_upd_apply)
  next
    case Clear
    with Cons.prems clear_rep [of s w M] obtain s1 where "clear s = Some s1" "rep s1 w Map.empty" by auto
    with Cons.IH [of s1 w Map.empty] Cons.prems(2,3) Clear show ?thesis by auto
  qed
qed auto

end

text \<open>The hash table provides it, with an allocator that keeps its promise and does not fail.\<close>

definition table_rep :: "(int \<Rightarrow> nat) \<Rightarrow> 'd Hash \<Rightarrow> 'e world \<Rightarrow> (bytes \<rightharpoonup> 'd) \<Rightarrow> bool" where
  "table_rep msize H w M \<longleftrightarrow> msize_ok msize \<and> hash_rep H w M"

interpretation ht: string_map "table_rep msize" sqlite3HashFind "sqlite3HashInsert msize" sqlite3HashClear memory_lasts for msize
proof (unfold_locales, goal_cases)
  case (1 s w M k)
  then show ?case using hash_find_ok by (auto simp: table_rep_def)
next
  case (2 s w M k d)
  then have rep: "hash_rep s w M" and m: "msize_ok msize" by (simp_all add: table_rep_def)
  show ?case
  proof (cases "M (lower k) = None")
    case True
    have "M(lower k := None) = M" using True by auto
    then show ?thesis
      using insert_absent [OF rep 2(2) True m, of d] rep m 2(3) True
      by (cases d) (auto simp: table_rep_def memory_lasts_def later_def)
  next
    case False
    then show ?thesis using insert_found [OF rep 2(2) False, of msize d] m 2(3) by (auto simp: table_rep_def)
  qed
next
  case (3 s w M)
  then show ?case using hash_clear_ok hash_init_ok by (fastforce simp: table_rep_def)
qed

section \<open>Properties\<close>

text \<open>
  C28. The hash table is a map with case-insensitive keys: any sequence of insertions, replacements, removals
  and clearings on a new table returns from each call the value the key had before, and
  \<open>sqlite3HashFind\<close> then answers for every key what the map of the same operations has, whatever resizing,
  relinking and sharing of buckets went on in between.  No pointer is used that is null or freed and no
  loop runs on.  The allocator is only assumed to give at least the size it was asked for.
\<close>

theorem hash_refines_map:
  assumes "msize_ok msize" "memory_lasts w" "\<forall>x \<in> set ops. op_key_ok x"
  shows "\<exists>H w'. run_map_ops (sqlite3HashInsert msize) sqlite3HashClear ops sqlite3HashInit w = Some (fst (map_ops ops Map.empty), H, w')
     \<and> (\<forall>k. nul_free k \<longrightarrow> sqlite3HashFind H k = Some (snd (map_ops ops Map.empty) (map UpperToLower k)))"
proof -
  have "table_rep msize sqlite3HashInit w Map.empty" using assms(1) hash_init_ok by (simp add: table_rep_def)
  from ht.run_map_ops_rep [OF this assms(2,3)] show ?thesis using hash_find_ok unfolding table_rep_def by blast
qed

theorem hash_refines_map_witness:
  "\<exists>H w'. run_map_ops (sqlite3HashInsert nat) sqlite3HashClear
       [Put (cstr ''Users'') (Some (1 :: nat)), Put (cstr ''keys'') (Some 2), Put (cstr ''USERS'') (Some 3), Put (cstr ''keys'') None]
       sqlite3HashInit (initial_world (\<lambda>_. True) ()) = Some ([None, None, Some 1, Some 2], H, w')
     \<and> sqlite3HashFind H (cstr ''uSeRs'') = Some (Some 3) \<and> sqlite3HashFind H (cstr ''keys'') = Some None"
proof -
  let ?ops = "[Put (cstr ''Users'') (Some (1 :: nat)), Put (cstr ''keys'') (Some 2), Put (cstr ''USERS'') (Some 3), Put (cstr ''keys'') None]"
  have "msize_ok nat" "memory_lasts (initial_world (\<lambda>_. True) ())" "\<forall>x \<in> set ?ops. op_key_ok x"
    by (simp_all add: msize_ok_def memory_lasts_def initial_world_def cstr_def)
  from hash_refines_map [OF this] obtain H w' where
    r: "run_map_ops (sqlite3HashInsert nat) sqlite3HashClear ?ops sqlite3HashInit (initial_world (\<lambda>_. True) ()) = Some (fst (map_ops ?ops Map.empty), H, w')"
      "\<forall>k. nul_free k \<longrightarrow> sqlite3HashFind H k = Some (snd (map_ops ?ops Map.empty) (map UpperToLower k))" by auto
  have "fst (map_ops ?ops Map.empty) = [None, None, Some 1, Some 2]"
    "snd (map_ops ?ops Map.empty) (map UpperToLower (cstr ''uSeRs'')) = Some 3"
    "snd (map_ops ?ops Map.empty) (map UpperToLower (cstr ''keys'')) = None"
    by (simp_all add: cstr_def UpperToLower_eq)
  moreover have "nul_free (cstr ''uSeRs'')" "nul_free (cstr ''keys'')" by (simp_all add: cstr_def)
  ultimately show ?thesis using r by metis
qed

text \<open>
  C30. Running out of memory in \<open>sqlite3HashInsert\<close>: when the element cannot be allocated, the call returns the
  new data and the table is unchanged; when only the larger bucket array cannot be allocated, the
  insertion still takes place in the old one.  Removal and replacement never need memory.
\<close>

theorem hash_insert_failure:
  assumes "hash_rep H w M" "nul_free k" "msize_ok msize"
  shows "if data = None \<or> M (map UpperToLower k) \<noteq> None \<or> w_alloc_ok w (w_nalloc w)
     then \<exists>H' w'. sqlite3HashInsert msize H k data w = Some (M (map UpperToLower k), H', w')
            \<and> hash_rep H' w' (M(map UpperToLower k := data))
     else \<exists>w'. sqlite3HashInsert msize H k data w = Some (data, H, w')"
proof (cases "M (lower k) = None")
  case True
  have "M(lower k := None) = M" using True by auto
  then show ?thesis using insert_absent [OF assms(1,2) True assms(3), of data] assms(1) True by (auto split: if_splits)
next
  case False
  then show ?thesis using insert_found [OF assms(1,2) False, of msize data] by auto
qed

theorem hash_insert_failure_witness:
  "\<exists>w'. sqlite3HashInsert nat sqlite3HashInit (cstr ''t1'') (Some (7 :: nat)) (initial_world (\<lambda>_. False) ())
     = Some (Some 7, sqlite3HashInit, w')"
proof -
  have "nul_free (cstr ''t1'')" "msize_ok nat" by (simp_all add: cstr_def msize_ok_def)
  from hash_insert_failure [OF hash_init_ok this, of "Some (7 :: nat)" "initial_world (\<lambda>_. False) ()"] show ?thesis
    by (simp add: initial_world_def)
qed

end
