(* ===== verification/Rowset.thy ===== *)
theory Rowset
  imports Prelude "HOL-Library.Tree"
begin

text \<open>
  Sets of row numbers (\<^verbatim>\<open>rowset.c\<close>): a list in order of insertion, and a forest of search trees for the
  batches that are tested.  Every entry is reached by one pointer only, so a list of entries linked by \<open>pRight\<close> is
  the list of its values and a tree of entries is a tree of values; a null pointer is the empty list or the empty tree.
  \<open>None\<close> is the use of a null pointer or an index past the end of an array.  The connection's allocator is an
  argument: \<open>dbmalloc n w\<close> tells whether \<open>n\<close> bytes were given, \<open>dbsize\<close> is what \<open>sqlite3DbMallocSize\<close> answers.
\<close>

type_synonym 'w dbmalloc = "nat \<Rightarrow> 'w \<Rightarrow> bool \<times> 'w"

definition ROWSET_ENTRY_PER_CHUNK :: nat where
  "ROWSET_ENTRY_PER_CHUNK = (1024 - 8) div 24"

text \<open>\<open>pChunk\<close> counts the chunks on its list; \<open>pLast\<close> is the value of the last entry.\<close>

record RowSet =
  pChunk :: nat
  pEntry :: "int list"
  pLast :: "int option"
  pForest :: "int tree list"
  nFresh :: nat
  ROWSET_SORTED :: bool
  ROWSET_NEXT :: bool
  iBatch :: int

definition sqlite3RowSetInit :: "'w dbmalloc \<Rightarrow> nat \<Rightarrow> 'w \<Rightarrow> RowSet option \<times> 'w" where
  "sqlite3RowSetInit dbmalloc dbsize w =
     (case dbmalloc 56 w of
        (False, w) \<Rightarrow> (None, w)
      | (True, w) \<Rightarrow>
          (Some \<lparr> pChunk = 0, pEntry = [], pLast = None, pForest = [], nFresh = ((dbsize - 56) div 24) mod 2 ^ 16,
                  ROWSET_SORTED = True, ROWSET_NEXT = False, iBatch = 0 \<rparr>, w))"

definition sqlite3RowSetClear :: "RowSet \<Rightarrow> RowSet" where
  "sqlite3RowSetClear p =
     p\<lparr>pChunk := 0, nFresh := 0, pEntry := [], pLast := None, pForest := [], ROWSET_SORTED := True, ROWSET_NEXT := False\<rparr>"

definition rowSetEntryAlloc :: "'w dbmalloc \<Rightarrow> RowSet \<Rightarrow> 'w \<Rightarrow> bool \<times> RowSet \<times> 'w" where
  "rowSetEntryAlloc dbmalloc p w =
     (if nFresh p = 0 then
        (case dbmalloc (8 + 24 * ROWSET_ENTRY_PER_CHUNK) w of
           (False, w) \<Rightarrow> (False, p, w)
         | (True, w) \<Rightarrow> (True, p\<lparr>pChunk := Suc (pChunk p), nFresh := ROWSET_ENTRY_PER_CHUNK - 1\<rparr>, w))
      else (True, p\<lparr>nFresh := nFresh p - 1\<rparr>, w))"

definition sqlite3RowSetInsert :: "'w dbmalloc \<Rightarrow> RowSet \<Rightarrow> int \<Rightarrow> 'w \<Rightarrow> RowSet \<times> 'w" where
  "sqlite3RowSetInsert dbmalloc p rowid w =
     (case rowSetEntryAlloc dbmalloc p w of
        (False, p, w) \<Rightarrow> (p, w)
      | (True, p, w) \<Rightarrow>
          (let p = (case pLast p of
                      Some l \<Rightarrow> (let p = (if rowid \<le> l then p\<lparr>ROWSET_SORTED := False\<rparr> else p)
                                in p\<lparr>pEntry := pEntry p @ [rowid]\<rparr>)
                    | None \<Rightarrow> p\<lparr>pEntry := [rowid]\<rparr>)
           in (p\<lparr>pLast := Some rowid\<rparr>, w)))"

section \<open>Merging and sorting\<close>

fun rowSetEntryMerge :: "int list \<Rightarrow> int list \<Rightarrow> int list option" where
  "rowSetEntryMerge (a # A) (b # B) =
     (if a \<le> b then
        do { r \<leftarrow> (if A = [] then Some (b # B) else rowSetEntryMerge A (b # B));
             Some (if a < b then a # r else r) }
      else
        do { r \<leftarrow> (if B = [] then Some (a # A) else rowSetEntryMerge (a # A) B); Some (b # r) })"
| "rowSetEntryMerge _ _ = None"

text \<open>The inner loop of \<open>rowSetEntrySort\<close>, over the slots of \<open>aBucket\<close>; and the loop over the entries.\<close>

fun bucket_add :: "int list list \<Rightarrow> int list \<Rightarrow> int list list option" where
  "bucket_add [] pIn = None"
| "bucket_add (b # bs) pIn =
     (if b = [] then Some (pIn # bs)
      else do { pIn \<leftarrow> rowSetEntryMerge b pIn; bs \<leftarrow> bucket_add bs pIn; Some ([] # bs) })"

fun sort_loop :: "int list \<Rightarrow> int list list \<Rightarrow> int list list option" where
  "sort_loop [] aBucket = Some aBucket"
| "sort_loop (v # pNext) aBucket = do { aBucket \<leftarrow> bucket_add aBucket [v]; sort_loop pNext aBucket }"

text \<open>The last loop, which joins the slots.\<close>

fun join_loop :: "int list \<Rightarrow> int list list \<Rightarrow> int list option" where
  "join_loop pIn [] = Some pIn"
| "join_loop pIn (b # bs) =
     (if b = [] then join_loop pIn bs
      else do { pIn \<leftarrow> (if pIn \<noteq> [] then rowSetEntryMerge pIn b else Some b); join_loop pIn bs })"

definition rowSetEntrySort :: "int list \<Rightarrow> int list option" where
  "rowSetEntrySort pIn =
     do { aBucket \<leftarrow> sort_loop pIn (replicate 40 []); join_loop (hd aBucket) (tl aBucket) }"

section \<open>Trees\<close>

fun rowSetTreeToList :: "int tree \<Rightarrow> int list option" where
  "rowSetTreeToList Leaf = None"
| "rowSetTreeToList (Node l v r) =
     do { first \<leftarrow> (if l \<noteq> Leaf then rowSetTreeToList l else Some []);
          rest \<leftarrow> (if r \<noteq> Leaf then rowSetTreeToList r else Some []);
          Some (first @ v # rest) }"

text \<open>The tree, and the rest of the list.\<close>

fun rowSetNDeepTree :: "int list \<Rightarrow> nat \<Rightarrow> int tree \<times> int list" where
  "rowSetNDeepTree [] iDepth = (Leaf, [])"
| "rowSetNDeepTree (p # list) 0 = (Node Leaf p Leaf, list)"
| "rowSetNDeepTree (p # list) (Suc d) =
     (if d \<ge> 1 then
        (case rowSetNDeepTree (p # list) d of
           (pLeft, []) \<Rightarrow> (pLeft, [])
         | (pLeft, q # list') \<Rightarrow> (case rowSetNDeepTree list' d of (r, list'') \<Rightarrow> (Node pLeft q r, list'')))
      else (Node Leaf p Leaf, list))"

lemma rowSetNDeepTree_length: "rowSetNDeepTree xs d = (t, ys) \<Longrightarrow> length ys \<le> length xs"
proof (induction xs d arbitrary: t ys rule: rowSetNDeepTree.induct)
  case (3 p list d)
  then show ?case by (fastforce split: if_splits prod.splits list.splits)
qed auto

function list_to_tree_loop :: "nat \<Rightarrow> int tree \<Rightarrow> int list \<Rightarrow> int tree" where
  "list_to_tree_loop iDepth p [] = p"
| "list_to_tree_loop iDepth p (x # pList) =
     (case rowSetNDeepTree pList iDepth of (r, pList') \<Rightarrow> list_to_tree_loop (Suc iDepth) (Node p x r) pList')"
  by pat_completeness auto
termination
  by (relation "measure (\<lambda>(d, p, xs). length xs)") (auto dest!: rowSetNDeepTree_length [OF sym])

definition rowSetListToTree :: "int list \<Rightarrow> int tree option" where
  "rowSetListToTree pList = (case pList of [] \<Rightarrow> None | p # pList \<Rightarrow> Some (list_to_tree_loop 1 (Node Leaf p Leaf) pList))"

section \<open>Reading in order, and testing\<close>

text \<open>The row number, if there is one left.\<close>

definition sqlite3RowSetNext :: "RowSet \<Rightarrow> (int option \<times> RowSet) option" where
  "sqlite3RowSetNext p =
     do { p \<leftarrow> (if \<not> ROWSET_NEXT p then
                do { p \<leftarrow> (if \<not> ROWSET_SORTED p then do { e \<leftarrow> rowSetEntrySort (pEntry p); Some (p\<lparr>pEntry := e\<rparr>) } else Some p);
                     Some (p\<lparr>ROWSET_SORTED := True, ROWSET_NEXT := True\<rparr>) }
              else Some p);
          case pEntry p of
            v # rest \<Rightarrow>
              (let p = p\<lparr>pEntry := rest\<rparr> in
               Some (Some v, if rest = [] then sqlite3RowSetClear p else p))
          | [] \<Rightarrow> Some (None, p) }"

text \<open>
  The loop that files the sorted entries into the forest: into the first empty tree, after merging with the trees
  before it; what is left over is for a new tree.
\<close>

fun forest_add :: "int tree list \<Rightarrow> int list \<Rightarrow> (int tree list \<times> int list) option" where
  "forest_add [] p = Some ([], p)"
| "forest_add (t # ts) p =
     (if t = Leaf then do { n \<leftarrow> rowSetListToTree p; Some (n # ts, []) }
      else do { aux \<leftarrow> rowSetTreeToList t; p \<leftarrow> rowSetEntryMerge aux p; (ts, p) \<leftarrow> forest_add ts p; Some (Leaf # ts, p) })"

fun tree_search :: "int tree \<Rightarrow> int \<Rightarrow> bool" where
  "tree_search Leaf iRowid = False"
| "tree_search (Node l v r) iRowid =
     (if v < iRowid then tree_search r iRowid else if v > iRowid then tree_search l iRowid else True)"

fun forest_search :: "int tree list \<Rightarrow> int \<Rightarrow> bool" where
  "forest_search [] iRowid = False"
| "forest_search (t # ts) iRowid = (tree_search t iRowid \<or> forest_search ts iRowid)"

text \<open>The first part of \<open>sqlite3RowSetTest\<close>: the entries of the batch before go into the forest.\<close>

definition file_batch :: "'w dbmalloc \<Rightarrow> RowSet \<Rightarrow> 'w \<Rightarrow> (RowSet \<times> 'w) option" where
  "file_batch dbmalloc p w =
     do { e \<leftarrow> (if \<not> ROWSET_SORTED p then rowSetEntrySort (pEntry p) else Some (pEntry p));
          (ts, rest) \<leftarrow> forest_add (pForest p) e;
          (p, w) \<leftarrow> (if rest = [] then Some (p\<lparr>pForest := ts\<rparr>, w)
                    else case rowSetEntryAlloc dbmalloc p w of
                      (False, p, w) \<Rightarrow> Some (p\<lparr>pForest := ts\<rparr>, w)
                    | (True, p, w) \<Rightarrow> do { t \<leftarrow> rowSetListToTree rest; Some (p\<lparr>pForest := ts @ [t]\<rparr>, w) });
          Some (p\<lparr>pEntry := [], pLast := None, ROWSET_SORTED := True\<rparr>, w) }"

definition sqlite3RowSetTest :: "'w dbmalloc \<Rightarrow> RowSet \<Rightarrow> int \<Rightarrow> int \<Rightarrow> 'w \<Rightarrow> (bool \<times> RowSet \<times> 'w) option" where
  "sqlite3RowSetTest dbmalloc p batch iRowid w =
     do { (p, w) \<leftarrow> (if batch \<noteq> iBatch p then
                      do { (p, w) \<leftarrow> (if pEntry p \<noteq> [] then file_batch dbmalloc p w else Some (p, w));
                           Some (p\<lparr>iBatch := batch\<rparr>, w) }
                    else Some (p, w));
          Some (forest_search (pForest p) iRowid, p, w) }"

end
