(* ===== verification/Rowset_Properties.thy ===== *)
theory Rowset_Properties
  imports Rowset
begin

text \<open>
  A row set is a set: sorting and merging give the strictly increasing list of the values, the trees are search trees
  with the values of the list they were made from, a test sees exactly the batches before the current one, and
  reading yields every value once, in order.
\<close>

section \<open>Merging and sorting\<close>

abbreviation increasing :: "int list \<Rightarrow> bool" where
  "increasing xs \<equiv> sorted_wrt (<) xs"

lemma merge_spec:
  "increasing A \<Longrightarrow> increasing B \<Longrightarrow> A \<noteq> [] \<Longrightarrow> B \<noteq> [] \<Longrightarrow>
     \<exists>r. rowSetEntryMerge A B = Some r \<and> increasing r \<and> set r = set A \<union> set B \<and> r \<noteq> []"
proof (induction A B rule: rowSetEntryMerge.induct)
  case (1 a A b B)
  consider "a < b" | "a = b" | "b < a" by linarith
  then show ?case
  proof cases
    case 1
    then have "\<forall>x \<in> set (b # B). a < x" using "1.prems"(2) by auto
    then show ?thesis using 1 "1.IH"(1) "1.prems" by (cases "A = []") auto
  next
    case 2
    then show ?thesis using "1.IH"(1) "1.prems" by (cases "A = []") auto
  next
    case 3
    then have "\<forall>x \<in> set (a # A). b < x" using "1.prems"(1) by auto
    then show ?thesis using 3 "1.IH"(2) "1.prems" by (cases "B = []") auto
  qed
qed auto

text \<open>The slots of \<open>aBucket\<close> are the digits of a binary counter of the entries that were put in.\<close>

fun bucket_value :: "int list list \<Rightarrow> nat" where
  "bucket_value [] = 0"
| "bucket_value (b # bs) = (if b = [] then 0 else 1) + 2 * bucket_value bs"

definition sorted_slots :: "int list list \<Rightarrow> bool" where
  "sorted_slots bs \<longleftrightarrow> (\<forall>b \<in> set bs. increasing b)"

lemma bucket_add_spec:
  "sorted_slots bs \<Longrightarrow> increasing p \<Longrightarrow> p \<noteq> [] \<Longrightarrow> Suc (bucket_value bs) < 2 ^ length bs \<Longrightarrow>
     \<exists>bs'. bucket_add bs p = Some bs' \<and> sorted_slots bs' \<and> length bs' = length bs
       \<and> bucket_value bs' = Suc (bucket_value bs) \<and> \<Union> (set ` set bs') = \<Union> (set ` set bs) \<union> set p"
proof (induction bs arbitrary: p)
  case (Cons b bs)
  show ?case
  proof (cases "b = []")
    case True
    then show ?thesis using Cons.prems by (auto simp: sorted_slots_def)
  next
    case False
    from merge_spec [of b p] Cons.prems False obtain q where
      q: "rowSetEntryMerge b p = Some q" "increasing q" "set q = set b \<union> set p" "q \<noteq> []" by (auto simp: sorted_slots_def)
    have "sorted_slots bs" "Suc (bucket_value bs) < 2 ^ length bs" using Cons.prems False by (auto simp: sorted_slots_def)
    from Cons.IH [OF this(1) q(2,4) this(2)] obtain bs' where
      bs': "bucket_add bs q = Some bs'" "sorted_slots bs'" "length bs' = length bs" "bucket_value bs' = Suc (bucket_value bs)"
        "\<Union> (set ` set bs') = \<Union> (set ` set bs) \<union> set q" by blast
    then show ?thesis using False q by (intro exI [of _ "[] # bs'"]) (auto simp: sorted_slots_def)
  qed
qed simp

lemma sort_loop_spec:
  "sorted_slots bs \<Longrightarrow> bucket_value bs + length xs < 2 ^ length bs \<Longrightarrow>
     \<exists>bs'. sort_loop xs bs = Some bs' \<and> sorted_slots bs' \<and> length bs' = length bs
       \<and> \<Union> (set ` set bs') = \<Union> (set ` set bs) \<union> set xs"
proof (induction xs arbitrary: bs)
  case (Cons v xs)
  then obtain bs1 where 1: "bucket_add bs [v] = Some bs1" "sorted_slots bs1" "length bs1 = length bs"
      "bucket_value bs1 = Suc (bucket_value bs)" "\<Union> (set ` set bs1) = \<Union> (set ` set bs) \<union> {v}"
    using bucket_add_spec [of bs "[v]"] by auto
  then obtain bs' where "sort_loop xs bs1 = Some bs'" "sorted_slots bs'" "length bs' = length bs1"
      "\<Union> (set ` set bs') = \<Union> (set ` set bs1) \<union> set xs"
    using Cons.IH [of bs1] Cons.prems(2) by auto
  then show ?case using 1 by auto
qed simp

lemma join_loop_spec:
  "sorted_slots bs \<Longrightarrow> increasing p \<Longrightarrow> \<exists>r. join_loop p bs = Some r \<and> increasing r \<and> set r = set p \<union> \<Union> (set ` set bs)"
proof (induction bs arbitrary: p)
  case (Cons b bs)
  have bs: "sorted_slots bs" "increasing b" using Cons.prems(1) by (simp_all add: sorted_slots_def)
  show ?case
  proof (cases "b = [] \<or> p = []")
    case True
    then show ?thesis using Cons.IH [OF bs(1)] Cons.prems(2) bs(2) by fastforce
  next
    case False
    with merge_spec [of p b] Cons.prems(2) bs(2) obtain q where
      "rowSetEntryMerge p b = Some q" "increasing q" "set q = set p \<union> set b" by auto
    then show ?thesis using Cons.IH [OF bs(1), of q] False by auto
  qed
qed simp

lemma sort_spec:
  assumes "length xs < 2 ^ 40"
  shows "\<exists>r. rowSetEntrySort xs = Some r \<and> increasing r \<and> set r = set xs"
proof -
  have v: "bucket_value (replicate n []) = 0" for n by (induction n) auto
  then obtain bs where bs: "sort_loop xs (replicate 40 []) = Some bs" "sorted_slots bs" "length bs = 40" "\<Union> (set ` set bs) = set xs"
    using sort_loop_spec [of "replicate 40 []" xs] assms by (auto simp: sorted_slots_def)
  then obtain b bs' where b: "bs = b # bs'" by (cases bs) auto
  then show ?thesis
    using bs join_loop_spec [of bs' b] by (auto simp: rowSetEntrySort_def sorted_slots_def)
qed

section \<open>Trees\<close>

lemma tree_to_list: "t \<noteq> Leaf \<Longrightarrow> rowSetTreeToList t = Some (inorder t)"
  by (induction t) auto

lemma n_deep_tree: "rowSetNDeepTree xs d = (t, ys) \<Longrightarrow> inorder t @ ys = xs"
proof (induction xs d arbitrary: t ys rule: rowSetNDeepTree.induct)
  case (3 p list d)
  then show ?case by (fastforce split: if_splits prod.splits list.splits)
qed auto

lemma list_to_tree_loop: "inorder (list_to_tree_loop d p xs) = inorder p @ xs"
proof (induction d p xs rule: list_to_tree_loop.induct)
  case (2 d p x xs)
  then show ?case using n_deep_tree by (fastforce split: prod.splits)
qed simp

lemma list_to_tree: "xs \<noteq> [] \<Longrightarrow> \<exists>t. rowSetListToTree xs = Some t \<and> inorder t = xs"
  by (cases xs) (simp_all add: rowSetListToTree_def list_to_tree_loop)

lemma tree_search: "bst t \<Longrightarrow> tree_search t x \<longleftrightarrow> x \<in> set_tree t"
  by (induction t) auto

definition forest_set :: "int tree list \<Rightarrow> int set" where
  "forest_set ts = \<Union> (set_tree ` set ts)"

definition search_trees :: "int tree list \<Rightarrow> bool" where
  "search_trees ts \<longleftrightarrow> (\<forall>t \<in> set ts. bst t)"

lemma forest_search: "search_trees ts \<Longrightarrow> forest_search ts x \<longleftrightarrow> x \<in> forest_set ts"
  by (induction ts) (auto simp: search_trees_def forest_set_def tree_search)

lemma forest_add_spec:
  "search_trees ts \<Longrightarrow> increasing p \<Longrightarrow> p \<noteq> [] \<Longrightarrow>
     \<exists>ts' rest. forest_add ts p = Some (ts', rest) \<and> search_trees ts' \<and> increasing rest
       \<and> forest_set ts' \<union> set rest = forest_set ts \<union> set p"
proof (induction ts arbitrary: p)
  case (Cons t ts)
  have ts: "search_trees ts" "bst t" using Cons.prems(1) by (simp_all add: search_trees_def)
  show ?case
  proof (cases "t = Leaf")
    case True
    from list_to_tree [OF Cons.prems(3)] obtain n where n: "rowSetListToTree p = Some n" "inorder n = p" by blast
    then have "bst n" using Cons.prems(2) by (simp add: bst_iff_sorted_wrt_less)
    moreover have "set_tree n = set p" using n(2) by (metis set_inorder)
    ultimately show ?thesis using True n(1) ts(1) by (auto simp: search_trees_def forest_set_def)
  next
    case False
    have "inorder t \<noteq> []" using False by (cases t) simp_all
    moreover have "increasing (inorder t)" using ts(2) by (simp add: bst_iff_sorted_wrt_less)
    ultimately obtain q where
      q: "rowSetEntryMerge (inorder t) p = Some q" "increasing q" "set q = set_tree t \<union> set p" "q \<noteq> []"
      using merge_spec [of "inorder t" p] Cons.prems(2,3) by auto
    from Cons.IH [OF ts(1) q(2,4)] obtain ts' rest where
      "forest_add ts q = Some (ts', rest)" "search_trees ts'" "increasing rest" "forest_set ts' \<union> set rest = forest_set ts \<union> set q" by blast
    then show ?thesis using False q tree_to_list [OF False]
      by (intro exI [of _ "Leaf # ts'"] exI [of _ rest]) (auto simp: search_trees_def forest_set_def)
  qed
qed (simp add: forest_set_def)

section \<open>Row sets\<close>

text \<open>
  The values in the forest are \<open>V\<close>, those of the current batch \<open>C\<close>, in a list of at most \<open>n\<close> entries; no value has
  been read yet.
\<close>

definition rowset_rep :: "nat \<Rightarrow> RowSet \<Rightarrow> int set \<Rightarrow> int set \<Rightarrow> int \<Rightarrow> bool" where
  "rowset_rep n p V C b \<longleftrightarrow>
     \<not> ROWSET_NEXT p \<and> search_trees (pForest p) \<and> forest_set (pForest p) = V \<and> set (pEntry p) = C \<and> length (pEntry p) \<le> n
     \<and> pLast p = (if pEntry p = [] then None else Some (last (pEntry p))) \<and> (ROWSET_SORTED p \<longrightarrow> increasing (pEntry p)) \<and> iBatch p = b"

text \<open>The fields an operation leaves alone when it takes an entry from the pool.\<close>

lemma rowset_rep_pool: "rowset_rep n (p\<lparr>nFresh := k\<rparr>) V C b = rowset_rep n p V C b"
  "rowset_rep n (p\<lparr>pChunk := c\<rparr>) V C b = rowset_rep n p V C b"
  by (simp_all add: rowset_rep_def)

lemma alloc_rep:
  "rowSetEntryAlloc dbmalloc p w = (ok, p', w') \<Longrightarrow> rowset_rep n p' V C b = rowset_rep n p V C b \<and> pForest p' = pForest p"
  by (auto simp: rowSetEntryAlloc_def rowset_rep_pool split: if_splits prod.splits bool.splits)

definition never_fails :: "'w dbmalloc \<Rightarrow> bool" where
  "never_fails dbmalloc \<longleftrightarrow> (\<forall>n w. fst (dbmalloc n w))"

lemma alloc_ok:
  assumes "never_fails dbmalloc" "rowSetEntryAlloc dbmalloc p w = (ok, p', w')"
  shows ok
proof -
  have "fst (dbmalloc (8 + 24 * ROWSET_ENTRY_PER_CHUNK) w)" using assms(1) by (simp add: never_fails_def)
  then show ?thesis using assms(2) by (auto simp: rowSetEntryAlloc_def split: if_splits prod.splits bool.splits)
qed

lemma increasing_snoc: "increasing (xs @ [x]) \<longleftrightarrow> increasing xs \<and> (xs \<noteq> [] \<longrightarrow> last xs < x)"
  by (induction xs) (auto dest: order.strict_trans)

lemma insert_rep:
  assumes "rowset_rep n p V C b"
  shows "\<exists>p' w' C'. sqlite3RowSetInsert dbmalloc p v w = (p', w') \<and> rowset_rep (Suc n) p' V C' b
     \<and> C' \<subseteq> insert v C \<and> (never_fails dbmalloc \<longrightarrow> C' = insert v C)"
proof -
  obtain ok q w1 where a: "rowSetEntryAlloc dbmalloc p w = (ok, q, w1)" by (cases "rowSetEntryAlloc dbmalloc p w") auto
  have q: "rowset_rep n q V C b" using alloc_rep [OF a] assms by blast
  show ?thesis
  proof (cases ok)
    case False
    then show ?thesis using a q alloc_ok [OF _ a] by (auto simp: sqlite3RowSetInsert_def rowset_rep_def)
  next
    case True
    let ?p = "fst (sqlite3RowSetInsert dbmalloc p v w)"
    have "rowset_rep (Suc n) ?p V (insert v C) b"
    proof (cases "pEntry q = []")
      case True
      with q a \<open>ok\<close> show ?thesis by (auto simp: sqlite3RowSetInsert_def rowset_rep_def Let_def)
    next
      case False
      with q a \<open>ok\<close> show ?thesis by (auto simp: sqlite3RowSetInsert_def rowset_rep_def Let_def increasing_snoc)
    qed
    then show ?thesis by (cases "sqlite3RowSetInsert dbmalloc p v w") auto
  qed
qed

lemma file_batch_rep:
  assumes "rowset_rep n p V C b" "n < 2 ^ 40" "pEntry p \<noteq> []"
  shows "\<exists>p' w' V'. file_batch dbmalloc p w = Some (p', w') \<and> rowset_rep n p' V' {} b
     \<and> V' \<subseteq> V \<union> C \<and> (never_fails dbmalloc \<longrightarrow> V' = V \<union> C)"
proof -
  have "length (pEntry p) < 2 ^ 40" using assms(1,2) by (auto simp: rowset_rep_def)
  from sort_spec [OF this] assms(1) obtain e where
    e: "(if \<not> ROWSET_SORTED p then rowSetEntrySort (pEntry p) else Some (pEntry p)) = Some e" "increasing e" "set e = C"
    by (cases "ROWSET_SORTED p") (auto simp: rowset_rep_def)
  have "e \<noteq> []" using e(3) assms(1,3) by (auto simp: rowset_rep_def)
  with forest_add_spec [of "pForest p" e] e assms(1) obtain ts rest where
    ts: "forest_add (pForest p) e = Some (ts, rest)" "search_trees ts" "increasing rest" "forest_set ts \<union> set rest = V \<union> C"
    by (auto simp: rowset_rep_def)
  obtain ok q w1 where a: "rowSetEntryAlloc dbmalloc p w = (ok, q, w1)" by (cases "rowSetEntryAlloc dbmalloc p w") auto
  have q: "rowset_rep n q V C b" using alloc_rep [OF a] assms(1) by blast
  have filed: "rowset_rep n (r\<lparr>pForest := f, pEntry := [], pLast := None, ROWSET_SORTED := True\<rparr>) (forest_set f) {} b"
    if "rowset_rep n r V C b" "search_trees f" for r f using that by (simp add: rowset_rep_def)
  consider "rest = []" | "rest \<noteq> []" "\<not> ok" | "rest \<noteq> []" ok by blast
  then show ?thesis
  proof cases
    case 1
    then show ?thesis using filed [OF assms(1) ts(2)] e(1) ts by (auto simp: file_batch_def)
  next
    case 2
    then show ?thesis using filed [OF q ts(2)] e(1) ts a alloc_ok [OF _ a] by (fastforce simp: file_batch_def)
  next
    case 3
    from list_to_tree [OF 3(1)] obtain t where t: "rowSetListToTree rest = Some t" "inorder t = rest" by blast
    then have "bst t" "set_tree t = set rest" using ts(3) by (auto simp: bst_iff_sorted_wrt_less simp flip: set_inorder)
    then have "search_trees (ts @ [t])" "forest_set (ts @ [t]) = V \<union> C" using ts(2,4) by (auto simp: search_trees_def forest_set_def)
    then show ?thesis using filed [OF q, of "ts @ [t]"] e(1) ts(1) a t(1) 3 by (auto simp: file_batch_def)
  qed
qed

lemma test_rep:
  assumes "rowset_rep n p V C b" "n < 2 ^ 40"
  shows "\<exists>p' w' V' C'. sqlite3RowSetTest dbmalloc p b' v w = Some (v \<in> V', p', w') \<and> rowset_rep n p' V' C' b'
     \<and> V' \<subseteq> (if b' \<noteq> b then V \<union> C else V) \<and> C' \<subseteq> (if b' \<noteq> b then {} else C)
     \<and> (never_fails dbmalloc \<longrightarrow> V' = (if b' \<noteq> b then V \<union> C else V) \<and> C' = (if b' \<noteq> b then {} else C))"
proof (cases "b' = b")
  case True
  then show ?thesis using assms(1) forest_search
    by (intro exI [of _ p] exI [of _ w] exI [of _ V] exI [of _ C]) (auto simp: sqlite3RowSetTest_def rowset_rep_def)
next
  case False
  have "\<exists>p' w' V'. (if pEntry p \<noteq> [] then file_batch dbmalloc p w else Some (p, w)) = Some (p', w') \<and> rowset_rep n p' V' {} b
     \<and> V' \<subseteq> V \<union> C \<and> (never_fails dbmalloc \<longrightarrow> V' = V \<union> C)"
  proof (cases "pEntry p = []")
    case True
    then show ?thesis using assms(1) by (auto simp: rowset_rep_def)
  next
    case False
    then show ?thesis using file_batch_rep [OF assms False, of dbmalloc w] by simp
  qed
  then obtain p' w' V' where f: "(if pEntry p \<noteq> [] then file_batch dbmalloc p w else Some (p, w)) = Some (p', w')"
     "rowset_rep n p' V' {} b" "V' \<subseteq> V \<union> C" "never_fails dbmalloc \<longrightarrow> V' = V \<union> C" by blast
  have rep: "rowset_rep n (p'\<lparr>iBatch := b'\<rparr>) V' {} b'" using f(2) by (simp add: rowset_rep_def)
  then have "forest_search (pForest p') v = (v \<in> V')" using forest_search by (auto simp: rowset_rep_def)
  then show ?thesis using f(1,3,4) rep False assms(1)
    by (intro exI [of _ "p'\<lparr>iBatch := b'\<rparr>"] exI [of _ w'] exI [of _ V'] exI [of _ "{}"])
      (simp add: sqlite3RowSetTest_def rowset_rep_def)
qed

lemma init_rep: "sqlite3RowSetInit dbmalloc dbsize w0 = (Some p, w) \<Longrightarrow> rowset_rep 0 p {} {} 0"
  by (auto simp: sqlite3RowSetInit_def rowset_rep_def search_trees_def forest_set_def split: prod.splits bool.splits)

section \<open>The interface: a set that is tested in batches\<close>

datatype row_op = Insert int | Test int int

fun run_row_ops ::
    "('s \<Rightarrow> int \<Rightarrow> 'w \<Rightarrow> 's \<times> 'w) \<Rightarrow> ('s \<Rightarrow> int \<Rightarrow> int \<Rightarrow> 'w \<Rightarrow> (bool \<times> 's \<times> 'w) option) \<Rightarrow>
     row_op list \<Rightarrow> 's \<Rightarrow> 'w \<Rightarrow> (bool list \<times> 's \<times> 'w) option" where
  "run_row_ops ins test [] s w = Some ([], s, w)"
| "run_row_ops ins test (Insert v # ops) s w = (case ins s v w of (s, w) \<Rightarrow> run_row_ops ins test ops s w)"
| "run_row_ops ins test (Test b v # ops) s w =
     do { (r, s, w) \<leftarrow> test s b v w; (rs, s, w) \<leftarrow> run_row_ops ins test ops s w; Some (r # rs, s, w) }"

text \<open>The specification: the values that were there when the batch number last changed, and those since.\<close>

fun row_answers :: "row_op list \<Rightarrow> int set \<Rightarrow> int set \<Rightarrow> int \<Rightarrow> bool list" where
  "row_answers [] V C b = []"
| "row_answers (Insert v # ops) V C b = row_answers ops V (insert v C) b"
| "row_answers (Test b' v # ops) V C b =
     (if b' \<noteq> b then (v \<in> V \<union> C) # row_answers ops (V \<union> C) {} b' else (v \<in> V) # row_answers ops V C b)"

lemma row_answers_mono: "V \<subseteq> V' \<Longrightarrow> C \<subseteq> C' \<Longrightarrow> list_all2 (\<longrightarrow>) (row_answers ops V C b) (row_answers ops V' C' b)"
proof (induction ops arbitrary: V C V' C' b)
  case (Cons x ops)
  then show ?case by (cases x) (auto intro!: Cons.IH)
qed simp

lemma list_all2_imp_trans: "list_all2 (\<longrightarrow>) xs ys \<Longrightarrow> list_all2 (\<longrightarrow>) ys zs \<Longrightarrow> list_all2 (\<longrightarrow>) xs zs"
  by (rule list_all2_trans [of "(\<longrightarrow>)" "(\<longrightarrow>)" "(\<longrightarrow>)"]) auto

locale batched_set =
  fixes rep :: "nat \<Rightarrow> 's \<Rightarrow> int set \<Rightarrow> int set \<Rightarrow> int \<Rightarrow> bool"
    and ins :: "'s \<Rightarrow> int \<Rightarrow> 'w \<Rightarrow> 's \<times> 'w"
    and test :: "'s \<Rightarrow> int \<Rightarrow> int \<Rightarrow> 'w \<Rightarrow> (bool \<times> 's \<times> 'w) option"
    and reliable :: bool
    and limit :: nat
  assumes ins_rep: "rep n s V C b \<Longrightarrow>
      \<exists>s' w' C'. ins s v w = (s', w') \<and> rep (Suc n) s' V C' b \<and> C' \<subseteq> insert v C \<and> (reliable \<longrightarrow> C' = insert v C)"
    and test_rep: "rep n s V C b \<Longrightarrow> n < limit \<Longrightarrow>
      \<exists>s' w' V' C'. test s b' v w = Some (v \<in> V', s', w') \<and> rep n s' V' C' b'
        \<and> V' \<subseteq> (if b' \<noteq> b then V \<union> C else V) \<and> C' \<subseteq> (if b' \<noteq> b then {} else C)
        \<and> (reliable \<longrightarrow> V' = (if b' \<noteq> b then V \<union> C else V) \<and> C' = (if b' \<noteq> b then {} else C))"
begin

lemma run_row_ops_answers:
  assumes "rep n s V C b" "n + length ops < limit"
  shows "\<exists>rs s' w'. run_row_ops ins test ops s w = Some (rs, s', w') \<and> list_all2 (\<longrightarrow>) rs (row_answers ops V C b)
     \<and> (reliable \<longrightarrow> rs = row_answers ops V C b)"
  using assms
proof (induction ops arbitrary: n s V C b w)
  case (Cons x ops)
  show ?case
  proof (cases x)
    case (Insert v)
    from ins_rep [OF Cons.prems(1), of v w] obtain s1 w1 C1 where
      1: "ins s v w = (s1, w1)" "rep (Suc n) s1 V C1 b" "C1 \<subseteq> insert v C" "reliable \<longrightarrow> C1 = insert v C" by blast
    from Cons.IH [OF 1(2), of w1] Cons.prems(2) obtain rs s' w' where
      2: "run_row_ops ins test ops s1 w1 = Some (rs, s', w')" "list_all2 (\<longrightarrow>) rs (row_answers ops V C1 b)"
        "reliable \<longrightarrow> rs = row_answers ops V C1 b" by auto
    then show ?thesis using Insert 1 list_all2_imp_trans [OF 2(2) row_answers_mono [OF subset_refl 1(3)]] by auto
  next
    case (Test b' v)
    let ?V = "if b' \<noteq> b then V \<union> C else V" and ?C = "if b' \<noteq> b then {} else C"
    have "n < limit" using Cons.prems(2) by simp
    from test_rep [OF Cons.prems(1) this, of b' v w] obtain s1 w1 V1 C1 where
      1: "test s b' v w = Some (v \<in> V1, s1, w1)" "rep n s1 V1 C1 b'" "V1 \<subseteq> ?V" "C1 \<subseteq> ?C" "reliable \<longrightarrow> V1 = ?V \<and> C1 = ?C" by blast
    from Cons.IH [OF 1(2), of w1] Cons.prems(2) obtain rs s' w' where
      2: "run_row_ops ins test ops s1 w1 = Some (rs, s', w')" "list_all2 (\<longrightarrow>) rs (row_answers ops V1 C1 b')"
        "reliable \<longrightarrow> rs = row_answers ops V1 C1 b'" by auto
    have "row_answers (x # ops) V C b = (v \<in> ?V) # row_answers ops ?V ?C b'" using Test by simp
    moreover have "list_all2 (\<longrightarrow>) rs (row_answers ops ?V ?C b')" by (rule list_all2_imp_trans [OF 2(2) row_answers_mono [OF 1(3,4)]])
    ultimately show ?thesis using Test 1(1,3,5) 2(1,3) by auto
  qed
qed simp

end

interpretation rs: batched_set rowset_rep "sqlite3RowSetInsert dbmalloc" "sqlite3RowSetTest dbmalloc" "never_fails dbmalloc" "2 ^ 40"
  for dbmalloc
  by unfold_locales (rule insert_rep test_rep; assumption)+

section \<open>Reading\<close>

fun read_rows :: "nat \<Rightarrow> RowSet \<Rightarrow> (int list \<times> RowSet) option" where
  "read_rows 0 p = Some ([], p)"
| "read_rows (Suc n) p =
     do { (v, p) \<leftarrow> sqlite3RowSetNext p;
          case v of None \<Rightarrow> Some ([], p) | Some v \<Rightarrow> do { (vs, p) \<leftarrow> read_rows n p; Some (v # vs, p) } }"

lemma next_empty: "sqlite3RowSetNext (sqlite3RowSetClear p) = Some (None, (sqlite3RowSetClear p)\<lparr>ROWSET_NEXT := True\<rparr>)"
  by (simp add: sqlite3RowSetNext_def sqlite3RowSetClear_def)

lemma read_started:
  assumes "ROWSET_NEXT p" "length (pEntry p) < n"
  shows "\<exists>p'. read_rows n p = Some (pEntry p, p')"
  using assms
proof (induction "pEntry p" arbitrary: p n)
  case Nil
  then show ?case by (cases n) (auto simp: sqlite3RowSetNext_def)
next
  case (Cons v vs)
  then obtain m where n: "n = Suc m" by (cases n) auto
  show ?case
  proof (cases "vs = []")
    case True
    then show ?thesis using Cons.hyps(2) Cons.prems n next_empty [of "p\<lparr>pEntry := []\<rparr>"]
      by (cases m) (auto simp: sqlite3RowSetNext_def [of p] Let_def simp flip: Cons.hyps(2))
  next
    case False
    let ?p = "p\<lparr>pEntry := vs\<rparr>"
    from Cons.hyps(1) [of ?p m] Cons.hyps(2) Cons.prems n obtain p' where "read_rows m ?p = Some (vs, p')"
      by (auto simp flip: Cons.hyps(2))
    then show ?thesis using False Cons.prems(1) n by (auto simp: sqlite3RowSetNext_def [of p] Let_def simp flip: Cons.hyps(2))
  qed
qed

lemma read_rep:
  assumes "rowset_rep n p V C b" "n < 2 ^ 40" "card C < m"
  shows "\<exists>p'. read_rows m p = Some (sorted_list_of_set C, p')"
proof -
  have p: "\<not> ROWSET_NEXT p" "length (pEntry p) < 2 ^ 40" "set (pEntry p) = C" "ROWSET_SORTED p \<longrightarrow> increasing (pEntry p)"
    using assms(1,2) by (auto simp: rowset_rep_def)
  obtain e where
    e: "(if \<not> ROWSET_SORTED p then do { e \<leftarrow> rowSetEntrySort (pEntry p); Some (p\<lparr>pEntry := e\<rparr>) } else Some p) = Some (p\<lparr>pEntry := e\<rparr>)"
      "increasing e" "set e = C"
  proof (cases "ROWSET_SORTED p")
    case True
    then show ?thesis using that [of "pEntry p"] p(3,4) by simp
  next
    case False
    then show ?thesis using that sort_spec [OF p(2)] p(3) by auto
  qed
  let ?p = "p\<lparr>pEntry := e, ROWSET_SORTED := True, ROWSET_NEXT := True\<rparr>"
  have "sqlite3RowSetNext p = sqlite3RowSetNext ?p"
    using p(1) by (simp add: sqlite3RowSetNext_def e(1))
  then have "read_rows m p = read_rows m ?p" using assms(3) by (cases m) simp_all
  moreover have "sorted_list_of_set C = e" using e(2,3) by (metis sorted_list_of_set.idem_if_sorted_distinct strict_sorted_iff)
  moreover have "length e = card C" using e(2,3) by (metis distinct_card strict_sorted_iff)
  ultimately show ?thesis using read_started [of ?p m] assms(3) by auto
qed

fun insert_rows :: "'w dbmalloc \<Rightarrow> int list \<Rightarrow> RowSet \<Rightarrow> 'w \<Rightarrow> RowSet \<times> 'w" where
  "insert_rows dbmalloc [] p w = (p, w)"
| "insert_rows dbmalloc (v # vs) p w = (case sqlite3RowSetInsert dbmalloc p v w of (p, w) \<Rightarrow> insert_rows dbmalloc vs p w)"

lemma insert_rows_rep:
  assumes "rowset_rep n p V C b" "never_fails dbmalloc" "insert_rows dbmalloc vs p w = (p', w')"
  shows "rowset_rep (n + length vs) p' V (C \<union> set vs) b"
  using assms(1,3)
proof (induction vs arbitrary: n p C w)
  case (Cons v vs)
  from insert_rep [OF Cons.prems(1), of dbmalloc v w] assms(2) obtain p1 w1 where
    1: "sqlite3RowSetInsert dbmalloc p v w = (p1, w1)" "rowset_rep (Suc n) p1 V (insert v C) b" by auto
  from Cons.IH [OF 1(2), of w1] Cons.prems(2) 1(1) show ?case by simp
qed simp

section \<open>Properties\<close>

text \<open>
  C31. A row set answers tests by batches: for any sequence of fewer than \<open>2 ^ 40\<close> insertions and tests on a new set, a test sees
  exactly the values that were inserted before the batch number last changed, through the sorting of
  the list, the merging into the forest and the search trees; all loops end and no null pointer is
  used.  When allocations fail, values may be missed, but none is reported that was not inserted.
\<close>

theorem rowset_refines_batches:
  assumes "sqlite3RowSetInit dbmalloc dbsize w0 = (Some p, w)" "length ops < 2 ^ 40"
  shows "\<exists>rs p' w'. run_row_ops (sqlite3RowSetInsert dbmalloc) (sqlite3RowSetTest dbmalloc) ops p w = Some (rs, p', w')
     \<and> list_all2 (\<longrightarrow>) rs (row_answers ops {} {} 0) \<and> (never_fails dbmalloc \<longrightarrow> rs = row_answers ops {} {} 0)"
  using rs.run_row_ops_answers [OF init_rep [OF assms(1)], of ops dbmalloc w] assms(2) by simp

theorem rowset_refines_batches_witness:
  "\<exists>p' w'. run_row_ops (sqlite3RowSetInsert (\<lambda>_ w. (True, w))) (sqlite3RowSetTest (\<lambda>_ w. (True, w)))
       [Insert 5, Insert 3, Test 0 3, Test 1 3, Insert 7, Test 1 7, Test 2 7]
       (the (fst (sqlite3RowSetInit (\<lambda>_ w. (True, w)) 512 ()))) () = Some ([False, True, False, True], p', w')"
proof -
  obtain p w where p: "sqlite3RowSetInit (\<lambda>_ w. (True, w)) 512 () = (Some p, w)" by (simp add: sqlite3RowSetInit_def)
  have "never_fails (\<lambda>(_ :: nat) (w :: unit). (True, w))" by (simp add: never_fails_def)
  with rowset_refines_batches [OF p, of "[Insert 5, Insert 3, Test 0 3, Test 1 3, Insert 7, Test 1 7, Test 2 7]"] show ?thesis
    using p by simp
qed

text \<open>
  C32. Reading a row set yields every value once, in ascending order: after any insertions, in any order
  and with repetitions, successive calls of \<open>sqlite3RowSetNext\<close> return the sorted list of the inserted values
  and then report the end.
\<close>

theorem rowset_reads_sorted:
  assumes "sqlite3RowSetInit dbmalloc dbsize w0 = (Some p, w)" "never_fails dbmalloc" "length vs < 2 ^ 40"
    and "insert_rows dbmalloc vs p w = (p', w')" "card (set vs) < m"
  shows "\<exists>p''. read_rows m p' = Some (sorted_list_of_set (set vs), p'')"
  using read_rep [OF insert_rows_rep [OF init_rep [OF assms(1)] assms(2,4)]] assms(3,5) by simp

theorem rowset_reads_sorted_witness:
  "\<exists>p''. read_rows 4 (fst (insert_rows (\<lambda>_ w. (True, w)) [9, 2, 9, 5] (the (fst (sqlite3RowSetInit (\<lambda>_ w. (True, w)) 512 ()))) ()))
     = Some ([2, 5, 9], p'')"
proof -
  obtain p w where p: "sqlite3RowSetInit (\<lambda>_ w. (True, w)) 512 () = (Some p, w)" by (simp add: sqlite3RowSetInit_def)
  obtain p' w' where i: "insert_rows (\<lambda>_ w. (True, w)) [9, 2, 9, 5] p w = (p', w')" by (rule prod.exhaust)
  have "never_fails (\<lambda>(_ :: nat) (w :: unit). (True, w))" by (simp add: never_fails_def)
  note read = rowset_reads_sorted [OF p this _ i, of 4]
  have set: "set [9, 2, 9, 5] = {2, 5, 9 :: int}" by auto
  have "\<exists>p''. read_rows 4 p' = Some (sorted_list_of_set {2, 5, 9}, p'')" using read unfolding set by simp
  then have "\<exists>p''. read_rows 4 p' = Some ([2, 5, 9], p'')" by simp
  then show ?thesis using p i by (simp del: insert_rows.simps)
qed

end
