(* ===== verification/Memjournal.thy ===== *)
theory Memjournal
  imports Codec_State
begin

text \<open>
  The in-memory rollback journal (\<^verbatim>\<open>memjournal.c\<close>): a list of chunks of equal size with two cursors, which is
  written out to a real file when it grows beyond a limit.  The chunks are a singly linked list that is
  only appended to and cut off at the end, so a pointer to a chunk is its index in the list.  \<open>None\<close> is
  the use of a null pointer, an access out of a chunk or a division by zero.  The real file system is the
  \<open>vfs\<close> the journal is opened with; \<open>raw\<close> is what freshly allocated memory holds (allocation, position).
\<close>

section \<open>State\<close>

abbreviation (input) SQLITE_IOERR_SHORT_READ :: int where "SQLITE_IOERR_SHORT_READ \<equiv> 522"
abbreviation (input) SQLITE_IOERR_NOMEM :: int where "SQLITE_IOERR_NOMEM \<equiv> 3082"

record FilePoint =
  iOffset :: int
  pChunk :: "nat option"

record MemJournal =
  nChunkSize :: int
  nSpill :: int
  pFirst :: "bytes list"
  endpoint :: FilePoint
  readpoint :: FilePoint
  flags :: int
  zJournal :: "bytes option"

text \<open>The methods of a \<open>sqlite3_file\<close>: those of this module, or those of the file system.\<close>

datatype journal = MemJournalMethods MemJournal | RealMethods

record 'f vfs =
  xOpen :: "bytes option \<Rightarrow> int \<Rightarrow> 'f \<Rightarrow> int \<times> 'f"
  xWrite :: "bytes \<Rightarrow> int \<Rightarrow> 'f \<Rightarrow> int \<times> 'f"
  xClose :: "'f \<Rightarrow> 'f"

definition chunk_ptr :: "bytes list \<Rightarrow> nat \<Rightarrow> nat option" where
  "chunk_ptr cs i = (if i < length cs then Some i else None)"

section \<open>Reading\<close>

text \<open>The loop that looks for the chunk of an offset.\<close>

function read_seek :: "MemJournal \<Rightarrow> nat \<Rightarrow> int \<Rightarrow> int \<Rightarrow> nat option" where
  "read_seek p i iOff iOfst =
     (if i < length (pFirst p) \<and> iOff + nChunkSize p \<le> iOfst then read_seek p (Suc i) (iOff + nChunkSize p) iOfst
      else chunk_ptr (pFirst p) i)"
  by pat_completeness auto
termination
  by (relation "measure (\<lambda>(p, i, _). length (pFirst p) - i)") auto

declare read_seek.simps [simp del]

text \<open>The loop that copies, with the chunk it ends at.\<close>

function read_loop :: "MemJournal \<Rightarrow> nat option \<Rightarrow> int \<Rightarrow> int \<Rightarrow> (bytes \<times> nat option) option" where
  "read_loop p ptr nRead iChunkOffset =
     (case ptr of
        None \<Rightarrow> None
      | Some i \<Rightarrow>
          if i < length (pFirst p) then
            do { let iSpace = nChunkSize p - iChunkOffset;
                 out \<leftarrow> peek (pFirst p ! i) iChunkOffset (min nRead iSpace);
                 let nRead = nRead - iSpace;
                 if nRead \<ge> 0 then
                   (let ptr = chunk_ptr (pFirst p) (Suc i) in
                    if ptr \<noteq> None \<and> nRead > 0 then do { (rest, ptr) \<leftarrow> read_loop p ptr nRead 0; Some (out @ rest, ptr) }
                    else Some (out, ptr))
                 else Some (out, Some i) }
          else None)"
  by pat_completeness auto
termination
  by (relation "measure (\<lambda>(p, ptr, _). case ptr of None \<Rightarrow> 0 | Some i \<Rightarrow> length (pFirst p) - i)")
    (auto simp: chunk_ptr_def)

declare read_loop.simps [simp del]

definition memjrnlRead :: "MemJournal \<Rightarrow> int \<Rightarrow> int \<Rightarrow> (int \<times> bytes \<times> MemJournal) option" where
  "memjrnlRead p iAmt iOfst =
     (if iAmt + iOfst > iOffset (endpoint p) then Some (SQLITE_IOERR_SHORT_READ, [], p)
      else
        do { let ptr = (if iOffset (readpoint p) \<noteq> iOfst \<or> iOfst = 0 then read_seek p 0 0 iOfst else pChunk (readpoint p));
             (out, ptr) \<leftarrow> (if nChunkSize p = 0 then None else read_loop p ptr iAmt (iOfst mod nChunkSize p));
             Some (SQLITE_OK, out,
                   p\<lparr>readpoint := \<lparr> iOffset = (if ptr \<noteq> None then iOfst + iAmt else 0), pChunk = ptr \<rparr>\<rparr>) })"

section \<open>Writing out to a file\<close>

fun create_loop :: "'f vfs \<Rightarrow> int \<Rightarrow> bytes list \<Rightarrow> int \<Rightarrow> int \<Rightarrow> 'f \<Rightarrow> (int \<times> 'f) option" where
  "create_loop v endOff [] nChunk iOff f = Some (SQLITE_OK, f)"
| "create_loop v endOff (c # cs) nChunk iOff f =
     do { let nChunk = (if iOff + nChunk > endOff then endOff - iOff else nChunk);
          d \<leftarrow> peek c 0 nChunk;
          let (rc, f) = xWrite v d iOff f;
          if rc \<noteq> SQLITE_OK then Some (rc, f) else create_loop v endOff cs nChunk (iOff + nChunk) f }"

definition memjrnlCreateFile :: "'f vfs \<Rightarrow> MemJournal \<Rightarrow> 'f \<Rightarrow> (int \<times> journal \<times> 'f) option" where
  "memjrnlCreateFile v p f =
     do { let (rc, f) = xOpen v (zJournal p) (flags p) f;
          (rc, f) \<leftarrow> (if rc = SQLITE_OK then create_loop v (iOffset (endpoint p)) (pFirst p) (nChunkSize p) 0 f else Some (rc, f));
          if rc = SQLITE_OK then Some (rc, RealMethods, f) else Some (rc, MemJournalMethods p, xClose v f) }"

section \<open>Truncating and writing\<close>

text \<open>The loop that looks for the last chunk to keep.\<close>

function trunc_seek :: "MemJournal \<Rightarrow> nat \<Rightarrow> int \<Rightarrow> int \<Rightarrow> nat option" where
  "trunc_seek p i iOff sz =
     (if i < length (pFirst p) \<and> iOff < sz then trunc_seek p (Suc i) (iOff + nChunkSize p) sz
      else chunk_ptr (pFirst p) i)"
  by pat_completeness auto
termination
  by (relation "measure (\<lambda>(p, i, _). length (pFirst p) - i)") auto

declare trunc_seek.simps [simp del]

definition memjrnlTruncate :: "MemJournal \<Rightarrow> int \<Rightarrow> MemJournal" where
  "memjrnlTruncate p sz =
     (if sz < iOffset (endpoint p) then
        (let (cs, ptr) =
           (if sz = 0 then ([], None)
            else case trunc_seek p 0 (nChunkSize p) sz of
                Some i \<Rightarrow> (take (Suc i) (pFirst p), Some i)
              | None \<Rightarrow> (pFirst p, None))
         in p\<lparr>pFirst := cs, endpoint := \<lparr> iOffset = sz, pChunk = ptr \<rparr>, readpoint := \<lparr> iOffset = 0, pChunk = None \<rparr>\<rparr>)
      else p)"

text \<open>A new chunk is linked after the chunk of the end point, or becomes the first.\<close>

definition link_chunk :: "MemJournal \<Rightarrow> bytes \<Rightarrow> MemJournal" where
  "link_chunk p new =
     (let cs = (case pChunk (endpoint p) of None \<Rightarrow> [new] | Some i \<Rightarrow> take (Suc i) (pFirst p) @ [new])
      in p\<lparr>pFirst := cs, endpoint := (endpoint p)\<lparr>pChunk := Some (length cs - 1)\<rparr>\<rparr>)"

text \<open>\<open>memcpy\<close> into the chunk of the end point, which moves on.\<close>

definition fill_chunk :: "MemJournal \<Rightarrow> int \<Rightarrow> bytes \<Rightarrow> MemJournal option" where
  "fill_chunk p off d =
     do { i \<leftarrow> pChunk (endpoint p);
          if i < length (pFirst p) then
            do { c \<leftarrow> poke (pFirst p ! i) off d;
                 Some (p\<lparr>pFirst := (pFirst p)[i := c], endpoint := (endpoint p)\<lparr>iOffset := iOffset (endpoint p) + int (length d)\<rparr>\<rparr>) }
          else None }"

function write_loop :: "(nat \<Rightarrow> nat \<Rightarrow> u8) \<Rightarrow> MemJournal \<Rightarrow> bytes \<Rightarrow> 'e world \<Rightarrow> (int \<times> MemJournal \<times> 'e world) option" where
  "write_loop raw p zWrite w =
     (if zWrite = [] then Some (SQLITE_OK, p, w)
      else if nChunkSize p \<le> 0 then None
      else
        (let iChunkOffset = iOffset (endpoint p) mod nChunkSize p;
             iSpace = min (int (length zWrite)) (nChunkSize p - iChunkOffset);
             k = w_nalloc w;
             (ok, w) = (if iChunkOffset = 0 then sqlite3Malloc (nChunkSize p + 8) w else (True, w))
         in if \<not> ok then Some (SQLITE_IOERR_NOMEM, p, w)
            else
              (let q = (if iChunkOffset = 0 then link_chunk p (map (raw k) [0..<nat (nChunkSize p)]) else p)
               in case fill_chunk q iChunkOffset (take (nat iSpace) zWrite) of
                    None \<Rightarrow> None
                  | Some q \<Rightarrow> write_loop raw q (drop (nat iSpace) zWrite) w)))"
  by pat_completeness auto
termination
proof (relation "measure (\<lambda>(raw, p, z, w). length z)", goal_cases)
  case (2 raw p zWrite w iChunkOffset iSpace k x ok w' q q')
  have "iChunkOffset < nChunkSize p" using 2 by simp
  then show ?case using 2 by (cases zWrite) auto
qed simp

declare write_loop.simps [simp del]

definition memjrnlWrite ::
    "'f vfs \<Rightarrow> (nat \<Rightarrow> nat \<Rightarrow> u8) \<Rightarrow> MemJournal \<Rightarrow> bytes \<Rightarrow> int \<Rightarrow> 'e world \<Rightarrow> 'f \<Rightarrow> (int \<times> journal \<times> 'e world \<times> 'f) option" where
  "memjrnlWrite v raw p zBuf iOfst w f =
     (if nSpill p > 0 \<and> int (length zBuf) + iOfst > nSpill p then
        do { (rc, j, f) \<leftarrow> memjrnlCreateFile v p f;
             if rc = SQLITE_OK then (let (rc, f) = xWrite v zBuf iOfst f in Some (rc, j, w, f)) else Some (rc, j, w, f) }
      else
        do { let p = (if iOfst > 0 \<and> iOfst \<noteq> iOffset (endpoint p) then memjrnlTruncate p iOfst else p);
             if iOfst = 0 \<and> pFirst p \<noteq> [] then
               do { c \<leftarrow> poke (hd (pFirst p)) 0 zBuf;
                    Some (SQLITE_OK, MemJournalMethods (p\<lparr>pFirst := c # tl (pFirst p)\<rparr>), w, f) }
             else do { (rc, p, w) \<leftarrow> write_loop raw p zBuf w; Some (rc, MemJournalMethods p, w, f) } })"

definition memjrnlFileSize :: "MemJournal \<Rightarrow> int \<times> int" where
  "memjrnlFileSize p = (SQLITE_OK, iOffset (endpoint p))"

section \<open>Opening\<close>

definition blank_journal :: MemJournal where
  "blank_journal = \<lparr> nChunkSize = 0, nSpill = 0, pFirst = [], endpoint = \<lparr> iOffset = 0, pChunk = None \<rparr>,
     readpoint = \<lparr> iOffset = 0, pChunk = None \<rparr>, flags = 0, zJournal = None \<rparr>"

definition sqlite3JournalOpen :: "'f vfs \<Rightarrow> bytes option \<Rightarrow> int \<Rightarrow> int \<Rightarrow> 'f \<Rightarrow> int \<times> journal \<times> 'f" where
  "sqlite3JournalOpen v zName fl spill f =
     (if spill = 0 then (let (rc, f) = xOpen v zName fl f in (rc, RealMethods, f))
      else (SQLITE_OK,
            MemJournalMethods (blank_journal\<lparr>nChunkSize := (if spill > 0 then spill else 8 + 1024 - 16),
                                             nSpill := spill, flags := fl, zJournal := zName\<rparr>), f))"

definition sqlite3JournalIsInMemory :: "journal \<Rightarrow> bool" where
  "sqlite3JournalIsInMemory j = (case j of MemJournalMethods _ \<Rightarrow> True | RealMethods \<Rightarrow> False)"

end
