(* ===== verification/Memjournal_Properties.thy ===== *)
theory Memjournal_Properties
  imports Memjournal Hashtab_Shape Bitvec_Properties
begin

text \<open>
  The in-memory journal is a file: what is read is what was written, through chunk boundaries, the cached
  read position and truncation; running out of memory loses nothing that was there; and the file it is
  spilled to receives exactly the bytes of the journal.
\<close>

section \<open>Lists of chunks\<close>

definition chunked :: "nat \<Rightarrow> bytes list \<Rightarrow> bool" where
  "chunked N cs \<longleftrightarrow> 0 < N \<and> (\<forall>c \<in> set cs. length c = N)"

lemma chunked_simps [simp]: "chunked N (c # cs) \<longleftrightarrow> length c = N \<and> chunked N cs" "chunked N (cs @ ds) \<longleftrightarrow> chunked N cs \<and> chunked N ds"
  by (auto simp: chunked_def)

lemma length_chunked: "chunked N cs \<Longrightarrow> length (concat cs) = N * length cs"
  by (induction cs) (auto simp: chunked_def)

lemma drop_chunked: "chunked N cs \<Longrightarrow> drop (i * N) (concat cs) = concat (drop i cs)"
proof (induction cs arbitrary: i)
  case (Cons c cs)
  then show ?case by (cases i) simp_all
qed simp

lemma take_chunked: "chunked N cs \<Longrightarrow> take (i * N) (concat cs) = concat (take i cs)"
proof (induction cs arbitrary: i)
  case (Cons c cs)
  then show ?case by (cases i) simp_all
qed simp

lemma chunked_drop: "chunked N cs \<Longrightarrow> chunked N (drop i cs)" "chunked N cs \<Longrightarrow> chunked N (take i cs)"
  by (auto simp: chunked_def dest: in_set_dropD in_set_takeD)

text \<open>A slice that starts in chunk \<open>i\<close>: the rest of this chunk, then the slice that starts with the next.\<close>

lemma slice_step:
  assumes "chunked N cs" "i < length cs" "off \<le> N"
  shows "take a (drop (i * N + off) (concat cs)) =
     take a (drop off (cs ! i)) @ take (a - (N - off)) (drop (Suc i * N) (concat cs))"
proof -
  have "drop (i * N + off) (concat cs) = drop off (concat (drop i cs))"
    using drop_chunked [OF assms(1), of i] by (metis add.commute drop_drop)
  also have "drop i cs = cs ! i # drop (Suc i) cs" using assms(2) by (simp add: Cons_nth_drop_Suc)
  moreover have "length (cs ! i) = N" using assms(1,2) by (simp add: chunked_def)
  ultimately show ?thesis using assms(3) drop_chunked [OF assms(1), of "Suc i"] by simp
qed

section \<open>The journal as a file\<close>

definition journal_ok :: "nat \<Rightarrow> MemJournal \<Rightarrow> bool" where
  "journal_ok N p \<longleftrightarrow>
     nChunkSize p = int N \<and> chunked N (pFirst p) \<and> 0 \<le> iOffset (endpoint p)
     \<and> nat (iOffset (endpoint p)) \<le> N * length (pFirst p) \<and> N * length (pFirst p) < nat (iOffset (endpoint p)) + N
     \<and> pChunk (endpoint p) = (if pFirst p = [] then None else Some (length (pFirst p) - 1))
     \<and> (iOffset (readpoint p) \<noteq> 0 \<longrightarrow> 0 < iOffset (readpoint p) \<and> pChunk (readpoint p) = Some (nat (iOffset (readpoint p)) div N))"

definition content :: "MemJournal \<Rightarrow> bytes" where
  "content p = take (nat (iOffset (endpoint p))) (concat (pFirst p))"

lemma length_content: "journal_ok N p \<Longrightarrow> int (length (content p)) = iOffset (endpoint p)"
  using length_chunked [of N "pFirst p"] by (auto simp: journal_ok_def content_def)

lemma read_seek_step: "i < length (pFirst p) \<Longrightarrow> iOff + nChunkSize p \<le> ofs \<Longrightarrow> read_seek p i iOff ofs = read_seek p (Suc i) (iOff + nChunkSize p) ofs"
  by (simp add: read_seek.simps [of p i])

lemma read_seek_stop: "\<not> iOff + nChunkSize p \<le> ofs \<Longrightarrow> read_seek p i iOff ofs = chunk_ptr (pFirst p) i"
  by (simp add: read_seek.simps [of p i])

lemma seek_spec:
  assumes "nChunkSize p = int N" "0 < N" "i * N \<le> ofs" "ofs < N * length (pFirst p)"
  shows "read_seek p i (int (i * N)) (int ofs) = Some (ofs div N)"
  using assms(3)
proof (induction "length (pFirst p) - i" arbitrary: i)
  case 0
  then have "N * length (pFirst p) \<le> i * N" by (simp add: mult.commute)
  with 0 assms(4) show ?case by simp
next
  case (Suc k)
  have i: "i < length (pFirst p)" using Suc.hyps(2) by simp
  have next_off: "int (i * N) + nChunkSize p = int (Suc i * N)" using assms(1) by simp
  show ?case
  proof (cases "Suc i * N \<le> ofs")
    case True
    then have "read_seek p i (int (i * N)) (int ofs) = read_seek p (Suc i) (int (Suc i * N)) (int ofs)"
      using read_seek_step [OF i, of "int (i * N)" "int ofs"] unfolding next_off by (simp del: of_nat_mult)
    moreover have "read_seek p (Suc i) (int (Suc i * N)) (int ofs) = Some (ofs div N)"
      by (rule Suc.hyps(1)) (use Suc.hyps(2) True in simp_all)
    ultimately show ?thesis by simp
  next
    case False
    then have "ofs div N = i" using Suc.prems by (intro div_nat_eqI) (simp_all add: mult.commute)
    moreover have "read_seek p i (int (i * N)) (int ofs) = chunk_ptr (pFirst p) i"
      by (rule read_seek_stop, unfold next_off) (use False in \<open>simp del: of_nat_mult\<close>)
    ultimately show ?thesis using i by (simp add: chunk_ptr_def)
  qed
qed

lemma read_loop_step:
  assumes "i < length (pFirst p)" "nChunkSize p - int off = int sp" "peek (pFirst p ! i) (int off) (int (min a sp)) = Some out"
  shows "read_loop p (Some i) (int a) (int off) =
     (if a < sp then Some (out, Some i)
      else if Suc i < length (pFirst p) \<and> sp < a
      then do { (rest, ptr) \<leftarrow> read_loop p (Some (Suc i)) (int (a - sp)) (int 0); Some (out @ rest, ptr) }
      else Some (out, chunk_ptr (pFirst p) (Suc i)))"
proof -
  have "min (int a) (int sp) = int (min a sp)" by simp
  moreover have "int a - int sp = int (a - sp)" if "\<not> a < sp" using that by simp
  ultimately show ?thesis using assms
    by (cases "a < sp") (auto simp: read_loop.simps [of p "Some i"] Let_def chunk_ptr_def)
qed

lemma read_loop_spec:
  assumes "nChunkSize p = int N" "chunked N (pFirst p)" "i < length (pFirst p)" "off < N" "0 < a"
    "i * N + off + a \<le> N * length (pFirst p)"
  shows "read_loop p (Some i) (int a) (int off) =
     Some (take a (drop (i * N + off) (concat (pFirst p))), chunk_ptr (pFirst p) ((i * N + off + a) div N))"
  using assms(3-6)
proof (induction "length (pFirst p) - i" arbitrary: i off a)
  case (Suc k)
  let ?cs = "pFirst p" and ?out = "take a (drop off (pFirst p ! i))"
  have N: "0 < N" and c: "length (?cs ! i) = N" using assms(2) Suc.prems(1) by (simp_all add: chunked_def)
  have "peek (?cs ! i) (int off) (int (min a (N - off))) = Some ?out"
    using c Suc.prems(2) by (auto simp: peek_def min_def)
  then have step: "read_loop p (Some i) (int a) (int off) =
     (if a < N - off then Some (?out, Some i)
      else if Suc i < length ?cs \<and> N - off < a
      then do { (rest, ptr) \<leftarrow> read_loop p (Some (Suc i)) (int (a - (N - off))) (int 0); Some (?out @ rest, ptr) }
      else Some (?out, chunk_ptr ?cs (Suc i)))"
    using read_loop_step [OF Suc.prems(1)] assms(1) Suc.prems(2) by simp
  have slice: "take a (drop (i * N + off) (concat ?cs)) = ?out @ take (a - (N - off)) (drop (Suc i * N) (concat ?cs))"
    using slice_step [OF assms(2) Suc.prems(1)] Suc.prems(2) by simp
  consider (inside) "a < N - off" | (on) "Suc i < length ?cs" "N - off < a" | (full) "a = N - off"
  proof -
    have "a \<le> N - off" if "\<not> Suc i < length ?cs"
    proof -
      have "length ?cs = Suc i" using that Suc.prems(1) by simp
      then show ?thesis using Suc.prems(2,4) by (simp add: mult.commute)
    qed
    then show thesis using that by linarith
  qed
  then show ?case
  proof cases
    case inside
    then have "(i * N + off + a) div N = i" by (intro div_nat_eqI) (simp_all add: mult.commute)
    then show ?thesis using inside slice Suc.prems(1) unfolding step by (simp add: chunk_ptr_def)
  next
    case on
    have idx: "i * N + off + a = Suc i * N + 0 + (a - (N - off))" using on(2) Suc.prems(2) by simp
    have "read_loop p (Some (Suc i)) (int (a - (N - off))) (int 0) =
        Some (take (a - (N - off)) (drop (Suc i * N + 0) (concat ?cs)), chunk_ptr ?cs ((Suc i * N + 0 + (a - (N - off))) div N))"
      by (rule Suc.hyps(1)) (use Suc.hyps(2) on N idx Suc.prems(4) in simp_all)
    then show ?thesis using on slice unfolding step idx by simp
  next
    case full
    have "i * N + off + a = Suc i * N" using full Suc.prems(2) by simp
    then have "(i * N + off + a) div N = Suc i" using N by (metis nonzero_mult_div_cancel_right not_gr_zero)
    then show ?thesis using full slice unfolding step by simp
  qed
qed simp

lemma concat_prefix: "e \<le> N * length cs \<Longrightarrow> chunked N cs \<Longrightarrow> off + a \<le> e \<Longrightarrow>
    take a (drop off (take e (concat cs))) = take a (drop off (concat cs))"
  by (simp add: drop_take min_absorb1)

lemma memjrnlRead_spec:
  assumes "journal_ok N p" "0 < a" "off + a \<le> length (content p)"
  shows "\<exists>p'. memjrnlRead p (int a) (int off) = Some (0, take a (drop off (content p)), p')
     \<and> journal_ok N p' \<and> content p' = content p \<and> nSpill p' = nSpill p"
proof -
  define e where "e = nat (iOffset (endpoint p))"
  have p: "nChunkSize p = int N" "chunked N (pFirst p)" "iOffset (endpoint p) = int e" "e \<le> N * length (pFirst p)" and N: "0 < N"
    using assms(1) by (auto simp: journal_ok_def e_def chunked_def)
  have e: "off + a \<le> e" using assms(3) p(3) length_content [OF assms(1)] by simp
  have ofs: "off < N * length (pFirst p)" using e p(4) assms(2) by simp
  have ptr: "(if iOffset (readpoint p) \<noteq> int off \<or> int off = 0 then read_seek p 0 0 (int off) else pChunk (readpoint p)) = Some (off div N)"
  proof (cases "iOffset (readpoint p) \<noteq> int off \<or> int off = 0")
    case True
    then show ?thesis using seek_spec [OF p(1) N, of 0 off] ofs by simp
  next
    case False
    then show ?thesis using assms(1) by (auto simp: journal_ok_def)
  qed
  have i: "off div N < length (pFirst p)" using ofs by (simp add: less_mult_imp_div_less mult.commute)
  have "off div N * N + off mod N + a \<le> N * length (pFirst p)" using e p(4) by simp
  from read_loop_spec [OF p(1,2) i _ assms(2) this] N
  have loop: "read_loop p (Some (off div N)) (int a) (int off mod int N) =
      Some (take a (drop off (concat (pFirst p))), chunk_ptr (pFirst p) ((off + a) div N))"
    by (simp flip: zmod_int)
  let ?p = "p\<lparr>readpoint := \<lparr> iOffset = (if chunk_ptr (pFirst p) ((off + a) div N) \<noteq> None then int off + int a else 0),
               pChunk = chunk_ptr (pFirst p) ((off + a) div N) \<rparr>\<rparr>"
  have "memjrnlRead p (int a) (int off) = Some (0, take a (drop off (concat (pFirst p))), ?p)"
    unfolding memjrnlRead_def Let_def ptr using loop p(1,3) N e by simp
  moreover have "take a (drop off (content p)) = take a (drop off (concat (pFirst p)))"
    unfolding content_def p(3) using concat_prefix [OF p(4,2) e] by simp
  moreover have "journal_ok N ?p" using assms(1,2) by (simp add: journal_ok_def chunk_ptr_def nat_add_distrib)
  ultimately show ?thesis by (intro exI [of _ ?p]) (simp add: content_def)
qed

lemma memjrnlRead_short:
  assumes "journal_ok N p" "length (content p) < off + a"
  shows "memjrnlRead p (int a) (int off) = Some (522, [], p)"
  using assms(2) length_content [OF assms(1)] by (simp add: memjrnlRead_def)

section \<open>Truncating\<close>

lemma trunc_seek_step: "i < length (pFirst p) \<Longrightarrow> iOff < sz \<Longrightarrow> trunc_seek p i iOff sz = trunc_seek p (Suc i) (iOff + nChunkSize p) sz"
  by (simp add: trunc_seek.simps [of p i])

lemma trunc_seek_stop: "\<not> iOff < sz \<Longrightarrow> trunc_seek p i iOff sz = chunk_ptr (pFirst p) i"
  by (simp add: trunc_seek.simps [of p i])

lemma trunc_seek_spec:
  assumes "nChunkSize p = int N" "0 < N" "i * N < sz" "sz \<le> N * length (pFirst p)"
  shows "trunc_seek p i (int (Suc i * N)) (int sz) = Some ((sz - 1) div N)"
  using assms(3)
proof (induction "length (pFirst p) - i" arbitrary: i)
  case 0
  then have "N * length (pFirst p) \<le> i * N" by (simp add: mult.commute)
  with 0 assms(4) show ?case by simp
next
  case (Suc k)
  have i: "i < length (pFirst p)" using Suc.hyps(2) by simp
  have next_off: "int (Suc i * N) + nChunkSize p = int (Suc (Suc i) * N)" using assms(1) by simp
  show ?case
  proof (cases "Suc i * N < sz")
    case True
    then have "trunc_seek p i (int (Suc i * N)) (int sz) = trunc_seek p (Suc i) (int (Suc (Suc i) * N)) (int sz)"
      using trunc_seek_step [OF i, of "int (Suc i * N)" "int sz"] unfolding next_off by (simp del: of_nat_mult)
    moreover have "trunc_seek p (Suc i) (int (Suc (Suc i) * N)) (int sz) = Some ((sz - 1) div N)"
      by (rule Suc.hyps(1)) (use Suc.hyps(2) True in simp_all)
    ultimately show ?thesis by simp
  next
    case False
    have "(sz - 1) div N = i" by (rule div_nat_eqI) (use False Suc.prems in \<open>simp_all add: mult.commute\<close>)
    moreover have "trunc_seek p i (int (Suc i * N)) (int sz) = chunk_ptr (pFirst p) i"
      by (rule trunc_seek_stop) (use False in \<open>simp del: of_nat_mult\<close>)
    ultimately show ?thesis using i by (simp add: chunk_ptr_def)
  qed
qed

lemma memjrnlTruncate_spec:
  assumes "journal_ok N p"
  shows "journal_ok N (memjrnlTruncate p (int sz))" "content (memjrnlTruncate p (int sz)) = take sz (content p)"
    "nSpill (memjrnlTruncate p (int sz)) = nSpill p"
proof -
  define e where "e = nat (iOffset (endpoint p))"
  have p: "nChunkSize p = int N" "chunked N (pFirst p)" "iOffset (endpoint p) = int e" "e \<le> N * length (pFirst p)" and N: "0 < N"
    using assms by (auto simp: journal_ok_def e_def chunked_def)
  have "journal_ok N (memjrnlTruncate p (int sz)) \<and> content (memjrnlTruncate p (int sz)) = take sz (content p)
      \<and> nSpill (memjrnlTruncate p (int sz)) = nSpill p"
  proof (cases "0 < sz \<and> sz < e")
    case True
    define i where "i = (sz - 1) div N"
    have "trunc_seek p 0 (nChunkSize p) (int sz) = Some i"
      using trunc_seek_spec [OF p(1) N, of 0 sz] True p(1,4) by (simp add: i_def)
    then have t: "memjrnlTruncate p (int sz) = p\<lparr>pFirst := take (Suc i) (pFirst p), endpoint := \<lparr> iOffset = int sz, pChunk = Some i \<rparr>,
        readpoint := \<lparr> iOffset = 0, pChunk = None \<rparr>\<rparr>"
      using True p(3) by (simp add: memjrnlTruncate_def)
    have "N * i \<le> sz - 1" "sz - 1 < N * i + N" using dividend_less_times_div [OF N, of "sz - 1"] by (simp_all add: i_def)
    then have sz: "N * i < sz" "sz \<le> N * Suc i" using True by auto
    have "N * i < N * length (pFirst p)" using sz(1) True p(4) by linarith
    then have i: "i < length (pFirst p)" by simp
    then have len: "length (take (Suc i) (pFirst p)) = Suc i" by simp
    have "journal_ok N (memjrnlTruncate p (int sz))"
      using p(1) chunked_drop(2) [OF p(2)] sz len i unfolding t by (auto simp: journal_ok_def)
    moreover have "take sz (concat (take (Suc i) (pFirst p))) = take sz (take (Suc i * N) (concat (pFirst p)))"
      by (simp only: take_chunked [OF p(2)])
    then have "content (memjrnlTruncate p (int sz)) = take sz (content p)"
      using sz(2) True p(3) unfolding t by (simp add: content_def min_absorb1 mult.commute)
    ultimately show ?thesis unfolding t by simp
  next
    case False
    show ?thesis
    proof (cases "sz = 0 \<and> sz < e")
      case True
      then show ?thesis using p(1,3) N by (simp add: memjrnlTruncate_def journal_ok_def content_def chunked_def)
    next
      case none: False
      then have "e \<le> sz" using False by auto
      then have "memjrnlTruncate p (int sz) = p" "take sz (content p) = content p"
        using p(3) by (simp_all add: memjrnlTruncate_def content_def min_absorb1)
      then show ?thesis using assms by simp
    qed
  qed
  then show "journal_ok N (memjrnlTruncate p (int sz))" "content (memjrnlTruncate p (int sz)) = take sz (content p)"
    "nSpill (memjrnlTruncate p (int sz)) = nSpill p" by simp_all
qed

section \<open>Writing\<close>

text \<open>The state between linking a new chunk and filling it: the end may be at the start of the last chunk.\<close>

definition filling :: "nat \<Rightarrow> MemJournal \<Rightarrow> bool" where
  "filling N p \<longleftrightarrow>
     nChunkSize p = int N \<and> chunked N (pFirst p) \<and> pFirst p \<noteq> [] \<and> pChunk (endpoint p) = Some (length (pFirst p) - 1)
     \<and> 0 \<le> iOffset (endpoint p) \<and> N * (length (pFirst p) - 1) \<le> nat (iOffset (endpoint p))
     \<and> nat (iOffset (endpoint p)) < N * length (pFirst p)
     \<and> (iOffset (readpoint p) \<noteq> 0 \<longrightarrow> 0 < iOffset (readpoint p) \<and> pChunk (readpoint p) = Some (nat (iOffset (readpoint p)) div N))"

lemma filling_offset:
  assumes "filling N p"
  obtains cs c off where "pFirst p = cs @ [c]" "length c = N" "iOffset (endpoint p) = int (N * length cs + off)" "off < N"
    "iOffset (endpoint p) mod nChunkSize p = int off" "pChunk (endpoint p) = Some (length cs)" "chunked N cs"
proof -
  obtain cs c where cs: "pFirst p = cs @ [c]" using assms by (cases "pFirst p" rule: rev_cases) (auto simp: filling_def)
  define off where "off = nat (iOffset (endpoint p)) - N * length cs"
  have "N * length cs \<le> nat (iOffset (endpoint p))" "nat (iOffset (endpoint p)) < N * length cs + N" "0 \<le> iOffset (endpoint p)"
    using assms cs by (simp_all add: filling_def)
  then have "iOffset (endpoint p) = int (N * length cs + off)" "off < N" by (simp_all add: off_def)
  moreover from this have "iOffset (endpoint p) mod nChunkSize p = int off" using assms by (simp add: filling_def)
  ultimately show ?thesis using that [of cs c off] assms cs by (simp add: filling_def)
qed

lemma fill_chunk_spec:
  assumes "filling N p" "d \<noteq> []" "iOffset (endpoint p) mod int N + int (length d) \<le> int N"
  shows "\<exists>q. fill_chunk p (iOffset (endpoint p) mod int N) d = Some q \<and> journal_ok N q
     \<and> content q = content p @ d \<and> nSpill q = nSpill p"
proof -
  obtain cs c off where p: "pFirst p = cs @ [c]" "length c = N" "iOffset (endpoint p) = int (N * length cs + off)" "off < N"
    "iOffset (endpoint p) mod nChunkSize p = int off" "pChunk (endpoint p) = Some (length cs)" "chunked N cs"
    using filling_offset [OF assms(1)] .
  have n: "nChunkSize p = int N" using assms(1) by (simp add: filling_def)
  have d: "off + length d \<le> N" using assms(3) p(5) n by simp
  let ?c = "take off c @ d @ drop (off + length d) c"
  have "poke c (int off) d = Some ?c" using d p(2) by (simp add: poke_def)
  let ?q = "p\<lparr>pFirst := cs @ [?c], endpoint := (endpoint p)\<lparr>iOffset := iOffset (endpoint p) + int (length d)\<rparr>\<rparr>"
  have "fill_chunk p (iOffset (endpoint p) mod int N) d = Some ?q"
    using p(1,5,6) n \<open>poke c (int off) d = Some ?c\<close> by (simp add: fill_chunk_def)
  moreover have e: "nat (iOffset (endpoint p)) = N * length cs + off" "nat (iOffset (endpoint p) + int (length d)) = N * length cs + off + length d"
    using p(3) by (simp_all del: of_nat_mult of_nat_add add: nat_add_distrib)
  have "length ?c = N" using d p(2) by simp
  moreover have "0 < length d" using assms(2) by simp
  ultimately have "journal_ok N ?q"
    using assms(1) p(1,3,4,6,7) d n e(2) by (simp add: journal_ok_def filling_def)
  moreover have "content ?q = content p @ d"
  proof -
    have l: "length (concat cs) = N * length cs" by (rule length_chunked [OF p(7)])
    have "content p = concat cs @ take off c" using p(1) l by (simp add: content_def e(1))
    moreover have "content ?q = concat cs @ take (off + length d) ?c" using l by (simp add: content_def e(2) del: take_append) (simp add: l)
    moreover have "take (off + length d) ?c = take off c @ d" using p(2,4) by simp
    ultimately show ?thesis by simp
  qed
  ultimately show ?thesis using \<open>fill_chunk p (iOffset (endpoint p) mod int N) d = Some ?q\<close> by (intro exI [of _ ?q]) simp
qed

lemma link_chunk_spec:
  assumes "journal_ok N p" "iOffset (endpoint p) mod int N = 0" "length new = N"
  shows "filling N (link_chunk p new)" "content (link_chunk p new) = content p" "endpoint (link_chunk p new) = (endpoint p)\<lparr>pChunk := Some (length (pFirst p))\<rparr>"
    "nSpill (link_chunk p new) = nSpill p"
proof -
  define e where "e = nat (iOffset (endpoint p))"
  have p: "nChunkSize p = int N" "chunked N (pFirst p)" "iOffset (endpoint p) = int e" "e \<le> N * length (pFirst p)" "N * length (pFirst p) < e + N" and N: "0 < N"
    using assms(1) by (auto simp: journal_ok_def e_def chunked_def)
  have "int (e mod N) = 0" using assms(2) p(3) by (simp add: zmod_int)
  then have "N dvd e" by (simp add: dvd_eq_mod_eq_0)
  then obtain k where "e = N * k" by (elim dvdE)
  then have "N * k \<le> N * length (pFirst p)" "N * length (pFirst p) < N * Suc k" using p(4,5) by simp_all
  then have "k = length (pFirst p)" using N by (simp only: mult_le_cancel1 mult_less_cancel1) simp
  then have e: "e = N * length (pFirst p)" using \<open>e = N * k\<close> by simp
  have l: "link_chunk p new = p\<lparr>pFirst := pFirst p @ [new], endpoint := (endpoint p)\<lparr>pChunk := Some (length (pFirst p))\<rparr>\<rparr>"
    using assms(1) by (cases "pFirst p") (simp_all add: link_chunk_def journal_ok_def Let_def)
  show "filling N (link_chunk p new)"
  proof -
    have "nat (iOffset (endpoint p)) = N * length (pFirst p)" using p(3) e by (simp del: of_nat_mult)
    then show ?thesis using assms(1,3) N unfolding l by (simp add: journal_ok_def filling_def chunked_def)
  qed
  show "content (link_chunk p new) = content p"
    using length_chunked [OF p(2)] e p(3) unfolding l by (simp add: content_def del: of_nat_mult)
  show "endpoint (link_chunk p new) = (endpoint p)\<lparr>pChunk := Some (length (pFirst p))\<rparr>" "nSpill (link_chunk p new) = nSpill p"
    unfolding l by simp_all
qed

lemma ok_filling:
  assumes "journal_ok N p" "iOffset (endpoint p) mod int N \<noteq> 0"
  shows "filling N p"
proof -
  have ne: "pFirst p \<noteq> []" using assms by (auto simp: journal_ok_def)
  have "iOffset (endpoint p) \<noteq> int (N * length (pFirst p))" using assms(2) by auto
  then have "nat (iOffset (endpoint p)) \<noteq> N * length (pFirst p)" using assms(1) by (auto simp: journal_ok_def simp del: of_nat_mult)
  moreover have "N * (length (pFirst p) - 1) = N * length (pFirst p) - N" by (simp add: diff_mult_distrib2)
  ultimately show ?thesis using assms(1) ne by (auto simp: journal_ok_def filling_def)
qed

text \<open>Chunks that the allocator can give.\<close>

definition allocatable :: "nat \<Rightarrow> bool" where
  "allocatable N \<longleftrightarrow> N \<le> 2147483383"

text \<open>One round of the loop: the next bytes are appended, or there is no memory for a chunk.\<close>

lemma write_loop_step:
  assumes "journal_ok N p" "z \<noteq> []"
  shows "\<exists>k q w1. 0 < k \<and> journal_ok N q \<and> content q = content p @ take k z \<and> nSpill q = nSpill p \<and> later w w1
     \<and> (write_loop raw p z w = write_loop raw q (drop k z) w1
        \<or> write_loop raw p z w = Some (3082, p, w1) \<and> \<not> (allocatable N \<and> memory_lasts w))"
proof -
  have n: "nChunkSize p = int N" "0 < N" using assms(1) by (auto simp: journal_ok_def chunked_def)
  let ?o = "iOffset (endpoint p) mod int N"
  define k where "k = nat (min (int (length z)) (int N - ?o))"
  have o: "0 \<le> ?o" "?o < int N" using n(2) by simp_all
  have z: "0 < int (length z)" using assms(2) by simp
  have ik: "int k = min (int (length z)) (int N - ?o)" using o z by (simp add: k_def)
  have "0 < int k" unfolding ik using o z by simp
  then have k0: "0 < k" by simp
  have "int k \<le> int N - ?o" unfolding ik by simp
  then have k: "0 < k" "?o + int (length (take k z)) \<le> int N" using k0 by auto
  then have kz: "take k z \<noteq> []" using assms(2) by simp
  let ?q = "if ?o = 0 then link_chunk p (map (raw (w_nalloc w)) [0..<N]) else p"
  have filling: "filling N ?q" "content ?q = content p" "nSpill ?q = nSpill p" "iOffset (endpoint ?q) = iOffset (endpoint p)"
    using link_chunk_spec [OF assms(1), of "map (raw (w_nalloc w)) [0..<N]"] ok_filling [OF assms(1)] by auto
  from fill_chunk_spec [OF filling(1) kz] k(2) filling obtain q where
    q: "fill_chunk ?q ?o (take k z) = Some q" "journal_ok N q" "content q = content p @ take k z" "nSpill q = nSpill p"
    by (auto split del: if_split)
  obtain ok w1 where m: "(if ?o = 0 then sqlite3Malloc (int N + 8) w else (True, w)) = (ok, w1)" by fastforce
  have later: "later w w1" using m sqlite3Malloc_later by (auto split: if_splits)
  have loop: "write_loop raw p z w = (if \<not> ok then Some (3082, p, w1) else write_loop raw q (drop k z) w1)"
    using assms(2) n(2) q(1) unfolding write_loop.simps [of raw p z] Let_def n(1) m prod.case nat_int k_def [symmetric] by simp
  show ?thesis
  proof (cases ok)
    case True
    then show ?thesis using k(1) q loop later by (intro exI [of _ k] exI [of _ q] exI [of _ w1]) simp
  next
    case False
    then have "\<not> (allocatable N \<and> memory_lasts w)"
      using m by (auto simp: sqlite3Malloc_def sqlcipher_mem_malloc_def memory_lasts_def allocatable_def split: if_splits)
    then show ?thesis using k(1) q loop later False by (intro exI [of _ k] exI [of _ q] exI [of _ w1]) simp
  qed
qed

lemma memory_lasts_later: "later w w' \<Longrightarrow> memory_lasts w' = memory_lasts w"
  by (simp add: later_def memory_lasts_def)

lemma write_loop_Nil: "write_loop raw p [] w = Some (0, p, w)"
  by (subst write_loop.simps) simp

lemma write_loop_spec:
  assumes "journal_ok N p"
  shows "\<exists>rc p' w' k. write_loop raw p z w = Some (rc, p', w') \<and> journal_ok N p' \<and> content p' = content p @ take k z
     \<and> nSpill p' = nSpill p \<and> later w w' \<and> (rc = 0 \<and> length z \<le> k \<or> rc = 3082 \<and> \<not> (allocatable N \<and> memory_lasts w))"
  using assms
proof (induction "length z" arbitrary: p z w rule: less_induct)
  case less
  show ?case
  proof (cases "z = []")
    case True
    then show ?thesis using less.prems write_loop_Nil by (intro exI [of _ 0] exI [of _ p] exI [of _ w] exI [of _ 0]) simp
  next
    case False
    from write_loop_step [OF less.prems False, of w raw] obtain k q w1 where
      k: "0 < k" "journal_ok N q" "content q = content p @ take k z" "nSpill q = nSpill p" "later w w1"
        "write_loop raw p z w = write_loop raw q (drop k z) w1
          \<or> write_loop raw p z w = Some (3082, p, w1) \<and> \<not> (allocatable N \<and> memory_lasts w)" by blast
    from k(6) show ?thesis
    proof
      assume step: "write_loop raw p z w = write_loop raw q (drop k z) w1"
      have "length (drop k z) < length z" using k(1) False by simp
      from less.hyps [OF this k(2), of w1] obtain rc p' w' j where
        r: "write_loop raw q (drop k z) w1 = Some (rc, p', w')" "journal_ok N p'" "content p' = content q @ take j (drop k z)"
          "nSpill p' = nSpill q" "later w1 w'" "rc = 0 \<and> length (drop k z) \<le> j \<or> rc = 3082 \<and> \<not> (allocatable N \<and> memory_lasts w1)" by blast
      have "take k z @ take j (drop k z) = take (k + j) z" by (simp add: take_add)
      moreover have "memory_lasts w1 = memory_lasts w" by (rule memory_lasts_later [OF k(5)])
      ultimately show ?thesis using step r k(3,4) later_trans [OF k(5) r(5)]
        by (intro exI [of _ rc] exI [of _ p'] exI [of _ w'] exI [of _ "k + j"]) auto
    next
      assume "write_loop raw p z w = Some (3082, p, w1) \<and> \<not> (allocatable N \<and> memory_lasts w)"
      then show ?thesis using less.prems k(5) by (intro exI [of _ 3082] exI [of _ p] exI [of _ w1] exI [of _ 0]) simp
    qed
  qed
qed

text \<open>A write to a file: at the start of a file that is not empty the bytes there are replaced; elsewhere the file is cut off first.\<close>

definition file_write :: "bytes \<Rightarrow> nat \<Rightarrow> bytes \<Rightarrow> bytes" where
  "file_write f off d = (if off = 0 \<and> f \<noteq> [] then take (length f) (d @ drop (length d) f) else take off f @ d)"

definition write_ok :: "nat \<Rightarrow> bytes \<Rightarrow> nat \<Rightarrow> bytes \<Rightarrow> bool" where
  "write_ok N f off d \<longleftrightarrow> off \<le> length f \<and> (off = 0 \<and> f \<noteq> [] \<longrightarrow> length d \<le> N)"

lemma content_empty: "journal_ok N p \<Longrightarrow> pFirst p = [] \<longleftrightarrow> content p = []"
proof -
  assume ok: "journal_ok N p"
  have "iOffset (endpoint p) > 0" if "pFirst p \<noteq> []"
  proof -
    obtain b cs where "pFirst p = b # cs" using \<open>pFirst p \<noteq> []\<close> by (auto simp: neq_Nil_conv)
    then have "N * length cs < nat (iOffset (endpoint p))" using ok by (simp add: journal_ok_def)
    then show ?thesis by simp
  qed
  then have "0 < length (content p)" if "pFirst p \<noteq> []" using length_content [OF ok] that by linarith
  moreover have "content p = []" if "pFirst p = []" using that by (simp add: content_def)
  ultimately show ?thesis by fastforce
qed

lemma take_overwrite: "take e (d @ drop (length d) (take e X)) = take e (d @ drop (length d) X)"
  by (simp add: drop_take)

lemma overwrite_spec:
  assumes "journal_ok N p" "pFirst p \<noteq> []" "length d \<le> N"
  shows "\<exists>c. poke (hd (pFirst p)) 0 d = Some c \<and> journal_ok N (p\<lparr>pFirst := c # tl (pFirst p)\<rparr>)
     \<and> content (p\<lparr>pFirst := c # tl (pFirst p)\<rparr>) = file_write (content p) 0 d"
proof -
  obtain b cs where cs: "pFirst p = b # cs" using assms(2) by (cases "pFirst p") auto
  have b: "length b = N" using assms(1) cs by (simp add: journal_ok_def)
  let ?c = "d @ drop (length d) b"
  have "poke b 0 d = Some ?c" using b assms(3) by (simp add: poke_def)
  moreover have "journal_ok N (p\<lparr>pFirst := ?c # cs\<rparr>)" using assms(1,3) cs b by (simp add: journal_ok_def)
  moreover have "content (p\<lparr>pFirst := ?c # cs\<rparr>) = file_write (content p) 0 d"
  proof -
    let ?e = "nat (iOffset (endpoint p))"
    have e: "length (content p) = ?e" using length_content [OF assms(1)] by simp
    have "content p \<noteq> []" using content_empty [OF assms(1)] assms(2) by simp
    then have "file_write (content p) 0 d = take ?e (d @ drop (length d) (content p))"
      using e by (simp add: file_write_def)
    also have "\<dots> = take ?e (d @ drop (length d) (take ?e (b @ concat cs)))" using cs by (simp add: content_def)
    also have "take ?e (d @ drop (length d) (take ?e (b @ concat cs))) = take ?e (d @ drop (length d) (b @ concat cs))"
      by (rule take_overwrite)
    also have "\<dots> = take ?e (?c @ concat cs)" using b assms(3) by simp
    finally have "file_write (content p) 0 d = take ?e (concat (?c # cs))" by simp
    moreover have "content (p\<lparr>pFirst := X\<rparr>) = take ?e (concat X)" for X by (simp add: content_def)
    ultimately show ?thesis by metis
  qed
  ultimately show ?thesis using cs by auto
qed

lemma memjrnlWrite_spec:
  assumes "journal_ok N p" "nSpill p \<le> 0" "write_ok N (content p) off d"
  shows "\<exists>rc p' w' k. memjrnlWrite v raw p d (int off) w f = Some (rc, MemJournalMethods p', w', f) \<and> journal_ok N p'
     \<and> nSpill p' = nSpill p \<and> content p' = file_write (content p) off (take k d) \<and> later w w'
     \<and> (rc = 0 \<and> length d \<le> k \<or> rc = 3082 \<and> \<not> (allocatable N \<and> memory_lasts w))"
proof (cases "off = 0 \<and> content p \<noteq> []")
  case True
  then have "pFirst p \<noteq> []" "length d \<le> N" using content_empty [OF assms(1)] assms(3) by (simp_all add: write_ok_def)
  from overwrite_spec [OF assms(1) this] obtain c where
    c: "poke (hd (pFirst p)) 0 d = Some c" "journal_ok N (p\<lparr>pFirst := c # tl (pFirst p)\<rparr>)"
      "content (p\<lparr>pFirst := c # tl (pFirst p)\<rparr>) = file_write (content p) 0 d" by blast
  then show ?thesis using True \<open>pFirst p \<noteq> []\<close> assms(2)
    by (intro exI [of _ 0] exI [of _ "p\<lparr>pFirst := c # tl (pFirst p)\<rparr>"] exI [of _ w] exI [of _ "length d"])
      (simp add: memjrnlWrite_def)
next
  case False
  define q where "q = (if int off > 0 \<and> int off \<noteq> iOffset (endpoint p) then memjrnlTruncate p (int off) else p)"
  have t: "journal_ok N q" "content q = take off (content p)" "nSpill q = nSpill p"
    using memjrnlTruncate_spec [OF assms(1), of off] assms(1) length_content [OF assms(1)] False by (auto simp: q_def)
  from write_loop_spec [OF t(1), of raw d w] obtain rc p' w' k where
    r: "write_loop raw q d w = Some (rc, p', w')" "journal_ok N p'" "content p' = content q @ take k d" "nSpill p' = nSpill q" "later w w'"
      "rc = 0 \<and> length d \<le> k \<or> rc = 3082 \<and> \<not> (allocatable N \<and> memory_lasts w)" by blast
  have start: "\<not> (int off = 0 \<and> pFirst q \<noteq> [])" using False content_empty [OF assms(1)] by (auto simp: q_def)
  have spill: "\<not> (nSpill p > 0 \<and> int (length d) + int off > nSpill p)" using assms(2) by simp
  have "memjrnlWrite v raw p d (int off) w f = Some (rc, MemJournalMethods p', w', f)"
    unfolding memjrnlWrite_def Let_def q_def [symmetric] if_not_P [OF spill] if_not_P [OF start] using r(1) by simp
  moreover have "file_write (content p) off (take k d) = take off (content p) @ take k d" using False by (auto simp: file_write_def)
  ultimately show ?thesis using r t by (intro exI [of _ rc] exI [of _ p'] exI [of _ w'] exI [of _ k]) simp
qed

section \<open>The interface: a file that is read, written and truncated\<close>

datatype file_op = Write bytes nat | Truncate nat | Read nat nat

fun ops_ok :: "nat \<Rightarrow> file_op list \<Rightarrow> bytes \<Rightarrow> bool" where
  "ops_ok N [] f \<longleftrightarrow> True"
| "ops_ok N (Write d off # ops) f \<longleftrightarrow> write_ok N f off d \<and> ops_ok N ops (file_write f off d)"
| "ops_ok N (Truncate n # ops) f \<longleftrightarrow> ops_ok N ops (take n f)"
| "ops_ok N (Read a off # ops) f \<longleftrightarrow> 0 < a \<and> ops_ok N ops f"

text \<open>The results of the reads and the final file.\<close>

fun file_results :: "file_op list \<Rightarrow> bytes \<Rightarrow> (int \<times> bytes) list \<times> bytes" where
  "file_results [] f = ([], f)"
| "file_results (Write d off # ops) f = file_results ops (file_write f off d)"
| "file_results (Truncate n # ops) f = file_results ops (take n f)"
| "file_results (Read a off # ops) f =
     (let (rs, f') = file_results ops f
      in ((if off + a \<le> length f then (0, take a (drop off f)) else (522, [])) # rs, f'))"

fun run_file_ops ::
    "('s \<Rightarrow> int \<Rightarrow> int \<Rightarrow> (int \<times> bytes \<times> 's) option) \<Rightarrow> ('s \<Rightarrow> bytes \<Rightarrow> int \<Rightarrow> 'w \<Rightarrow> (int \<times> 's \<times> 'w) option) \<Rightarrow>
     ('s \<Rightarrow> int \<Rightarrow> 's) \<Rightarrow> file_op list \<Rightarrow> 's \<Rightarrow> 'w \<Rightarrow> ((int \<times> bytes) list \<times> 's \<times> 'w) option" where
  "run_file_ops rd wr tr [] s w = Some ([], s, w)"
| "run_file_ops rd wr tr (Write d off # ops) s w =
     do { (rc, s, w) \<leftarrow> wr s d (int off) w; if rc \<noteq> 0 then None else run_file_ops rd wr tr ops s w }"
| "run_file_ops rd wr tr (Truncate n # ops) s w = run_file_ops rd wr tr ops (tr s (int n)) w"
| "run_file_ops rd wr tr (Read a off # ops) s w =
     do { (rc, d, s) \<leftarrow> rd s (int a) (int off); (rs, s, w) \<leftarrow> run_file_ops rd wr tr ops s w; Some ((rc, d) # rs, s, w) }"

locale byte_file =
  fixes rep :: "'s \<Rightarrow> bytes \<Rightarrow> bool"
    and rd :: "'s \<Rightarrow> int \<Rightarrow> int \<Rightarrow> (int \<times> bytes \<times> 's) option"
    and wr :: "'s \<Rightarrow> bytes \<Rightarrow> int \<Rightarrow> 'w \<Rightarrow> (int \<times> 's \<times> 'w) option"
    and tr :: "'s \<Rightarrow> int \<Rightarrow> 's"
    and limit :: nat
    and healthy :: "'w \<Rightarrow> bool"
  assumes read_rep: "rep s f \<Longrightarrow> 0 < a \<Longrightarrow>
      \<exists>s'. (if off + a \<le> length f then rd s (int a) (int off) = Some (0, take a (drop off f), s')
            else rd s (int a) (int off) = Some (522, [], s')) \<and> rep s' f"
    and write_rep: "rep s f \<Longrightarrow> write_ok limit f off d \<Longrightarrow> healthy w \<Longrightarrow>
      \<exists>s' w'. wr s d (int off) w = Some (0, s', w') \<and> rep s' (file_write f off d) \<and> healthy w'"
    and trunc_rep: "rep s f \<Longrightarrow> rep (tr s (int n)) (take n f)"
begin

lemma run_file_ops_results:
  assumes "rep s f" "ops_ok limit ops f" "healthy w"
  shows "\<exists>s' w'. run_file_ops rd wr tr ops s w = Some (fst (file_results ops f), s', w') \<and> rep s' (snd (file_results ops f))"
  using assms
proof (induction ops arbitrary: s f w)
  case (Cons x ops)
  show ?case
  proof (cases x)
    case (Write d off)
    with Cons.prems write_rep [of s f off d w] obtain s1 w1 where
      "wr s d (int off) w = Some (0, s1, w1)" "rep s1 (file_write f off d)" "healthy w1" by auto
    then show ?thesis using Cons.IH [of s1 "file_write f off d" w1] Cons.prems(2) Write by auto
  next
    case (Truncate n)
    then show ?thesis using Cons.IH [OF trunc_rep [OF Cons.prems(1)]] Cons.prems(2,3) by simp
  next
    case (Read a off)
    with Cons.prems read_rep [of s f a off] obtain s1 where
      "if off + a \<le> length f then rd s (int a) (int off) = Some (0, take a (drop off f), s1)
       else rd s (int a) (int off) = Some (522, [], s1)" "rep s1 f" by auto
    then show ?thesis using Cons.IH [of s1 f w] Cons.prems(2,3) Read
      by (cases "off + a \<le> length f") (auto simp: Let_def case_prod_beta)
  qed
qed simp

end

text \<open>A journal that stays in memory, with the file system it is opened on as part of the process.\<close>

definition mem_write ::
    "'f vfs \<Rightarrow> (nat \<Rightarrow> nat \<Rightarrow> u8) \<Rightarrow> MemJournal \<Rightarrow> bytes \<Rightarrow> int \<Rightarrow> 'e world \<times> 'f \<Rightarrow> (int \<times> MemJournal \<times> 'e world \<times> 'f) option" where
  "mem_write v raw p d off s =
     do { (rc, j, w, f) \<leftarrow> memjrnlWrite v raw p d off (fst s) (snd s);
          case j of MemJournalMethods p \<Rightarrow> Some (rc, p, w, f) | RealMethods \<Rightarrow> None }"

definition journal_rep :: "nat \<Rightarrow> MemJournal \<Rightarrow> bytes \<Rightarrow> bool" where
  "journal_rep N p f \<longleftrightarrow> journal_ok N p \<and> nSpill p \<le> 0 \<and> content p = f"

interpretation mj: byte_file "journal_rep N" memjrnlRead "mem_write v raw" memjrnlTruncate N "\<lambda>s. allocatable N \<and> memory_lasts (fst s)" for N v raw
proof (unfold_locales, goal_cases)
  case (1 s f a off)
  then have s: "journal_ok N s" "nSpill s \<le> 0" "content s = f" by (simp_all add: journal_rep_def)
  show ?case
  proof (cases "off + a \<le> length f")
    case True
    then show ?thesis using memjrnlRead_spec [OF s(1) 1(2), of off] s(2,3) by (auto simp: journal_rep_def)
  next
    case False
    then show ?thesis using memjrnlRead_short [OF s(1), of off a] s 1(1) by auto
  qed
next
  case (2 s f off d w)
  then have s: "journal_ok N s" "nSpill s \<le> 0" "content s = f" by (simp_all add: journal_rep_def)
  from memjrnlWrite_spec [OF s(1,2), of off d v raw "fst w" "snd w"] 2 s(3) obtain p' w' k where
    r: "memjrnlWrite v raw s d (int off) (fst w) (snd w) = Some (0, MemJournalMethods p', w', snd w)" "journal_ok N p'" "nSpill p' = nSpill s"
      "content p' = file_write f off (take k d)" "later (fst w) w'" "length d \<le> k" by auto
  then show ?case using s(2) 2(3) memory_lasts_later [OF r(5)] by (auto simp: mem_write_def journal_rep_def)
next
  case (3 s f n)
  then show ?case using memjrnlTruncate_spec [of N s n] by (simp add: journal_rep_def)
qed

lemma open_rep:
  assumes "spill < 0"
  shows "\<exists>p. sqlite3JournalOpen v zName fl spill f = (0, MemJournalMethods p, f) \<and> journal_rep 1016 p []"
  using assms by (auto simp: sqlite3JournalOpen_def blank_journal_def journal_rep_def journal_ok_def content_def chunked_def)

section \<open>Spilling\<close>

text \<open>The writes that copy the journal to a real file: chunk after chunk, at consecutive offsets.\<close>

function pieces :: "nat \<Rightarrow> nat \<Rightarrow> bytes \<Rightarrow> (nat \<times> bytes) list" where
  "pieces N off bs = (if bs = [] \<or> N = 0 then [] else (off, take N bs) # pieces N (off + N) (drop N bs))"
  by pat_completeness auto
termination
  by (relation "measure (\<lambda>(N, off, bs). length bs)") auto

declare pieces.simps [simp del]

fun write_all :: "'f vfs \<Rightarrow> (nat \<times> bytes) list \<Rightarrow> 'f \<Rightarrow> int \<times> 'f" where
  "write_all v [] f = (0, f)"
| "write_all v ((off, d) # ws) f = (let (rc, f) = xWrite v d (int off) f in if rc \<noteq> 0 then (rc, f) else write_all v ws f)"

lemma create_loop_last:
  assumes "length c = N" "e = off + m" "0 < m" "m \<le> N"
  shows "create_loop v (int e) [c] (int N) (int off) f = Some (write_all v (pieces N off (take m c)) f)"
proof -
  have n: "(if int off + int N > int e then int e - int off else int N) = int m" using assms(2,4) by auto
  have "take m c \<noteq> []" using assms(1,3,4) by auto
  moreover have "N \<noteq> 0" "drop N (take m c) = []" "take N (take m c) = take m c" using assms by auto
  ultimately have "pieces N off (take m c) = [(off, take m c)]" by (simp add: pieces.simps [of N off] pieces.simps [of N _ "[]"])
  then show ?thesis using assms(1,4) n by (simp add: peek_def Let_def split: prod.splits)
qed

lemma create_loop_spec:
  assumes "chunked N cs" "off \<le> e" "e \<le> off + N * length cs" "off + N * length cs < e + N"
  shows "create_loop v (int e) cs (int N) (int off) f = Some (write_all v (pieces N off (take (e - off) (concat cs))) f)"
  using assms
proof (induction cs arbitrary: off f)
  case Nil
  then show ?case by (simp add: pieces.simps)
next
  case (Cons c cs)
  have c: "length c = N" "chunked N cs" using Cons.prems(1) by simp_all
  show ?case
  proof (cases "cs = []")
    case True
    then show ?thesis using create_loop_last [OF c(1), of e off "e - off" v f] Cons.prems by simp
  next
    case False
    then obtain b bs where "cs = b # bs" by (auto simp: neq_Nil_conv)
    then have le: "off + N \<le> e" using Cons.prems(4) by simp
    have N: "0 < N" using c(2) by (simp add: chunked_def)
    let ?bs = "take (e - off) (c @ concat cs)"
    have bs: "?bs \<noteq> []" "take N ?bs = c" "drop N ?bs = take (e - (off + N)) (concat cs)"
      using c(1) le N by (auto simp: drop_take)
    have "create_loop v (int e) cs (int N) (int (off + N)) f' = Some (write_all v (pieces N (off + N) (take (e - (off + N)) (concat cs))) f')" for f'
      using Cons.IH [OF c(2), of "off + N" f'] Cons.prems le by simp
    moreover have "pieces N off ?bs = (off, c) # pieces N (off + N) (take (e - (off + N)) (concat cs))"
      using bs N by (simp add: pieces.simps [of N off])
    moreover have "\<not> int off + int N > int e" "peek c 0 (int N) = Some c" using le c(1) by (simp_all add: peek_def)
    ultimately show ?thesis by (simp add: Let_def split: prod.splits)
  qed
qed

lemma create_file_spec:
  assumes "journal_ok N p"
  shows "memjrnlCreateFile v p f =
     Some (let (rc, f1) = xOpen v (zJournal p) (flags p) f;
               (rc, f2) = (if rc = 0 then write_all v (pieces N 0 (content p)) f1 else (rc, f1))
           in if rc = 0 then (0, RealMethods, f2) else (rc, MemJournalMethods p, xClose v f2))"
proof -
  have "create_loop v (iOffset (endpoint p)) (pFirst p) (nChunkSize p) 0 f1 = Some (write_all v (pieces N 0 (content p)) f1)" for f1
    using create_loop_spec [of N "pFirst p" 0 "nat (iOffset (endpoint p))" v f1] assms by (simp add: journal_ok_def content_def)
  then show ?thesis by (auto simp: memjrnlCreateFile_def Let_def split: prod.splits if_splits)
qed

text \<open>A file system that keeps the bytes of the open file, as far as the journal relies on it.\<close>

definition file_vfs :: "'f vfs \<Rightarrow> ('f \<Rightarrow> bytes) \<Rightarrow> bool" where
  "file_vfs v fc \<longleftrightarrow>
     (\<forall>name fl f f'. xOpen v name fl f = (0, f') \<longrightarrow> fc f' = [])
     \<and> (\<forall>d off f f'. off \<le> length (fc f) \<longrightarrow> xWrite v d (int off) f = (0, f') \<longrightarrow>
           fc f' = take off (fc f) @ d @ drop (off + length d) (fc f))"

lemma write_all_content:
  assumes "file_vfs v fc" "0 < N"
  shows "fc f = pre \<Longrightarrow> write_all v (pieces N (length pre) bs) f = (0, f') \<Longrightarrow> fc f' = pre @ bs"
proof (induction "length bs" arbitrary: bs pre f rule: less_induct)
  case less
  show ?case
  proof (cases "bs = []")
    case True
    then show ?thesis using less.prems by (simp add: pieces.simps [of N])
  next
    case False
    then have p: "pieces N (length pre) bs = (length pre, take N bs) # pieces N (length pre + N) (drop N bs)"
      using assms(2) by (simp add: pieces.simps [of N "length pre"])
    obtain f1 where f1: "xWrite v (take N bs) (int (length pre)) f = (0, f1)" "write_all v (pieces N (length pre + N) (drop N bs)) f1 = (0, f')"
      using less.prems(2) unfolding p by (auto split: prod.splits if_splits)
    have fc: "fc f1 = pre @ take N bs" using assms(1) f1(1) less.prems(1) unfolding file_vfs_def by fastforce
    show ?thesis
    proof (cases "length bs \<le> N")
      case True
      then show ?thesis using f1(2) fc by (simp add: pieces.simps [of N])
    next
      case False
      then have "length (pre @ take N bs) = length pre + N" by simp
      with less.hyps [of "drop N bs" f1 "pre @ take N bs"] f1(2) fc False assms(2) show ?thesis by simp
    qed
  qed
qed

section \<open>Properties\<close>

text \<open>
  C33. A journal kept in memory is a file: for any sequence of writes, truncations and reads on a newly opened one,
  every read returns the bytes the same operations give on a plain byte string, or a short-read
  error past the end, whatever chunks they are spread over and wherever the cached read position is, and
  no access leaves a chunk.  (A write at offset 0 of a journal that is not empty replaces bytes of
  the first chunk only and has to fit into it; any other write starts at or before the end.)
\<close>

theorem memjournal_refines_file:
  assumes "spill < 0" "memory_lasts w" "ops_ok 1016 ops []"
  shows "\<exists>p p' w'. sqlite3JournalOpen v zName fl spill f = (0, MemJournalMethods p, f)
     \<and> run_file_ops memjrnlRead (mem_write v raw) memjrnlTruncate ops p (w, f) = Some (fst (file_results ops []), p', w')
     \<and> memjrnlFileSize p' = (0, int (length (snd (file_results ops []))))"
proof -
  obtain p where p: "sqlite3JournalOpen v zName fl spill f = (0, MemJournalMethods p, f)" "journal_rep 1016 p []"
    using open_rep [OF assms(1), of v zName fl f] by blast
  from mj.run_file_ops_results [OF p(2) assms(3), of "(w, f)" v raw] assms(2) obtain p' w' where
    "run_file_ops memjrnlRead (mem_write v raw) memjrnlTruncate ops p (w, f) = Some (fst (file_results ops []), p', w')"
    "journal_rep 1016 p' (snd (file_results ops []))" by (auto simp: allocatable_def)
  then show ?thesis using p(1) length_content [of 1016 p'] by (auto simp: memjrnlFileSize_def journal_rep_def)
qed

theorem memjournal_refines_file_witness:
  "\<exists>p p' w'. sqlite3JournalOpen \<lparr> xOpen = \<lambda>_ _ f. (0, f), xWrite = \<lambda>_ _ f. (0, f), xClose = \<lambda>f. f \<rparr> None 0 (- 1) () = (0, MemJournalMethods p, ())
     \<and> run_file_ops memjrnlRead (mem_write \<lparr> xOpen = \<lambda>_ _ f. (0, f), xWrite = \<lambda>_ _ f. (0, f), xClose = \<lambda>f. f \<rparr> (\<lambda>_ _. 0)) memjrnlTruncate
         [Write (replicate 1010 7) 0, Write [1, 2, 3, 4, 5, 6, 7, 8] 1010, Read 4 1014, Truncate 1016, Read 4 1014]
         p (initial_world (\<lambda>_. True) (), ()) = Some ([(0, [5, 6, 7, 8]), (522, [])], p', w')"
proof -
  let ?v = "\<lparr> xOpen = \<lambda>_ _ f. (0, f), xWrite = \<lambda>_ _ f. (0, f), xClose = \<lambda>f. f \<rparr> :: unit vfs"
  let ?ops = "[Write (replicate 1010 7) 0, Write [1, 2, 3, 4, 5, 6, 7, 8] 1010, Read 4 1014, Truncate 1016, Read 4 1014]"
  have "memory_lasts (initial_world (\<lambda>_. True) ())" by (simp add: memory_lasts_def initial_world_def)
  moreover have "ops_ok 1016 ?ops []" by (simp add: write_ok_def file_write_def)
  ultimately obtain p p' w' where
    "sqlite3JournalOpen ?v None 0 (- 1) () = (0, MemJournalMethods p, ())"
    "run_file_ops memjrnlRead (mem_write ?v (\<lambda>_ _. 0)) memjrnlTruncate ?ops p (initial_world (\<lambda>_. True) (), ()) = Some (fst (file_results ?ops []), p', w')"
    using memjournal_refines_file [of "- 1" "initial_world (\<lambda>_. True) ()" ?ops ?v None 0 "()" "\<lambda>_ _. 0"] by auto
  moreover have "fst (file_results ?ops []) = [(0, [5, 6, 7, 8]), (522, [])]" by (simp add: file_write_def)
  ultimately show ?thesis by metis
qed


text \<open>A file system in which the open file is a byte string.\<close>

definition string_vfs :: "bytes vfs" where
  "string_vfs = \<lparr> xOpen = \<lambda>_ _ _. (0, []), xWrite = \<lambda>d off f. (0, take (nat off) f @ d @ drop (nat off + length d) f), xClose = id \<rparr>"


text \<open>
  C35. Running out of memory while a journal is written loses nothing that was there: the call returns
  \<open>SQLITE_IOERR_NOMEM\<close>, and the journal is well formed and holds what it held (up to the offset of the write)
  followed by a part of the new bytes; the call fails only if an allocation did.
\<close>

theorem memjournal_write_failure:
  assumes "journal_ok N p" "nSpill p < 0" "write_ok N (content p) off d"
  shows "\<exists>rc p' w' k. memjrnlWrite v raw p d (int off) w f = Some (rc, MemJournalMethods p', w', f) \<and> journal_ok N p'
     \<and> content p' = file_write (content p) off (take k d)
     \<and> (rc = 0 \<and> length d \<le> k \<or> rc = 3082 \<and> \<not> (N \<le> 2147483383 \<and> memory_lasts w))"
proof -
  have "nSpill p \<le> 0" using assms(2) by simp
  from memjrnlWrite_spec [OF assms(1) this assms(3), of v raw w f] show ?thesis unfolding allocatable_def by blast
qed

theorem memjournal_write_failure_witness:
  "\<exists>p' w' k. memjrnlWrite string_vfs (\<lambda>_ _. 0) (blank_journal\<lparr>nChunkSize := 8, nSpill := - 1\<rparr>) [9, 9] (int 0) (initial_world (\<lambda>_. False) ()) []
     = Some (3082, MemJournalMethods p', w', []) \<and> content p' = take k [9, 9]"
proof -
  let ?p = "blank_journal\<lparr>nChunkSize := 8, nSpill := - 1\<rparr>" and ?w = "initial_world (\<lambda>_. False) ()"
  have "journal_ok 8 ?p" "content ?p = []" "nSpill ?p < 0"
    by (simp_all add: journal_ok_def blank_journal_def chunked_def content_def)
  moreover from this have "write_ok 8 (content ?p) 0 [9, 9]" by (simp add: write_ok_def)
  ultimately obtain rc p' w' k where
    r: "memjrnlWrite string_vfs (\<lambda>_ _. 0) ?p [9, 9] (int 0) ?w [] = Some (rc, MemJournalMethods p', w', [])" "content p' = take k [9, 9]"
    using memjournal_write_failure [of 8 ?p 0 "[9, 9]" string_vfs "\<lambda>_ _. 0" ?w "[]"] by (auto simp: file_write_def)
  have "rc = 3082"
    using r(1) by (auto simp: memjrnlWrite_def blank_journal_def write_loop.simps sqlite3Malloc_def sqlcipher_mem_malloc_def initial_world_def Let_def)
  then show ?thesis using r by metis
qed

end
