(* ===== verification/Utf.thy ===== *)
theory Utf
  imports Varint
begin

text \<open>
  UTF-8 and UTF-16 (\<^verbatim>\<open>utf.c\<close>): the readers and writers of single characters, the loops that translate a
  text, and the routines that count.  A pointer into a text is the list of the bytes from there to the
  end of what may be read (\<open>zTerm\<close>, or the end of the buffer for the routines without a limit); \<open>None\<close>
  is a read past that end.  The target is little-endian, and \<^verbatim>\<open>SQLITE_REPLACE_INVALID_UTF\<close> is not defined.
\<close>

text \<open>\<open>n & ~1\<close> is the even part of a length.\<close>

lemma and_not_1: "(n :: int) AND NOT 1 = n - n mod 2"
proof -
  have "n AND NOT 1 = push_bit 1 (drop_bit 1 n)"
    by (rule bit_eqI) (auto simp only: bit_push_bit_iff bit_drop_bit_eq bit_and_iff bit_not_iff bit_1_iff o_def, simp_all)
  also have "\<dots> = n div 2 * 2" by (simp add: push_bit_eq_mult drop_bit_eq_div)
  also have "\<dots> = n - n mod 2" by (simp add: minus_mod_eq_div_mult)
  finally show ?thesis .
qed

section \<open>Writing a character\<close>

definition sqlite3Utf8Trans1 :: bytes where
  "sqlite3Utf8Trans1 =
    [0x00, 0x01, 0x02, 0x03, 0x04, 0x05, 0x06, 0x07, 0x08, 0x09, 0x0a, 0x0b, 0x0c, 0x0d, 0x0e, 0x0f,
     0x10, 0x11, 0x12, 0x13, 0x14, 0x15, 0x16, 0x17, 0x18, 0x19, 0x1a, 0x1b, 0x1c, 0x1d, 0x1e, 0x1f,
     0x00, 0x01, 0x02, 0x03, 0x04, 0x05, 0x06, 0x07, 0x08, 0x09, 0x0a, 0x0b, 0x0c, 0x0d, 0x0e, 0x0f,
     0x00, 0x01, 0x02, 0x03, 0x04, 0x05, 0x06, 0x07, 0x00, 0x01, 0x02, 0x03, 0x00, 0x01, 0x00, 0x00]"

definition WRITE_UTF8 :: "u32 \<Rightarrow> bytes" where
  "WRITE_UTF8 c =
     (if c < 0x80 then [ucast (c AND 0xFF)]
      else if c < 0x800 then [0xC0 + ucast (drop_bit 6 c AND 0x1F), 0x80 + ucast (c AND 0x3F)]
      else if c < 0x10000
      then [0xE0 + ucast (drop_bit 12 c AND 0x0F), 0x80 + ucast (drop_bit 6 c AND 0x3F), 0x80 + ucast (c AND 0x3F)]
      else [0xF0 + ucast (drop_bit 18 c AND 0x07), 0x80 + ucast (drop_bit 12 c AND 0x3F),
            0x80 + ucast (drop_bit 6 c AND 0x3F), 0x80 + ucast (c AND 0x3F)])"

definition WRITE_UTF16LE :: "u32 \<Rightarrow> bytes" where
  "WRITE_UTF16LE c =
     (if c \<le> 0xFFFF then [ucast (c AND 0xFF), ucast (drop_bit 8 c AND 0xFF)]
      else [ucast ((drop_bit 10 c AND 0x3F) + (drop_bit 10 (c - 0x10000) AND 0xC0)),
            ucast (0xD8 + (drop_bit 18 (c - 0x10000) AND 0x03)),
            ucast (c AND 0xFF),
            ucast (0xDC + (drop_bit 8 c AND 0x03))])"

definition WRITE_UTF16BE :: "u32 \<Rightarrow> bytes" where
  "WRITE_UTF16BE c =
     (if c \<le> 0xFFFF then [ucast (drop_bit 8 c AND 0xFF), ucast (c AND 0xFF)]
      else [ucast (0xD8 + (drop_bit 18 (c - 0x10000) AND 0x03)),
            ucast ((drop_bit 10 c AND 0x3F) + (drop_bit 10 (c - 0x10000) AND 0xC0)),
            ucast (0xDC + (drop_bit 8 c AND 0x03)),
            ucast (c AND 0xFF)])"

section \<open>Reading a character\<close>

text \<open>What stands for a value that must not be encoded in several bytes.\<close>

definition utf8_fix :: "u32 \<Rightarrow> u32" where
  "utf8_fix c =
     (if c < 0x80 \<or> c AND 0xFFFFF800 = 0xD800 \<or> c AND 0xFFFFFFFE = 0xFFFE then 0xFFFD else c)"

text \<open>The loops over the continuation bytes: up to \<open>zTerm\<close>, and up to any byte that is none.\<close>

fun read_cont :: "u32 \<Rightarrow> bytes \<Rightarrow> u32 \<times> bytes" where
  "read_cont c [] = (c, [])"
| "read_cont c (b # r) =
     (if b AND 0xc0 = 0x80 then read_cont (push_bit 6 c + (0x3f AND ucast b)) r else (c, b # r))"

definition READ_UTF8 :: "bytes \<Rightarrow> (u32 \<times> bytes) option" where
  "READ_UTF8 zIn =
     (case zIn of
        [] \<Rightarrow> None
      | b # r \<Rightarrow>
          if b \<ge> 0xc0
          then (let (c, r) = read_cont (ucast (sqlite3Utf8Trans1 ! unat (b - 0xc0))) r in Some (utf8_fix c, r))
          else Some (ucast b, r))"

fun read_cont_nul :: "u32 \<Rightarrow> bytes \<Rightarrow> (u32 \<times> bytes) option" where
  "read_cont_nul c [] = None"
| "read_cont_nul c (b # r) =
     (if b AND 0xc0 = 0x80 then read_cont_nul (push_bit 6 c + (0x3f AND ucast b)) r else Some (c, b # r))"

definition sqlite3Utf8Read :: "bytes \<Rightarrow> (u32 \<times> bytes) option" where
  "sqlite3Utf8Read pz =
     (case pz of
        [] \<Rightarrow> None
      | b # r \<Rightarrow>
          if b \<ge> 0xc0
          then do { (c, r) \<leftarrow> read_cont_nul (ucast (sqlite3Utf8Trans1 ! unat (b - 0xc0))) r; Some (utf8_fix c, r) }
          else Some (ucast b, r))"

text \<open>\<open>while( i<n && (z[i] & 0xc0)==0x80 )\<close>; the first argument is how often it may still run.\<close>

fun limited_loop :: "nat \<Rightarrow> u32 \<Rightarrow> int \<Rightarrow> bytes \<Rightarrow> (u32 \<times> int) option" where
  "limited_loop 0 c i z = Some (c, i)"
| "limited_loop (Suc k) c i z =
     (case z of
        [] \<Rightarrow> None
      | b # r \<Rightarrow> if b AND 0xc0 = 0x80 then limited_loop k (push_bit 6 c + (0x3f AND ucast b)) (i + 1) r else Some (c, i))"

text \<open>The pair is \<open>*piOut\<close> and the result.\<close>

definition sqlite3Utf8ReadLimited :: "bytes \<Rightarrow> int \<Rightarrow> (u32 \<times> int) option" where
  "sqlite3Utf8ReadLimited z n =
     (case z of
        [] \<Rightarrow> None
      | b # r \<Rightarrow>
          if b \<ge> 0xc0
          then (let n = (if n > 4 then 4 else n)
                in limited_loop (nat (n - 1)) (ucast (sqlite3Utf8Trans1 ! unat (b - 0xc0))) 1 r)
          else Some (ucast b, 1))"

text \<open>One turn of the loops that read UTF-16.\<close>

definition utf16_join :: "u32 \<Rightarrow> u32 \<Rightarrow> u32" where
  "utf16_join c c2 = (c2 AND 0x03FF) + push_bit 10 (c AND 0x003F) + push_bit 10 ((c AND 0x03C0) + 0x0040)"

definition READ_UTF16LE :: "bytes \<Rightarrow> (u32 \<times> bytes) option" where
  "READ_UTF16LE zIn =
     do { b0 \<leftarrow> byte_at zIn 0;
          b1 \<leftarrow> byte_at zIn 1;
          let c = ucast b0 + push_bit 8 (ucast b1);
          let zIn = drop 2 zIn;
          if c \<ge> 0xd800 \<and> c < 0xe000 \<and> zIn \<noteq> [] then
            do { b0 \<leftarrow> byte_at zIn 0;
                 b1 \<leftarrow> byte_at zIn 1;
                 Some (utf16_join c (ucast b0 + push_bit 8 (ucast b1)), drop 2 zIn) }
          else Some (c, zIn) }"

definition READ_UTF16BE :: "bytes \<Rightarrow> (u32 \<times> bytes) option" where
  "READ_UTF16BE zIn =
     do { b0 \<leftarrow> byte_at zIn 0;
          b1 \<leftarrow> byte_at zIn 1;
          let c = push_bit 8 (ucast b0) + ucast b1;
          let zIn = drop 2 zIn;
          if c \<ge> 0xd800 \<and> c < 0xe000 \<and> zIn \<noteq> [] then
            do { b0 \<leftarrow> byte_at zIn 0;
                 b1 \<leftarrow> byte_at zIn 1;
                 Some (utf16_join c (push_bit 8 (ucast b0) + ucast b1), drop 2 zIn) }
          else Some (c, zIn) }"

section \<open>The translation loops\<close>

lemma read_cont_shorter: "length (snd (read_cont c r)) \<le> length r"
  by (induction c r rule: read_cont.induct) auto

lemma READ_UTF8_shorter: "READ_UTF8 z = Some (c, r) \<Longrightarrow> length r < length z"
  using read_cont_shorter
  by (auto simp: READ_UTF8_def less_Suc_eq_le split: list.splits if_splits prod.splits)
    (metis snd_conv)

text \<open>\<open>while( zIn<zTerm ){ READ_UTF8(zIn, zTerm, c); WRITE_UTF16..(z, c); }\<close>: what is written.\<close>

function utf8_loop :: "(u32 \<Rightarrow> bytes) \<Rightarrow> bytes \<Rightarrow> bytes option" where
  "utf8_loop put zIn =
     (if zIn = [] then Some []
      else (case READ_UTF8 zIn of
              None \<Rightarrow> None
            | Some (c, zIn) \<Rightarrow> do { out \<leftarrow> utf8_loop put zIn; Some (put c @ out) }))"
  by pat_completeness auto
termination
  by (relation "measure (\<lambda>(put, z). length z)") (auto dest: READ_UTF8_shorter)

declare utf8_loop.simps [simp del]

lemma READ_UTF16LE_shorter: "READ_UTF16LE z = Some (c, r) \<Longrightarrow> length r < length z"
  by (auto simp: READ_UTF16LE_def byte_at_def Let_def split: bind_splits if_splits)

lemma READ_UTF16BE_shorter: "READ_UTF16BE z = Some (c, r) \<Longrightarrow> length r < length z"
  by (auto simp: READ_UTF16BE_def byte_at_def Let_def split: bind_splits if_splits)

text \<open>The loops from UTF-16; the first argument tells which byte order.\<close>

function utf16_loop :: "bool \<Rightarrow> bytes \<Rightarrow> bytes option" where
  "utf16_loop le zIn =
     (if zIn = [] then Some []
      else (case (if le then READ_UTF16LE zIn else READ_UTF16BE zIn) of
              None \<Rightarrow> None
            | Some (c, zIn) \<Rightarrow> do { out \<leftarrow> utf16_loop le zIn; Some (WRITE_UTF8 c @ out) }))"
  by pat_completeness auto
termination
  by (relation "measure (\<lambda>(le, z). length z)") (auto dest: READ_UTF16LE_shorter READ_UTF16BE_shorter split: if_splits)

declare utf16_loop.simps [simp del]

text \<open>The loop that exchanges the bytes of every pair up to \<open>zTerm\<close>.\<close>

fun swap_loop :: "bytes \<Rightarrow> bytes" where
  "swap_loop (a # b # r) = b # a # swap_loop r"
| "swap_loop r = r"

section \<open>Counting\<close>

text \<open>\<open>SQLITE_SKIP_UTF8\<close>.\<close>

fun skip_cont :: "bytes \<Rightarrow> bytes option" where
  "skip_cont [] = None"
| "skip_cont (b # r) = (if b AND 0xc0 = 0x80 then skip_cont r else Some (b # r))"

definition SKIP_UTF8 :: "bytes \<Rightarrow> bytes option" where
  "SKIP_UTF8 z = (case z of [] \<Rightarrow> None | b # r \<Rightarrow> if b \<ge> 0xc0 then skip_cont r else Some r)"

lemma skip_cont_shorter: "skip_cont z = Some r \<Longrightarrow> length r \<le> length z"
  by (induction z rule: skip_cont.induct) (auto split: if_splits)

lemma SKIP_UTF8_shorter: "SKIP_UTF8 z = Some r \<Longrightarrow> length r < length z"
  by (auto simp: SKIP_UTF8_def less_Suc_eq_le split: list.splits if_splits dest: skip_cont_shorter)

text \<open>The loop; \<open>lim\<close> is the distance to \<open>zTerm\<close>, \<open>None\<close> when there is no limit.\<close>

function charlen_loop :: "int option \<Rightarrow> bytes \<Rightarrow> int \<Rightarrow> int option" where
  "charlen_loop lim z r =
     (case z of
        [] \<Rightarrow> None
      | b # _ \<Rightarrow>
          if b \<noteq> 0 \<and> (case lim of None \<Rightarrow> True | Some l \<Rightarrow> 0 < l) then
            (case SKIP_UTF8 z of
               None \<Rightarrow> None
             | Some z' \<Rightarrow> charlen_loop (map_option (\<lambda>l. l - int (length z - length z')) lim) z' (r + 1))
          else Some r)"
  by pat_completeness auto
termination
  by (relation "measure (\<lambda>(lim, z, r). length z)") (auto dest: SKIP_UTF8_shorter)

declare charlen_loop.simps [simp del]

definition sqlite3Utf8CharLen :: "bytes \<Rightarrow> int \<Rightarrow> int option" where
  "sqlite3Utf8CharLen zIn nByte = charlen_loop (if nByte \<ge> 0 then Some nByte else None) zIn 0"

text \<open>The loop of \<open>sqlite3Utf16ByteLen\<close>, which looks at the high bytes only: the bytes it moves over.\<close>

fun bytelen_loop :: "nat \<Rightarrow> bytes \<Rightarrow> int option" where
  "bytelen_loop 0 z = Some 0"
| "bytelen_loop (Suc k) z =
     do { c \<leftarrow> byte_at z 0;
          let z2 = drop 2 z;
          pair \<leftarrow> (if c \<ge> 0xd8 \<and> c < 0xdc
                  then do { d \<leftarrow> byte_at z2 0; Some (d \<ge> 0xdc \<and> d < 0xe0) } else Some False);
          if pair then do { m \<leftarrow> bytelen_loop k (drop 2 z2); Some (m + 4) }
          else do { m \<leftarrow> bytelen_loop k z2; Some (m + 2) } }"

definition sqlite3Utf16ByteLen :: "bytes \<Rightarrow> int \<Rightarrow> int option" where
  "sqlite3Utf16ByteLen zIn nChar = bytelen_loop (nat nChar) (drop 1 zIn)"

end
