(* ===== verification/Memcell.thy ===== *)
theory Memcell
  imports Utf
begin

text \<open>
  The memory cells of the virtual machine as far as they hold strings and blobs (\<^verbatim>\<open>vdbemem.c\<close>), and the
  translation of their encoding (\<^verbatim>\<open>utf.c\<close>).  \<open>z\<close> points nowhere, to the allocation the cell owns (\<open>zMalloc\<close>), to memory
  of somebody else, or to memory that has been freed; the owned allocation is the list of its bytes, whose length is
  \<open>szMalloc\<close>.  \<open>None\<close> is an access out of bounds, through a null pointer or to freed memory, or a second release.
\<close>

section \<open>State\<close>

abbreviation (input) SQLITE_TOOBIG :: int where "SQLITE_TOOBIG \<equiv> 18"
abbreviation (input) SQLITE_UTF8 :: u8 where "SQLITE_UTF8 \<equiv> 1"
abbreviation (input) SQLITE_UTF16LE :: u8 where "SQLITE_UTF16LE \<equiv> 2"
abbreviation (input) SQLITE_UTF16BE :: u8 where "SQLITE_UTF16BE \<equiv> 3"
abbreviation (input) SQLITE_MAX_LENGTH :: int where "SQLITE_MAX_LENGTH \<equiv> 1000000000"

abbreviation (input) MEM_Null :: u16 where "MEM_Null \<equiv> 0x0001"
abbreviation (input) MEM_Str :: u16 where "MEM_Str \<equiv> 0x0002"
abbreviation (input) MEM_Int :: u16 where "MEM_Int \<equiv> 0x0004"
abbreviation (input) MEM_Real :: u16 where "MEM_Real \<equiv> 0x0008"
abbreviation (input) MEM_Blob :: u16 where "MEM_Blob \<equiv> 0x0010"
abbreviation (input) MEM_IntReal :: u16 where "MEM_IntReal \<equiv> 0x0020"
abbreviation (input) MEM_AffMask :: u16 where "MEM_AffMask \<equiv> 0x003f"
abbreviation (input) MEM_Term :: u16 where "MEM_Term \<equiv> 0x0200"
abbreviation (input) MEM_Zero :: u16 where "MEM_Zero \<equiv> 0x0400"
abbreviation (input) MEM_Subtype :: u16 where "MEM_Subtype \<equiv> 0x0800"
abbreviation (input) MEM_Dyn :: u16 where "MEM_Dyn \<equiv> 0x1000"
abbreviation (input) MEM_Static :: u16 where "MEM_Static \<equiv> 0x2000"
abbreviation (input) MEM_Ephem :: u16 where "MEM_Ephem \<equiv> 0x4000"
abbreviation (input) MEM_Agg :: u16 where "MEM_Agg \<equiv> 0x8000"

datatype zptr = Znull | Zmalloc | Zext bytes | Zdangling

text \<open>The destructors the code distinguishes.\<close>

datatype destructor = Sqlite3Free | RCStrUnref | OtherDestructor

text \<open>\<open>xDel_calls\<close> counts the calls of destructors.\<close>

record Mem =
  u_nZero :: int
  m_z :: zptr
  m_n :: int
  m_flags :: u16
  m_enc :: u8
  m_zMalloc :: bytes
  m_xDel :: destructor
  xDel_calls :: nat

text \<open>
  What the cell rests on: the allocator (a block of at least the bytes asked for, or \<open>None\<close>), the finalizer of an
  aggregate, which application code provides, and the length limit of the connection, \<open>None\<close> without a connection.
\<close>

record mem_env =
  me_alloc :: "int \<Rightarrow> bytes option"
  me_finalize :: "Mem \<Rightarrow> Mem"
  me_limit :: "int option"

definition szMalloc :: "Mem \<Rightarrow> int" where
  "szMalloc p = int (length (m_zMalloc p))"

definition has :: "Mem \<Rightarrow> u16 \<Rightarrow> bool" where
  "has p f \<longleftrightarrow> m_flags p AND f \<noteq> 0"

definition VdbeMemDynamic :: "Mem \<Rightarrow> bool" where
  "VdbeMemDynamic p \<longleftrightarrow> m_flags p AND (MEM_Agg OR MEM_Dyn) \<noteq> 0"

section \<open>Memory\<close>

text \<open>The memory \<open>z\<close> points to, reads and writes through \<open>z\<close>.\<close>

definition z_mem :: "Mem \<Rightarrow> bytes option" where
  "z_mem p = (case m_z p of Znull \<Rightarrow> None | Zmalloc \<Rightarrow> Some (m_zMalloc p) | Zext b \<Rightarrow> Some b | Zdangling \<Rightarrow> None)"

definition z_read :: "Mem \<Rightarrow> int \<Rightarrow> bytes option" where
  "z_read p n = (if n = 0 then Some [] else do { b \<leftarrow> z_mem p; peek b 0 n })"

definition z_write :: "Mem \<Rightarrow> int \<Rightarrow> bytes \<Rightarrow> Mem option" where
  "z_write p off d =
     (case m_z p of
        Zmalloc \<Rightarrow> do { b \<leftarrow> poke (m_zMalloc p) off d; Some (p\<lparr>m_zMalloc := b\<rparr>) }
      | Zext b \<Rightarrow> do { b \<leftarrow> poke b off d; Some (p\<lparr>m_z := Zext b\<rparr>) }
      | _ \<Rightarrow> None)"

text \<open>\<open>xDel(z)\<close>: afterwards \<open>z\<close> dangles.\<close>

definition call_xDel :: "Mem \<Rightarrow> Mem option" where
  "call_xDel p =
     (case m_z p of
        Zext b \<Rightarrow> Some (p\<lparr>m_z := Zdangling, xDel_calls := Suc (xDel_calls p)\<rparr>)
      | Znull \<Rightarrow> Some (p\<lparr>xDel_calls := Suc (xDel_calls p)\<rparr>)
      | _ \<Rightarrow> None)"

text \<open>\<open>sqlite3DbFreeNN(db, zMalloc)\<close> when there is an allocation.\<close>

definition free_zMalloc :: "Mem \<Rightarrow> Mem" where
  "free_zMalloc p = p\<lparr>m_zMalloc := [], m_z := (if m_z p = Zmalloc then Zdangling else m_z p)\<rparr>"

section \<open>Releasing\<close>

definition vdbeMemClearExternAndSetNull :: "mem_env \<Rightarrow> Mem \<Rightarrow> Mem option" where
  "vdbeMemClearExternAndSetNull e p =
     do { let p = (if has p MEM_Agg then me_finalize e p else p);
          p \<leftarrow> (if has p MEM_Dyn then call_xDel p else Some p);
          Some (p\<lparr>m_flags := MEM_Null\<rparr>) }"

definition vdbeMemClear :: "mem_env \<Rightarrow> Mem \<Rightarrow> Mem option" where
  "vdbeMemClear e p =
     do { p \<leftarrow> (if VdbeMemDynamic p then vdbeMemClearExternAndSetNull e p else Some p);
          let p = (if szMalloc p \<noteq> 0 then free_zMalloc p else p);
          Some (p\<lparr>m_z := Znull\<rparr>) }"

definition sqlite3VdbeMemRelease :: "mem_env \<Rightarrow> Mem \<Rightarrow> Mem option" where
  "sqlite3VdbeMemRelease e p = (if VdbeMemDynamic p \<or> szMalloc p \<noteq> 0 then vdbeMemClear e p else Some p)"

definition sqlite3VdbeMemSetNull :: "mem_env \<Rightarrow> Mem \<Rightarrow> Mem option" where
  "sqlite3VdbeMemSetNull e p =
     (if VdbeMemDynamic p then vdbeMemClearExternAndSetNull e p else Some (p\<lparr>m_flags := MEM_Null\<rparr>))"

definition sqlite3VdbeMemSetZeroBlob :: "mem_env \<Rightarrow> Mem \<Rightarrow> int \<Rightarrow> Mem option" where
  "sqlite3VdbeMemSetZeroBlob e p n =
     do { p \<leftarrow> sqlite3VdbeMemRelease e p;
          Some (p\<lparr>m_flags := MEM_Blob OR MEM_Zero, m_n := 0, u_nZero := (if n < 0 then 0 else n),
                  m_enc := SQLITE_UTF8, m_z := Znull\<rparr>) }"

section \<open>Growing\<close>

text \<open>The failure of the allocation, and the end of the function after a success.\<close>

definition grow_fail :: "mem_env \<Rightarrow> Mem \<Rightarrow> (int \<times> Mem) option" where
  "grow_fail e p = do { p \<leftarrow> sqlite3VdbeMemSetNull e p; Some (SQLITE_NOMEM, p\<lparr>m_z := Znull, m_zMalloc := []\<rparr>) }"

definition grow_done :: "Mem \<Rightarrow> (int \<times> Mem) option" where
  "grow_done p =
     do { p \<leftarrow> (if has p MEM_Dyn then call_xDel p else Some p);
          Some (SQLITE_OK, p\<lparr>m_z := Zmalloc, m_flags := m_flags p AND NOT (MEM_Dyn OR MEM_Ephem OR MEM_Static)\<rparr>) }"

definition sqlite3VdbeMemGrow :: "mem_env \<Rightarrow> Mem \<Rightarrow> int \<Rightarrow> bool \<Rightarrow> (int \<times> Mem) option" where
  "sqlite3VdbeMemGrow e p n bPreserve =
     (if szMalloc p > 0 \<and> bPreserve \<and> m_z p = Zmalloc then
        (case me_alloc e n of
           None \<Rightarrow> grow_fail e (p\<lparr>m_zMalloc := [], m_z := Znull\<rparr>)
         | Some b \<Rightarrow> (let old = take (nat n) (m_zMalloc p)
                     in grow_done (p\<lparr>m_zMalloc := old @ drop (length old) b\<rparr>)))
      else
        (let p = free_zMalloc p in
         case me_alloc e n of
           None \<Rightarrow> grow_fail e p
         | Some b \<Rightarrow>
             do { b \<leftarrow> (if bPreserve \<and> m_z p \<noteq> Znull then do { d \<leftarrow> z_read p (m_n p); poke b 0 d } else Some b);
                  grow_done (p\<lparr>m_zMalloc := b\<rparr>) }))"

definition sqlite3VdbeMemClearAndResize :: "mem_env \<Rightarrow> Mem \<Rightarrow> int \<Rightarrow> (int \<times> Mem) option" where
  "sqlite3VdbeMemClearAndResize e p szNew =
     (if szMalloc p < szNew then sqlite3VdbeMemGrow e p szNew False
      else Some (SQLITE_OK, p\<lparr>m_z := Zmalloc,
                              m_flags := m_flags p AND (MEM_Null OR MEM_Int OR MEM_Real OR MEM_IntReal)\<rparr>))"

definition sqlite3VdbeMemZeroTerminateIfAble :: "Mem \<Rightarrow> Mem option" where
  "sqlite3VdbeMemZeroTerminateIfAble p =
     (if m_flags p AND (MEM_Str OR MEM_Term OR MEM_Ephem OR MEM_Static) \<noteq> MEM_Str then Some p
      else if m_enc p \<noteq> SQLITE_UTF8 then Some p
      else if m_z p = Znull then Some p
      else if has p MEM_Dyn then
        (if m_xDel p = Sqlite3Free \<and> (case z_mem p of Some b \<Rightarrow> int (length b) \<ge> m_n p + 1 | None \<Rightarrow> False)
         then do { p \<leftarrow> z_write p (m_n p) [0]; Some (p\<lparr>m_flags := m_flags p OR MEM_Term\<rparr>) }
         else if m_xDel p = RCStrUnref then Some (p\<lparr>m_flags := m_flags p OR MEM_Term\<rparr>)
         else Some p)
      else if szMalloc p \<ge> m_n p + 1
      then do { p \<leftarrow> z_write p (m_n p) [0]; Some (p\<lparr>m_flags := m_flags p OR MEM_Term\<rparr>) }
      else Some p)"

definition vdbeMemAddTerminator :: "mem_env \<Rightarrow> Mem \<Rightarrow> (int \<times> Mem) option" where
  "vdbeMemAddTerminator e p =
     do { (rc, p) \<leftarrow> sqlite3VdbeMemGrow e p (m_n p + 3) True;
          if rc \<noteq> SQLITE_OK then Some (SQLITE_NOMEM, p)
          else do { p \<leftarrow> z_write p (m_n p) [0, 0, 0];
                    Some (SQLITE_OK, p\<lparr>m_flags := m_flags p OR MEM_Term\<rparr>) } }"

definition sqlite3VdbeMemExpandBlob :: "mem_env \<Rightarrow> Mem \<Rightarrow> (int \<times> Mem) option" where
  "sqlite3VdbeMemExpandBlob e p =
     (let nByte = m_n p + u_nZero p in
      if nByte \<le> 0 \<and> \<not> has p MEM_Blob then Some (SQLITE_OK, p)
      else
        (let nByte = (if nByte \<le> 0 then 1 else nByte) in
         do { (rc, p) \<leftarrow> sqlite3VdbeMemGrow e p nByte True;
              if rc \<noteq> SQLITE_OK then Some (SQLITE_NOMEM, p)
              else do { p \<leftarrow> z_write p (m_n p) (replicate (nat (u_nZero p)) 0);
                        Some (SQLITE_OK, p\<lparr>m_n := m_n p + u_nZero p, m_flags := m_flags p AND NOT (MEM_Zero OR MEM_Term)\<rparr>) } }))"

definition sqlite3VdbeMemMakeWriteable :: "mem_env \<Rightarrow> Mem \<Rightarrow> (int \<times> Mem) option" where
  "sqlite3VdbeMemMakeWriteable e p =
     (if m_flags p AND (MEM_Str OR MEM_Blob) \<noteq> 0 then
        do { (rc, p) \<leftarrow> (if has p MEM_Zero then sqlite3VdbeMemExpandBlob e p else Some (SQLITE_OK, p));
             if rc \<noteq> SQLITE_OK then Some (SQLITE_NOMEM, p)
             else do { (rc, p) \<leftarrow> (if szMalloc p = 0 \<or> m_z p \<noteq> Zmalloc then vdbeMemAddTerminator e p else Some (SQLITE_OK, p));
                       if rc \<noteq> SQLITE_OK then Some (rc, p)
                       else Some (SQLITE_OK, p\<lparr>m_flags := m_flags p AND NOT MEM_Ephem\<rparr>) } }
      else Some (SQLITE_OK, p\<lparr>m_flags := m_flags p AND NOT MEM_Ephem\<rparr>))"

definition sqlite3VdbeMemNulTerminate :: "mem_env \<Rightarrow> Mem \<Rightarrow> (int \<times> Mem) option" where
  "sqlite3VdbeMemNulTerminate e p =
     (if m_flags p AND (MEM_Term OR MEM_Str) \<noteq> MEM_Str then Some (SQLITE_OK, p) else vdbeMemAddTerminator e p)"

section \<open>Encodings\<close>

text \<open>What the loops write to the output buffer, without the terminator.\<close>

definition translate_loops :: "u8 \<Rightarrow> u8 \<Rightarrow> bytes \<Rightarrow> bytes option" where
  "translate_loops enc desiredEnc zIn =
     (if enc = SQLITE_UTF8 then
        (if desiredEnc = SQLITE_UTF16LE then utf8_loop WRITE_UTF16LE zIn else utf8_loop WRITE_UTF16BE zIn)
      else utf16_loop (enc = SQLITE_UTF16LE) zIn)"

definition sqlite3VdbeMemTranslate :: "mem_env \<Rightarrow> Mem \<Rightarrow> u8 \<Rightarrow> (int \<times> Mem) option" where
  "sqlite3VdbeMemTranslate e p desiredEnc =
     (if m_enc p \<noteq> SQLITE_UTF8 \<and> desiredEnc \<noteq> SQLITE_UTF8 then
        do { (rc, p) \<leftarrow> sqlite3VdbeMemMakeWriteable e p;
             if rc \<noteq> SQLITE_OK then Some (SQLITE_NOMEM, p)
             else do { d \<leftarrow> z_read p (m_n p AND NOT 1);
                       p \<leftarrow> (if d = [] then Some p else z_write p 0 (swap_loop d));
                       Some (SQLITE_OK, p\<lparr>m_enc := desiredEnc\<rparr>) } }
      else
        do { let p = (if desiredEnc = SQLITE_UTF8 then p\<lparr>m_n := m_n p AND NOT 1\<rparr> else p);
             let len = (if desiredEnc = SQLITE_UTF8 then 2 * m_n p + 1 else 2 * m_n p + 2);
             (case me_alloc e len of
                None \<Rightarrow> Some (SQLITE_NOMEM, p)
              | Some zOut \<Rightarrow>
                  do { zIn \<leftarrow> z_read p (m_n p);
                       out \<leftarrow> translate_loops (m_enc p) desiredEnc zIn;
                       zOut \<leftarrow> poke zOut 0 (out @ (if m_enc p = SQLITE_UTF8 then [0, 0] else [0]));
                       let p = p\<lparr>m_n := int (length out)\<rparr>;
                       let c = MEM_Str OR MEM_Term OR (m_flags p AND (MEM_AffMask OR MEM_Subtype));
                       p \<leftarrow> sqlite3VdbeMemRelease e p;
                       Some (SQLITE_OK, p\<lparr>m_flags := c, m_enc := desiredEnc, m_z := Zmalloc, m_zMalloc := zOut\<rparr>) }) })"

definition sqlite3VdbeChangeEncoding :: "mem_env \<Rightarrow> Mem \<Rightarrow> u8 \<Rightarrow> (int \<times> Mem) option" where
  "sqlite3VdbeChangeEncoding e p desiredEnc =
     (if \<not> has p MEM_Str then Some (SQLITE_OK, p\<lparr>m_enc := desiredEnc\<rparr>)
      else if m_enc p = desiredEnc then Some (SQLITE_OK, p)
      else sqlite3VdbeMemTranslate e p desiredEnc)"

definition bom_of :: "bytes \<Rightarrow> u8" where
  "bom_of b = (if b ! 0 = 0xFE \<and> b ! 1 = 0xFF then SQLITE_UTF16BE else if b ! 0 = 0xFF \<and> b ! 1 = 0xFE then SQLITE_UTF16LE else 0)"

definition sqlite3VdbeMemHandleBom :: "mem_env \<Rightarrow> Mem \<Rightarrow> (int \<times> Mem) option" where
  "sqlite3VdbeMemHandleBom e p =
     do { bom \<leftarrow> (if m_n p > 1 then do { b \<leftarrow> z_read p 2; Some (bom_of b) } else Some 0);
          if bom \<noteq> 0 then
            do { (rc, p) \<leftarrow> sqlite3VdbeMemMakeWriteable e p;
                 if rc = SQLITE_OK then
                   do { let p = p\<lparr>m_n := m_n p - 2\<rparr>;
                        b \<leftarrow> z_mem p;
                        d \<leftarrow> peek b 2 (m_n p);
                        p \<leftarrow> z_write p 0 (d @ [0, 0]);
                        Some (rc, p\<lparr>m_flags := m_flags p OR MEM_Term, m_enc := bom\<rparr>) }
                 else Some (rc, p) }
          else Some (SQLITE_OK, p) }"

section \<open>Setting a string\<close>

text \<open>The memory management the caller asks for: \<^verbatim>\<open>SQLITE_STATIC\<close>, \<^verbatim>\<open>SQLITE_TRANSIENT\<close>, \<^verbatim>\<open>SQLITE_DYNAMIC\<close> or a destructor.\<close>

datatype xdel_arg = Static | Transient | Dynamic | Destructor destructor

text \<open>The length up to the terminator: \<open>strlen\<close>, and the loop over 16-bit units, which stops beyond the limit.\<close>

fun strlen :: "bytes \<Rightarrow> int option" where
  "strlen [] = None"
| "strlen (c # r) = (if c = 0 then Some 0 else do { n \<leftarrow> strlen r; Some (n + 1) })"

fun unit_len :: "int \<Rightarrow> int \<Rightarrow> bytes \<Rightarrow> int option" where
  "unit_len iLimit nByte (a # b # r) =
     (if nByte \<le> iLimit \<and> a OR b \<noteq> 0 then unit_len iLimit (nByte + 2) r else Some nByte)"
| "unit_len iLimit nByte r = (if nByte \<le> iLimit then None else Some nByte)"

text \<open>The length in bytes of what \<open>z\<close> holds.\<close>

definition setstr_nByte :: "int \<Rightarrow> bytes \<Rightarrow> int \<Rightarrow> u8 \<Rightarrow> int option" where
  "setstr_nByte iLimit z n enc =
     (if n < 0 then (if enc = SQLITE_UTF8 then strlen z else unit_len iLimit 0 z) else Some n)"

text \<open>The block that sets \<open>z\<close> and \<open>xDel\<close>: the code, the cell and the flags with the kind of memory added.\<close>

definition setstr_place :: "mem_env \<Rightarrow> Mem \<Rightarrow> bytes \<Rightarrow> int \<Rightarrow> u8 \<Rightarrow> u16 \<Rightarrow> xdel_arg \<Rightarrow> (int \<times> Mem \<times> u16) option" where
  "setstr_place e p z nByte enc flags xDel =
     (case xDel of
        Transient \<Rightarrow>
          do { let nAlloc = nByte + (if flags AND MEM_Term \<noteq> 0 then (if enc = SQLITE_UTF8 then 1 else 2) else 0);
               (rc, p) \<leftarrow> sqlite3VdbeMemClearAndResize e p (max nAlloc 32);
               if rc \<noteq> SQLITE_OK then Some (SQLITE_NOMEM, p, flags)
               else do { d \<leftarrow> peek z 0 nAlloc; p \<leftarrow> z_write p 0 d; Some (SQLITE_OK, p, flags) } }
      | Dynamic \<Rightarrow>
          do { p \<leftarrow> sqlite3VdbeMemRelease e p; Some (SQLITE_OK, p\<lparr>m_z := Zmalloc, m_zMalloc := z\<rparr>, flags) }
      | Static \<Rightarrow>
          do { p \<leftarrow> sqlite3VdbeMemRelease e p; Some (SQLITE_OK, p\<lparr>m_z := Zext z\<rparr>, flags OR MEM_Static) }
      | Destructor d \<Rightarrow>
          do { p \<leftarrow> sqlite3VdbeMemRelease e p; Some (SQLITE_OK, p\<lparr>m_z := Zext z, m_xDel := d\<rparr>, flags OR MEM_Dyn) })"

text \<open>
  A string that is too long is released when the cell was to own it; \<open>sqlite3ErrorToParser\<close> returns its argument after
  noting it in a statement that is being parsed.
\<close>

definition sqlite3VdbeMemSetStr :: "mem_env \<Rightarrow> Mem \<Rightarrow> bytes option \<Rightarrow> int \<Rightarrow> u8 \<Rightarrow> xdel_arg \<Rightarrow> (int \<times> Mem) option" where
  "sqlite3VdbeMemSetStr e p z n enc xDel =
     (case z of
        None \<Rightarrow> do { p \<leftarrow> sqlite3VdbeMemSetNull e p; Some (SQLITE_OK, p) }
      | Some z \<Rightarrow>
          do { let iLimit = (case me_limit e of Some l \<Rightarrow> l | None \<Rightarrow> SQLITE_MAX_LENGTH);
               nByte \<leftarrow> setstr_nByte iLimit z n enc;
               let flags = (if n < 0 then MEM_Str OR MEM_Term else if enc = 0 then MEM_Blob else MEM_Str);
               let enc = (if n \<ge> 0 \<and> enc = 0 then SQLITE_UTF8 else enc);
               if nByte > iLimit then
                 do { let p = (case xDel of Destructor _ \<Rightarrow> p\<lparr>xDel_calls := Suc (xDel_calls p)\<rparr> | _ \<Rightarrow> p);
                      p \<leftarrow> sqlite3VdbeMemSetNull e p;
                      Some (SQLITE_TOOBIG, p) }
               else
                 do { (rc, p, flags) \<leftarrow> setstr_place e p z nByte enc flags xDel;
                      if rc \<noteq> SQLITE_OK then Some (rc, p)
                      else
                        do { let p = p\<lparr>m_n := nByte AND 0x7fffffff, m_flags := flags, m_enc := enc\<rparr>;
                             if enc > SQLITE_UTF8 then
                               do { (rc, p) \<leftarrow> sqlite3VdbeMemHandleBom e p;
                                    if rc \<noteq> SQLITE_OK then Some (SQLITE_NOMEM, p) else Some (SQLITE_OK, p) }
                             else Some (SQLITE_OK, p) } } })"

section \<open>Copying\<close>

text \<open>A pointer into another cell's allocation is a pointer to memory of somebody else.\<close>

definition sqlite3VdbeMemCopy :: "mem_env \<Rightarrow> Mem \<Rightarrow> Mem \<Rightarrow> (int \<times> Mem) option" where
  "sqlite3VdbeMemCopy e pTo pFrom =
     do { pTo \<leftarrow> (if VdbeMemDynamic pTo then vdbeMemClearExternAndSetNull e pTo else Some pTo);
          let pTo = pTo\<lparr>u_nZero := u_nZero pFrom,
                        m_z := (if m_z pFrom = Zmalloc then Zext (m_zMalloc pFrom) else m_z pFrom),
                        m_n := m_n pFrom, m_enc := m_enc pFrom, m_flags := m_flags pFrom AND NOT MEM_Dyn\<rparr>;
          if m_flags pTo AND (MEM_Str OR MEM_Blob) \<noteq> 0 \<and> \<not> has pFrom MEM_Static
          then sqlite3VdbeMemMakeWriteable e (pTo\<lparr>m_flags := m_flags pTo OR MEM_Ephem\<rparr>)
          else Some (SQLITE_OK, pTo) }"

definition sqlite3VdbeMemMove :: "mem_env \<Rightarrow> Mem \<Rightarrow> Mem \<Rightarrow> (Mem \<times> Mem) option" where
  "sqlite3VdbeMemMove e pTo pFrom =
     do { pTo' \<leftarrow> sqlite3VdbeMemRelease e pTo;
          Some (pFrom\<lparr>xDel_calls := xDel_calls pTo'\<rparr>,
                pFrom\<lparr>m_flags := MEM_Null, m_zMalloc := [],
                       m_z := (if m_z pFrom = Zmalloc then Zext (m_zMalloc pFrom) else m_z pFrom)\<rparr>) }"

section \<open>The conversion of a string\<close>

definition zero_cell :: Mem where
  "zero_cell = \<lparr> u_nZero = 0, m_z = Znull, m_n = 0, m_flags = 0, m_enc = 0, m_zMalloc = [], m_xDel = OtherDestructor, xDel_calls = 0 \<rparr>"

text \<open>The result is the string with the flag \<open>db->mallocFailed\<close>, which a failing allocation sets.\<close>

definition sqlite3Utf16to8 :: "mem_env \<Rightarrow> bool \<Rightarrow> bytes option \<Rightarrow> int \<Rightarrow> u8 \<Rightarrow> (bytes option \<times> bool) option" where
  "sqlite3Utf16to8 e mallocFailed z nByte enc =
     do { (rc1, m) \<leftarrow> sqlite3VdbeMemSetStr e zero_cell z nByte enc Static;
          (rc2, m) \<leftarrow> sqlite3VdbeChangeEncoding e m SQLITE_UTF8;
          if mallocFailed \<or> rc1 = SQLITE_NOMEM \<or> rc2 = SQLITE_NOMEM
          then do { m \<leftarrow> sqlite3VdbeMemRelease e m; Some (None, True) }
          else Some (z_mem m, False) }"

end
