(* ===== verification/Memcell_Invariant.thy ===== *)
theory Memcell_Invariant
  imports Memcell
begin

text \<open>
  The invariant of the memory cells and what the routines that allocate and release do to a cell: they keep it well
  formed, stay inside the memory they may use and call a destructor exactly once.
\<close>

section \<open>Flags\<close>

lemma has_bit:
  "has p MEM_Str \<longleftrightarrow> bit (m_flags p) 1" "has p MEM_Blob \<longleftrightarrow> bit (m_flags p) 4" "has p MEM_Zero \<longleftrightarrow> bit (m_flags p) 10"
  "has p MEM_Dyn \<longleftrightarrow> bit (m_flags p) 12" "has p MEM_Static \<longleftrightarrow> bit (m_flags p) 13" "has p MEM_Agg \<longleftrightarrow> bit (m_flags p) 15"
proof -
  have "w AND 2 ^ k \<noteq> 0 \<longleftrightarrow> bit w k" for w :: u16 and k
    by (simp add: and_exp_eq_0_iff_not_bit)
  from this [of _ 1] this [of _ 4] this [of _ 10] this [of _ 12] this [of _ 13] this [of _ 15]
  show "has p MEM_Str \<longleftrightarrow> bit (m_flags p) 1" "has p MEM_Blob \<longleftrightarrow> bit (m_flags p) 4" "has p MEM_Zero \<longleftrightarrow> bit (m_flags p) 10"
    "has p MEM_Dyn \<longleftrightarrow> bit (m_flags p) 12" "has p MEM_Static \<longleftrightarrow> bit (m_flags p) 13" "has p MEM_Agg \<longleftrightarrow> bit (m_flags p) 15"
    by (simp_all add: has_def)
qed

lemma and_or_zero: "w AND (a OR b) \<noteq> 0 \<longleftrightarrow> w AND a \<noteq> 0 \<or> w AND b \<noteq> (0 :: u16)"
  by (simp add: bit_eq_iff bit_simps) blast

lemma dynamic_bit: "VdbeMemDynamic p \<longleftrightarrow> bit (m_flags p) 15 \<or> bit (m_flags p) 12"
  unfolding VdbeMemDynamic_def and_or_zero has_bit(4,6) [symmetric] has_def ..

lemma str_or_blob: "m_flags (p :: Mem) AND 0x12 = 0 \<longleftrightarrow> \<not> bit (m_flags p) 1 \<and> \<not> bit (m_flags p) 4"
proof -
  have "(0x12 :: u16) = MEM_Str OR MEM_Blob" by simp
  then show ?thesis using and_or_zero [of "m_flags p" MEM_Str MEM_Blob] has_bit(1,2) [of p] by (auto simp only: has_def)
qed

section \<open>Well-formed cells\<close>

definition stored :: "Mem \<Rightarrow> bool" where
  "stored p \<longleftrightarrow> 0 \<le> m_n p \<and>
     (case m_z p of
        Znull \<Rightarrow> m_n p = 0
      | Zmalloc \<Rightarrow> m_n p \<le> int (length (m_zMalloc p)) \<and> m_zMalloc p \<noteq> []
      | Zext b \<Rightarrow> m_n p \<le> int (length b)
      | Zdangling \<Rightarrow> False)"

definition cell_ok :: "Mem \<Rightarrow> bool" where
  "cell_ok p \<longleftrightarrow>
     \<not> bit (m_flags p) 15 \<and> (bit (m_flags p) 12 \<longrightarrow> m_zMalloc p = [] \<and> (\<exists>b. m_z p = Zext b))
     \<and> (bit (m_flags p) 1 \<or> bit (m_flags p) 4 \<longrightarrow> stored p)
     \<and> (bit (m_flags p) 10 \<longrightarrow> \<not> bit (m_flags p) 1 \<and> 0 \<le> u_nZero p)
     \<and> (bit (m_flags p) 1 \<longrightarrow> m_enc p \<in> {1, 2, 3})
     \<and> (bit (m_flags p) 1 \<and> m_z p \<noteq> Zmalloc \<longrightarrow> \<not> bit (m_flags p) 12 \<longrightarrow> bit (m_flags p) 13 \<or> bit (m_flags p) 14 \<or> m_z p = Znull)"

text \<open>The destructors that have been called or are still to be called.\<close>

definition held :: "Mem \<Rightarrow> nat" where
  "held p = xDel_calls p + of_bool (bit (m_flags p) 12)"

definition alloc_ok :: "mem_env \<Rightarrow> bool" where
  "alloc_ok e \<longleftrightarrow> (\<forall>n b. me_alloc e n = Some b \<longrightarrow> n \<le> int (length b))"

definition kept :: "Mem \<Rightarrow> (int \<times> Mem) option \<Rightarrow> bool" where
  "kept p r \<longleftrightarrow> (\<exists>rc p'. r = Some (rc, p') \<and> cell_ok p' \<and> held p' = held p)"

lemma cell_okD:
  assumes "cell_ok p"
  shows "\<not> bit (m_flags p) 15"
    and "bit (m_flags p) 12 \<Longrightarrow> m_zMalloc p = []" "bit (m_flags p) 12 \<Longrightarrow> \<exists>b. m_z p = Zext b"
    and "bit (m_flags p) 1 \<Longrightarrow> stored p" "bit (m_flags p) 4 \<Longrightarrow> stored p"
    and "bit (m_flags p) 10 \<Longrightarrow> \<not> bit (m_flags p) 1" "bit (m_flags p) 10 \<Longrightarrow> 0 \<le> u_nZero p"
    and "bit (m_flags p) 1 \<Longrightarrow> m_enc p \<in> {1, 2, 3}"
  using assms by (simp_all add: cell_ok_def)

text \<open>The destructor, when there is one.\<close>

definition releasable :: "Mem \<Rightarrow> bool" where
  "releasable p \<longleftrightarrow> \<not> bit (m_flags p) 15 \<and> (bit (m_flags p) 12 \<longrightarrow> (\<exists>b. m_z p = Zext b))"

lemma cell_ok_releasable: "cell_ok p \<Longrightarrow> releasable p"
  by (simp add: cell_ok_def releasable_def)

lemma ClearExtern_ok:
  assumes "releasable p" and "bit (m_flags p) 12"
  shows "vdbeMemClearExternAndSetNull e p = Some (p\<lparr>m_z := Zdangling, xDel_calls := Suc (xDel_calls p), m_flags := MEM_Null\<rparr>)"
  using assms by (auto simp: releasable_def vdbeMemClearExternAndSetNull_def has_bit call_xDel_def)

lemma SetNull_eq:
  assumes "releasable p"
  shows "sqlite3VdbeMemSetNull e p =
    Some (if bit (m_flags p) 12 then p\<lparr>m_z := Zdangling, xDel_calls := Suc (xDel_calls p), m_flags := MEM_Null\<rparr>
          else p\<lparr>m_flags := MEM_Null\<rparr>)"
  using ClearExtern_ok [OF assms] assms by (simp add: sqlite3VdbeMemSetNull_def dynamic_bit releasable_def)

lemma Release_eq:
  assumes "releasable p" and "bit (m_flags p) 12 \<Longrightarrow> m_zMalloc p = []"
  shows "sqlite3VdbeMemRelease e p =
    Some (if bit (m_flags p) 12 then p\<lparr>m_z := Znull, xDel_calls := Suc (xDel_calls p), m_flags := MEM_Null\<rparr>
          else if m_zMalloc p \<noteq> [] then p\<lparr>m_zMalloc := [], m_z := Znull\<rparr> else p)"
  using ClearExtern_ok [OF assms(1)] assms
  by (simp add: releasable_def sqlite3VdbeMemRelease_def vdbeMemClear_def dynamic_bit szMalloc_def free_zMalloc_def)

lemma null_ok: "m_flags p = MEM_Null \<Longrightarrow> cell_ok p"
  by (simp add: cell_ok_def)

lemma Release_held:
  assumes "cell_ok p" and "sqlite3VdbeMemRelease e p = Some p'"
  shows "m_zMalloc p' = []" and "xDel_calls p' = held p" and "\<not> bit (m_flags p') 12" and "m_n p' = m_n p"
  using assms(2) cell_okD(2) [OF assms(1)]
  by (auto simp: Release_eq [OF cell_ok_releasable [OF assms(1)]] held_def split: if_splits)

section \<open>Growing\<close>

lemma grow_fail_ok: "releasable p \<Longrightarrow> \<exists>p'. grow_fail e p = Some (SQLITE_NOMEM, p') \<and> m_flags p' = MEM_Null \<and> held p' = held p"
  by (simp add: grow_fail_def SetNull_eq held_def)

text \<open>What a successful call leaves: an owned block of at least \<open>n\<close> bytes.\<close>

definition owned :: "u16 \<Rightarrow> u16" where
  "owned w = w AND NOT (MEM_Dyn OR MEM_Ephem OR MEM_Static)"

definition grown :: "Mem \<Rightarrow> int \<Rightarrow> Mem \<Rightarrow> bool" where
  "grown p n p' \<longleftrightarrow> m_z p' = Zmalloc \<and> n \<le> int (length (m_zMalloc p')) \<and> held p' = held p
     \<and> m_flags p' = owned (m_flags p)
     \<and> m_n p' = m_n p \<and> m_enc p' = m_enc p \<and> u_nZero p' = u_nZero p"

lemma owned_bits:
  "bit (owned w) k \<longleftrightarrow> k < 16 \<and> bit w k \<and> k \<noteq> 12 \<and> k \<noteq> 13 \<and> k \<noteq> 14"
proof -
  have "MEM_Dyn OR MEM_Ephem OR MEM_Static = (2 ^ 12 OR 2 ^ 14 OR 2 ^ 13 :: u16)" by simp
  then show ?thesis by (auto simp only: owned_def bit_and_iff bit_not_iff bit_or_iff bit_exp_iff) (auto simp: bit_imp_le_length)
qed

lemma grow_done_ok:
  assumes "releasable p"
  shows "grow_done p = Some (SQLITE_OK, p\<lparr>m_z := Zmalloc, xDel_calls := held p,
    m_flags := owned (m_flags p)\<rparr>)"
proof (cases "bit (m_flags p) 12")
  case True
  then show ?thesis using assms by (auto simp: releasable_def grow_done_def has_bit call_xDel_def held_def owned_def)
next
  case False
  then show ?thesis by (cases p) (simp add: grow_done_def has_bit held_def owned_def)
qed

lemma grown_done: "n \<le> int (length b) \<Longrightarrow>
    grown p n (p\<lparr>m_z := Zmalloc, m_zMalloc := b, xDel_calls := held p,
      m_flags := owned (m_flags p)\<rparr>)"
  by (simp add: grown_def held_def owned_bits)

lemma stored_read: "stored p \<Longrightarrow> \<exists>d. z_read p (m_n p) = Some d \<and> int (length d) = m_n p"
  by (auto simp: stored_def z_read_def z_mem_def peek_def split: zptr.splits)

text \<open>The outcomes of \<open>sqlite3VdbeMemGrow\<close>: a block that holds what the cell held, or a NULL.\<close>

definition grow_result :: "mem_env \<Rightarrow> Mem \<Rightarrow> int \<Rightarrow> bool \<Rightarrow> bool" where
  "grow_result e p n bPreserve \<longleftrightarrow>
     (case me_alloc e n of
        Some _ \<Rightarrow> \<exists>p'. sqlite3VdbeMemGrow e p n bPreserve = Some (SQLITE_OK, p') \<and> grown p n p'
                     \<and> (bPreserve \<longrightarrow> z_read p' (m_n p) = z_read p (m_n p))
      | None \<Rightarrow> \<exists>p'. sqlite3VdbeMemGrow e p n bPreserve = Some (SQLITE_NOMEM, p') \<and> m_flags p' = MEM_Null \<and> held p' = held p)"

lemma Grow_realloc:
  assumes "cell_ok p" and "alloc_ok e" and "stored p" and "m_n p \<le> n" and "szMalloc p > 0" and "m_z p = Zmalloc"
  shows "grow_result e p n True"
proof (cases "me_alloc e n")
  case None
  have nd: "\<not> bit (m_flags p) 12" using cell_okD(3) [OF assms(1)] assms(6) by auto
  then have "releasable (p\<lparr>m_zMalloc := [], m_z := Znull\<rparr>)" using assms(1) by (simp add: releasable_def cell_ok_def)
  from grow_fail_ok [OF this, of e] show ?thesis
    using None assms by (auto simp: grow_result_def sqlite3VdbeMemGrow_def held_def)
next
  case (Some b)
  define old where "old = take (nat n) (m_zMalloc p)"
  have nd: "\<not> bit (m_flags p) 12" using cell_okD(3) [OF assms(1)] assms(6) by auto
  have r: "releasable (p\<lparr>m_zMalloc := old @ drop (length old) b\<rparr>)"
    using assms(1) nd by (simp add: releasable_def cell_ok_def)
  have b: "n \<le> int (length b)" using assms(2) Some by (auto simp: alloc_ok_def)
  have nn: "0 \<le> m_n p" "m_n p \<le> int (length (m_zMalloc p))" using assms by (auto simp: stored_def)
  have len: "length (old @ drop (length old) b) = length b" using b by (simp add: old_def)
  have "take (nat (m_n p)) (old @ drop (length old) b) = take (nat (m_n p)) (m_zMalloc p)"
    using nn assms(4) by (simp add: old_def min_def) linarith
  then have rd: "z_read (p\<lparr>m_z := Zmalloc, m_zMalloc := old @ drop (length old) b, xDel_calls := x, m_flags := f\<rparr>) (m_n p) = z_read p (m_n p)" for x f
    using nn assms(4,6) b len by (simp add: z_read_def z_mem_def peek_def)
  have gd: "grow_done (p\<lparr>m_zMalloc := old @ drop (length old) b\<rparr>) = Some (SQLITE_OK,
      p\<lparr>m_z := Zmalloc, m_zMalloc := old @ drop (length old) b, xDel_calls := held p, m_flags := owned (m_flags p)\<rparr>)"
    using grow_done_ok [OF r] by (simp add: held_def)
  show ?thesis
    using Some assms(5,6) gd rd grown_done [of n "old @ drop (length old) b" p] b len
    by (simp add: grow_result_def sqlite3VdbeMemGrow_def Let_def old_def [symmetric])
qed

lemma Grow_fresh:
  assumes "cell_ok p" and "alloc_ok e" and "0 \<le> n" and "bPreserve \<Longrightarrow> stored p \<and> m_n p \<le> n"
    and "\<not> (szMalloc p > 0 \<and> bPreserve \<and> m_z p = Zmalloc)"
  shows "grow_result e p n bPreserve"
proof -
  let ?q = "free_zMalloc p"
  have q: "releasable ?q" using assms(1) by (auto simp: releasable_def cell_ok_def free_zMalloc_def)
  have hq: "held ?q = held p" by (simp add: held_def free_zMalloc_def)
  show ?thesis
  proof (cases "me_alloc e n")
    case None
    with grow_fail_ok [OF q, of e] hq assms(5) show ?thesis
      by (auto simp: grow_result_def sqlite3VdbeMemGrow_def Let_def)
  next
    case (Some b)
    have b: "n \<le> int (length b)" using assms(2) Some by (auto simp: alloc_ok_def)
    have q': "releasable (?q\<lparr>m_zMalloc := c\<rparr>)" for c using q by (simp add: releasable_def)
    have done_q: "grow_done (?q\<lparr>m_zMalloc := c\<rparr>) = Some (SQLITE_OK, p\<lparr>m_z := Zmalloc, m_zMalloc := c, xDel_calls := held p,
        m_flags := owned (m_flags p)\<rparr>)" for c
      using grow_done_ok [OF q', of c] hq by (simp add: held_def free_zMalloc_def)
    show ?thesis
    proof (cases "bPreserve \<and> m_z ?q \<noteq> Znull")
      case True
      then have st: "stored p" "m_n p \<le> n" using assms(4) by auto
      have nz: "m_z p \<noteq> Zmalloc" using assms(5) True st by (auto simp: szMalloc_def stored_def)
      then have eq: "m_z ?q = m_z p" "m_n ?q = m_n p" by (simp_all add: free_zMalloc_def)
      have rdq: "z_read ?q (m_n p) = z_read p (m_n p)" using nz eq by (simp add: z_read_def z_mem_def split: zptr.splits)
      obtain d where d: "z_read p (m_n p) = Some d" "int (length d) = m_n p" using stored_read [OF st(1)] by blast
      obtain c where c: "poke b 0 d = Some c" using d st b by (auto simp: poke_def)
      then have lc: "length c = length b" by (rule poke_length)
      have "z_read (p\<lparr>m_z := Zmalloc, m_zMalloc := c, xDel_calls := x, m_flags := f\<rparr>) (m_n p) = Some d" for x f
        using peek_poke_same [OF c, of "m_n p"] d(2) by (auto simp: z_read_def z_mem_def)
      then show ?thesis
        using Some True assms(5) d c done_q [of c] eq rdq grown_done [of n c p] b lc
        by (auto simp: grow_result_def sqlite3VdbeMemGrow_def Let_def)
    next
      case False
      have "z_read (p\<lparr>m_z := Zmalloc, m_zMalloc := b, xDel_calls := x, m_flags := f\<rparr>) (m_n p) = z_read p (m_n p)" if bPreserve for x f
      proof -
        have "m_n p = 0" using that False assms(4,5) by (auto simp: stored_def free_zMalloc_def szMalloc_def split: if_splits)
        then show ?thesis by (simp add: z_read_def)
      qed
      then show ?thesis
        using Some False assms(5) done_q [of b] grown_done [of n b p] b
        by (auto simp: grow_result_def sqlite3VdbeMemGrow_def Let_def)
    qed
  qed
qed

lemma Grow_ok:
  assumes "cell_ok p" and "alloc_ok e" and "0 \<le> n" and "bPreserve \<Longrightarrow> stored p \<and> m_n p \<le> n"
  shows "grow_result e p n bPreserve"
proof (cases "szMalloc p > 0 \<and> bPreserve \<and> m_z p = Zmalloc")
  case True
  with Grow_realloc [OF assms(1,2)] assms(4) show ?thesis by simp
next
  case False
  with Grow_fresh [OF assms] show ?thesis by simp
qed

text \<open>A grown cell with a string or blob of suitable length is well formed.\<close>

lemma grown_ok:
  assumes "cell_ok p" and "grown p n p'" and "1 \<le> n" and "bit (m_flags p) 1 \<or> bit (m_flags p) 4 \<Longrightarrow> m_n p \<le> n"
  shows "cell_ok p'"
proof -
  have len: "0 < length (m_zMalloc p')" using assms(2,3) by (auto simp: grown_def)
  have st: "stored p'" if "bit (m_flags p) 1 \<or> bit (m_flags p) 4"
  proof -
    have "stored p" using that cell_okD(4,5) [OF assms(1)] by blast
    then have "0 \<le> m_n p" by (simp add: stored_def)
    moreover have "m_n p \<le> n" using assms(4) that by blast
    ultimately show ?thesis using assms(2) len by (auto simp: stored_def grown_def)
  qed
  have "m_flags p' = owned (m_flags p)" "m_enc p' = m_enc p" "u_nZero p' = u_nZero p" "m_z p' = Zmalloc"
    using assms(2) by (simp_all add: grown_def)
  with cell_okD [OF assms(1)] st show ?thesis by (simp add: cell_ok_def owned_bits)
qed

lemma ClearAndResize_ok:
  assumes "cell_ok p" and "alloc_ok e" and "1 \<le> szNew"
  shows "(\<exists>p'. sqlite3VdbeMemClearAndResize e p szNew = Some (SQLITE_OK, p') \<and> m_z p' = Zmalloc
            \<and> szNew \<le> int (length (m_zMalloc p')) \<and> held p' = held p \<and> \<not> bit (m_flags p') 12 \<and> cell_ok (p'\<lparr>m_flags := MEM_Null\<rparr>))
    \<or> (\<exists>p'. sqlite3VdbeMemClearAndResize e p szNew = Some (SQLITE_NOMEM, p') \<and> m_flags p' = MEM_Null \<and> held p' = held p)"
proof (cases "szMalloc p < szNew")
  case True
  have "grow_result e p szNew False" using Grow_ok [OF assms(1,2)] assms(3) by simp
  then show ?thesis
    using True by (cases "me_alloc e szNew")
      (auto simp: grow_result_def sqlite3VdbeMemClearAndResize_def grown_def owned_bits null_ok)
next
  case False
  then have "m_zMalloc p \<noteq> []" using assms(3) by (auto simp: szMalloc_def)
  then have "\<not> bit (m_flags p) 12" using cell_okD(2) [OF assms(1)] by blast
  then show ?thesis
    using False by (simp add: sqlite3VdbeMemClearAndResize_def szMalloc_def held_def null_ok bit_and_iff)
qed

section \<open>Terminators and writable copies\<close>

lemma z_read_frame [simp]:
  "z_read (p\<lparr>m_flags := f\<rparr>) k = z_read p k" "z_read (p\<lparr>m_enc := c\<rparr>) k = z_read p k" "z_read (p\<lparr>m_n := n\<rparr>) k = z_read p k"
  "z_read (p\<lparr>xDel_calls := x\<rparr>) k = z_read p k" "z_read (p\<lparr>u_nZero := n\<rparr>) k = z_read p k"
  by (simp_all add: z_read_def z_mem_def cong: zptr.case_cong)

definition nulled :: "mem_env \<Rightarrow> Mem \<Rightarrow> (int \<times> Mem) option \<Rightarrow> bool" where
  "nulled e p r \<longleftrightarrow> (\<exists>p'. r = Some (SQLITE_NOMEM, p') \<and> m_flags p' = MEM_Null \<and> held p' = held p)
     \<and> (\<exists>n. me_alloc e n = None)"

definition same_text :: "Mem \<Rightarrow> Mem \<Rightarrow> bool" where
  "same_text p p' \<longleftrightarrow> m_n p' = m_n p \<and> m_enc p' = m_enc p \<and> z_read p' (m_n p') = z_read p (m_n p)
     \<and> bit (m_flags p') 1 = bit (m_flags p) 1 \<and> bit (m_flags p') 4 = bit (m_flags p) 4"

definition rewritten :: "Mem \<Rightarrow> (int \<times> Mem) option \<Rightarrow> bool" where
  "rewritten p r \<longleftrightarrow> (\<exists>p'. r = Some (SQLITE_OK, p') \<and> cell_ok p' \<and> held p' = held p \<and> same_text p p' \<and> m_z p' = Zmalloc
     \<and> (bit (m_flags p) 10 \<or> bit (m_flags p') 10 = bit (m_flags p) 10))"

lemma or_term_bits: "bit (w OR MEM_Term :: u16) k \<longleftrightarrow> bit w k \<or> k = 9"
proof -
  have "MEM_Term = (2 ^ 9 :: u16)" by simp
  then show ?thesis by (auto simp only: bit_or_iff bit_exp_iff) simp
qed

lemma not_ephem_bits: "bit (w AND NOT MEM_Ephem :: u16) k \<longleftrightarrow> bit w k \<and> k \<noteq> 14"
proof -
  have "MEM_Ephem = (2 ^ 14 :: u16)" by simp
  then show ?thesis by (auto simp only: bit_and_iff bit_not_iff bit_exp_iff) (auto dest: bit_imp_le_length)
qed

text \<open>A write into the owned block behind the text.\<close>

lemma z_write_behind:
  assumes "m_z p = Zmalloc" and "0 \<le> m_n p" and "m_n p + int (length d) \<le> int (length (m_zMalloc p))"
  shows "\<exists>b. z_write p (m_n p) d = Some (p\<lparr>m_zMalloc := b\<rparr>) \<and> length b = length (m_zMalloc p)
    \<and> z_read (p\<lparr>m_zMalloc := b\<rparr>) (m_n p) = z_read p (m_n p)"
proof -
  obtain b where b: "poke (m_zMalloc p) (m_n p) d = Some b" "length b = length (m_zMalloc p)"
    using poke_defined [OF assms(2,3)] by blast
  then show ?thesis
    using assms peek_poke_before [OF b(1), of 0 "m_n p"]
    by (intro exI [of _ b]) (simp add: z_write_def z_read_def z_mem_def)
qed

lemma AddTerminator_ok:
  assumes "cell_ok p" and "alloc_ok e" and "stored p" and "\<not> bit (m_flags p) 10"
  shows "rewritten p (vdbeMemAddTerminator e p) \<or> nulled e p (vdbeMemAddTerminator e p)"
proof -
  have n: "0 \<le> m_n p" using assms(3) by (simp add: stored_def)
  have gr: "grow_result e p (m_n p + 3) True" using Grow_ok [OF assms(1,2)] assms(3) n by simp
  show ?thesis
  proof (cases "me_alloc e (m_n p + 3)")
    case None
    with gr show ?thesis by (auto simp: grow_result_def nulled_def vdbeMemAddTerminator_def)
  next
    case (Some x)
    with gr obtain q where q: "sqlite3VdbeMemGrow e p (m_n p + 3) True = Some (SQLITE_OK, q)" "grown p (m_n p + 3) q"
      "z_read q (m_n p) = z_read p (m_n p)" by (auto simp: grow_result_def)
    have ok: "cell_ok q" using grown_ok [OF assms(1) q(2)] n by simp
    have g: "m_z q = Zmalloc" "m_n q = m_n p" "m_n p + 3 \<le> int (length (m_zMalloc q))" "held q = held p"
      "m_flags q = owned (m_flags p)" "m_enc q = m_enc p"
      using q(2) by (simp_all add: grown_def)
    obtain b where b: "z_write q (m_n p) [0, 0, 0] = Some (q\<lparr>m_zMalloc := b\<rparr>)" "length b = length (m_zMalloc q)"
      "z_read (q\<lparr>m_zMalloc := b\<rparr>) (m_n p) = z_read q (m_n p)"
      using z_write_behind [of q "[0, 0, 0]"] g n by auto
    let ?r = "q\<lparr>m_zMalloc := b, m_flags := m_flags q OR MEM_Term\<rparr>"
    have "stored ?r" using g b n by (auto simp: stored_def)
    then have "cell_ok ?r" using ok g by (simp add: cell_ok_def or_term_bits owned_bits)
    moreover have "z_read ?r (m_n p) = z_read p (m_n p)" using b(3) q(3) by simp
    ultimately have "rewritten p (Some (SQLITE_OK, ?r))"
      using g by (simp add: rewritten_def same_text_def held_def or_term_bits owned_bits)
    then show ?thesis using q(1) b(1) g(2) by (simp add: vdbeMemAddTerminator_def)
  qed
qed

lemma ExpandBlob_ok:
  assumes "cell_ok p" and "alloc_ok e" and "bit (m_flags p) 10" and "bit (m_flags p) 4"
  shows "(\<exists>p'. sqlite3VdbeMemExpandBlob e p = Some (SQLITE_OK, p') \<and> cell_ok p' \<and> held p' = held p \<and> m_z p' = Zmalloc
            \<and> m_zMalloc p' \<noteq> [] \<and> \<not> bit (m_flags p') 10 \<and> bit (m_flags p') 4)
    \<or> nulled e p (sqlite3VdbeMemExpandBlob e p)"
proof -
  have st: "stored p" and nz: "0 \<le> u_nZero p" and ns: "\<not> bit (m_flags p) 1"
    using cell_okD [OF assms(1)] assms(3,4) by auto
  have n: "0 \<le> m_n p" using st by (simp add: stored_def)
  define m where "m = (if m_n p + u_nZero p \<le> 0 then 1 else m_n p + u_nZero p)"
  have m: "1 \<le> m" "m_n p + u_nZero p \<le> m" by (simp_all add: m_def)
  have def': "sqlite3VdbeMemExpandBlob e p = sqlite3VdbeMemGrow e p m True \<bind> (\<lambda>(rc, p).
      if rc \<noteq> SQLITE_OK then Some (SQLITE_NOMEM, p)
      else do { p \<leftarrow> z_write p (m_n p) (replicate (nat (u_nZero p)) 0);
                Some (SQLITE_OK, p\<lparr>m_n := m_n p + u_nZero p, m_flags := m_flags p AND NOT (MEM_Zero OR MEM_Term)\<rparr>) })"
    using assms(4) by (simp add: sqlite3VdbeMemExpandBlob_def has_bit m_def Let_def)
  have gr: "grow_result e p m True" using Grow_ok [OF assms(1,2)] st m nz n by simp
  show ?thesis
  proof (cases "me_alloc e m")
    case None
    with gr show ?thesis by (auto simp: grow_result_def nulled_def def')
  next
    case (Some x)
    with gr obtain q where q: "sqlite3VdbeMemGrow e p m True = Some (SQLITE_OK, q)" "grown p m q" by (auto simp: grow_result_def)
    have g: "m_z q = Zmalloc" "m_n q = m_n p" "m \<le> int (length (m_zMalloc q))" "held q = held p"
      "m_flags q = owned (m_flags p)" "u_nZero q = u_nZero p"
      using q(2) by (simp_all add: grown_def)
    obtain b where b: "z_write q (m_n p) (replicate (nat (u_nZero p)) 0) = Some (q\<lparr>m_zMalloc := b\<rparr>)"
      "length b = length (m_zMalloc q)"
      using z_write_behind [of q "replicate (nat (u_nZero p)) 0"] g n nz m by auto
    have ne: "b \<noteq> []" using b(2) g(3) m(1) by auto
    have zt: "bit (w AND NOT (MEM_Zero OR MEM_Term) :: u16) k \<longleftrightarrow> bit w k \<and> k \<noteq> 10 \<and> k \<noteq> 9" for w k
    proof -
      have "MEM_Zero OR MEM_Term = (2 ^ 10 OR 2 ^ 9 :: u16)" by simp
      then show ?thesis by (auto simp only: bit_and_iff bit_not_iff bit_or_iff bit_exp_iff) (auto dest: bit_imp_le_length)
    qed
    define r where "r = q\<lparr>m_zMalloc := b, m_n := m_n p + u_nZero p, m_flags := m_flags q AND NOT (MEM_Zero OR MEM_Term)\<rparr>"
    have r: "m_z r = Zmalloc" "m_zMalloc r = b" "m_n r = m_n p + u_nZero p" "xDel_calls r = xDel_calls q"
      by (simp_all add: r_def g)
    have r5: "bit (m_flags r) k \<longleftrightarrow> bit (m_flags q) k \<and> k \<noteq> 10 \<and> k \<noteq> 9" for k
      using zt [of "m_flags q" k] by (simp add: r_def)
    have fl: "bit (m_flags r) k \<longleftrightarrow> bit (m_flags p) k \<and> k \<noteq> 9 \<and> k \<noteq> 10 \<and> k \<noteq> 12 \<and> k \<noteq> 13 \<and> k \<noteq> 14" for k
      by (simp only: r5 g(5) owned_bits) (auto dest: bit_imp_le_length)
    have "stored r" using r b g n nz m ne by (simp add: stored_def)
    then have "cell_ok r" using cell_okD(1) [OF assms(1)] ns r(1) by (simp add: cell_ok_def fl)
    moreover have "held r = held p" using r(4) g(4,5) by (simp add: held_def fl owned_bits)
    moreover have "sqlite3VdbeMemExpandBlob e p = Some (SQLITE_OK, r)"
      using q(1) b(1) g by (simp add: def' r_def)
    ultimately show ?thesis using r(1,2) ne assms(4) by (intro disjI1 exI [of _ r]) (simp add: fl)
  qed
qed

definition writeable :: "Mem \<Rightarrow> (int \<times> Mem) option \<Rightarrow> bool" where
  "writeable p r \<longleftrightarrow> (\<exists>p'. r = Some (SQLITE_OK, p') \<and> cell_ok p' \<and> held p' = held p
     \<and> (bit (m_flags p) 1 \<longrightarrow> same_text p p' \<and> m_z p' = Zmalloc))"

lemma not_ephem_ok:
  assumes "cell_ok p" and "bit (m_flags p) 1 \<Longrightarrow> m_z p = Zmalloc"
  shows "cell_ok (p\<lparr>m_flags := m_flags p AND NOT MEM_Ephem\<rparr>)" "held (p\<lparr>m_flags := m_flags p AND NOT MEM_Ephem\<rparr>) = held p"
    "same_text p (p\<lparr>m_flags := m_flags p AND NOT MEM_Ephem\<rparr>)"
proof -
  define f where "f = m_flags p AND NOT MEM_Ephem"
  have f: "bit f k \<longleftrightarrow> bit (m_flags p) k \<and> k \<noteq> 14" for k unfolding f_def by (rule not_ephem_bits)
  have "stored (p\<lparr>m_flags := f\<rparr>) = stored p" by (simp add: stored_def split: zptr.splits)
  then show "cell_ok (p\<lparr>m_flags := m_flags p AND NOT MEM_Ephem\<rparr>)"
    unfolding f_def [symmetric] using assms by (auto simp: cell_ok_def f)
  show "held (p\<lparr>m_flags := m_flags p AND NOT MEM_Ephem\<rparr>) = held p"
    unfolding f_def [symmetric] by (simp add: held_def f)
  show "same_text p (p\<lparr>m_flags := m_flags p AND NOT MEM_Ephem\<rparr>)"
    unfolding f_def [symmetric] by (simp add: same_text_def f)
qed

lemma same_text_trans: "same_text p q \<Longrightarrow> same_text q r \<Longrightarrow> same_text p r"
  by (auto simp: same_text_def)

lemma writeable_end:
  assumes "cell_ok q" and "held q = held p" and "bit (m_flags p) 1 \<Longrightarrow> same_text p q" and "bit (m_flags q) 1 \<Longrightarrow> m_z q = Zmalloc"
  shows "writeable p (Some (SQLITE_OK, q\<lparr>m_flags := m_flags q AND NOT MEM_Ephem\<rparr>))"
proof -
  note ne = not_ephem_ok [OF assms(1,4)]
  have "same_text p (q\<lparr>m_flags := m_flags q AND NOT MEM_Ephem\<rparr>) \<and> m_z q = Zmalloc" if "bit (m_flags p) 1"
    using that same_text_trans [OF assms(3) ne(3)] assms(3,4) by (auto simp: same_text_def)
  then show ?thesis unfolding writeable_def using ne(1,2) assms(2) by (auto simp del: word_bitwise_1_simps)
qed

lemma MakeWriteable_ok:
  assumes "cell_ok p" and "alloc_ok e"
  shows "writeable p (sqlite3VdbeMemMakeWriteable e p) \<or> nulled e p (sqlite3VdbeMemMakeWriteable e p)"
proof (cases "bit (m_flags p) 1 \<or> bit (m_flags p) 4")
  case False
  then show ?thesis using writeable_end [OF assms(1), of p] by (simp add: sqlite3VdbeMemMakeWriteable_def str_or_blob)
next
  case True
  then have st: "stored p" using cell_okD(4,5) [OF assms(1)] by blast
  show ?thesis
  proof (cases "bit (m_flags p) 10")
    case zero: True
    then have b: "bit (m_flags p) 4" and ns: "\<not> bit (m_flags p) 1" using True cell_okD(6) [OF assms(1)] by auto
    from ExpandBlob_ok [OF assms zero b] show ?thesis
    proof (elim disjE exE conjE)
      fix q assume q: "sqlite3VdbeMemExpandBlob e p = Some (SQLITE_OK, q)" "cell_ok q" "held q = held p" "m_z q = Zmalloc"
        "m_zMalloc q \<noteq> []"
      from writeable_end [OF q(2,3)] ns q(4)
      have "writeable p (Some (SQLITE_OK, q\<lparr>m_flags := m_flags q AND NOT MEM_Ephem\<rparr>))" by simp
      then show ?thesis using q True zero
        by (simp add: sqlite3VdbeMemMakeWriteable_def str_or_blob has_bit szMalloc_def)
    next
      assume "nulled e p (sqlite3VdbeMemExpandBlob e p)"
      then show ?thesis using True zero
        by (auto simp: sqlite3VdbeMemMakeWriteable_def str_or_blob has_bit nulled_def)
    qed
  next
    case nz: False
    have eq: "sqlite3VdbeMemMakeWriteable e p =
      (if szMalloc p = 0 \<or> m_z p \<noteq> Zmalloc then vdbeMemAddTerminator e p else Some (SQLITE_OK, p)) \<bind>
      (\<lambda>(rc, p). if rc \<noteq> SQLITE_OK then Some (rc, p) else Some (SQLITE_OK, p\<lparr>m_flags := m_flags p AND NOT MEM_Ephem\<rparr>))"
      using True nz by (simp add: sqlite3VdbeMemMakeWriteable_def str_or_blob has_bit)
    show ?thesis
    proof (cases "szMalloc p = 0 \<or> m_z p \<noteq> Zmalloc")
      case add: True
      from AddTerminator_ok [OF assms st nz] show ?thesis
      proof
        assume "rewritten p (vdbeMemAddTerminator e p)"
        then obtain q where q: "vdbeMemAddTerminator e p = Some (SQLITE_OK, q)" "cell_ok q" "held q = held p" "same_text p q"
          "m_z q = Zmalloc" by (auto simp: rewritten_def)
        from writeable_end [OF q(2,3)] q(4,5)
        have "writeable p (Some (SQLITE_OK, q\<lparr>m_flags := m_flags q AND NOT MEM_Ephem\<rparr>))" by simp
        then show ?thesis using q add by (simp add: eq)
      next
        assume "nulled e p (vdbeMemAddTerminator e p)"
        then show ?thesis using add by (auto simp: eq nulled_def)
      qed
    next
      case False
      then show ?thesis using writeable_end [OF assms(1), of p] by (simp add: eq same_text_def)
    qed
  qed
qed

lemma kept_cases: "writeable p r \<Longrightarrow> kept p r" "nulled e p r \<Longrightarrow> kept p r" "rewritten p r \<Longrightarrow> kept p r"
  by (auto simp: kept_def writeable_def nulled_def rewritten_def null_ok)

lemma mask_eqD: "w AND m = v \<Longrightarrow> bit v k \<Longrightarrow> bit (w :: u16) k"
  by (auto simp: bit_and_iff)

lemma mask_eqD': "w AND m = v \<Longrightarrow> bit m k \<Longrightarrow> \<not> bit v k \<Longrightarrow> \<not> bit (w :: u16) k"
  by (auto simp: bit_and_iff)

lemma NulTerminate_ok:
  assumes "cell_ok p" and "alloc_ok e"
  shows "kept p (sqlite3VdbeMemNulTerminate e p)"
proof (cases "m_flags p AND (MEM_Term OR MEM_Str) = MEM_Str")
  case True
  then have "bit (m_flags p) 1" by (rule mask_eqD) simp
  then have "stored p" "\<not> bit (m_flags p) 10" using cell_okD(4,6) [OF assms(1)] by auto
  from AddTerminator_ok [OF assms this] True show ?thesis
    by (auto simp: sqlite3VdbeMemNulTerminate_def intro: kept_cases)
next
  case False
  then show ?thesis using assms(1) by (auto simp: sqlite3VdbeMemNulTerminate_def kept_def)
qed

text \<open>Cells that differ in nothing the invariant depends on.\<close>

lemma term_ok: "cell_ok p \<Longrightarrow> cell_ok (p\<lparr>m_flags := m_flags p OR MEM_Term\<rparr>)" "held (p\<lparr>m_flags := m_flags p OR MEM_Term\<rparr>) = held p"
proof -
  define f where "f = m_flags p OR MEM_Term"
  have f: "bit f k \<longleftrightarrow> bit (m_flags p) k \<or> k = 9" for k unfolding f_def by (rule or_term_bits)
  have st: "stored (p\<lparr>m_flags := f\<rparr>) = stored p" by (simp add: stored_def split: zptr.splits)
  show "cell_ok p \<Longrightarrow> cell_ok (p\<lparr>m_flags := m_flags p OR MEM_Term\<rparr>)"
    unfolding f_def [symmetric] using st by (simp add: cell_ok_def f)
  show "held (p\<lparr>m_flags := m_flags p OR MEM_Term\<rparr>) = held p" unfolding f_def [symmetric] by (simp add: held_def f)
qed

text \<open>The invariant looks at the memory through its length only.\<close>

lemma cell_ok_frame:
  assumes "cell_ok p" and fr: "m_flags q = m_flags p" "m_n q = m_n p" "m_enc q = m_enc p" "u_nZero q = u_nZero p"
    and sh: "m_z p = Zmalloc \<and> m_z q = Zmalloc \<and> length (m_zMalloc q) = length (m_zMalloc p)
       \<or> (\<exists>b b'. m_z p = Zext b \<and> m_z q = Zext b' \<and> length b' = length b \<and> m_zMalloc q = m_zMalloc p)"
  shows "cell_ok q"
  using sh
proof
  assume z: "m_z p = Zmalloc \<and> m_z q = Zmalloc \<and> length (m_zMalloc q) = length (m_zMalloc p)"
  then have "m_zMalloc q = [] \<longleftrightarrow> m_zMalloc p = []" by (metis length_0_conv)
  then have "stored q = stored p" using z fr by (simp add: stored_def)
  then show ?thesis using assms(1) z fr by (simp add: cell_ok_def)
next
  assume "\<exists>b b'. m_z p = Zext b \<and> m_z q = Zext b' \<and> length b' = length b \<and> m_zMalloc q = m_zMalloc p"
  then obtain b b' where z: "m_z p = Zext b" "m_z q = Zext b'" "length b' = length b" "m_zMalloc q = m_zMalloc p" by blast
  then have "stored q = stored p" using fr by (simp add: stored_def)
  then show ?thesis using assms(1) z fr by (simp add: cell_ok_def)
qed

lemma z_write_ok:
  assumes "cell_ok p" and "z_write p off d = Some q"
  shows "cell_ok q" and "held q = held p" and "m_z p = Zmalloc \<Longrightarrow> m_z q = Zmalloc" and "m_flags q = m_flags p"
    and "m_n q = m_n p" and "m_enc q = m_enc p"
proof -
  have fr: "m_flags q = m_flags p" "m_n q = m_n p" "m_enc q = m_enc p" "u_nZero q = u_nZero p" "xDel_calls q = xDel_calls p"
    using assms(2) by (auto simp: z_write_def split: zptr.splits bind_splits)
  have sh: "m_z p = Zmalloc \<and> m_z q = Zmalloc \<and> length (m_zMalloc q) = length (m_zMalloc p)
       \<or> (\<exists>b b'. m_z p = Zext b \<and> m_z q = Zext b' \<and> length b' = length b \<and> m_zMalloc q = m_zMalloc p)"
    using assms(2) by (auto simp: z_write_def dest: poke_length split: zptr.splits bind_splits)
  show "cell_ok q" using cell_ok_frame [OF assms(1) fr(1-4) sh] .
  show "held q = held p" using fr by (simp add: held_def)
  show "m_z p = Zmalloc \<Longrightarrow> m_z q = Zmalloc" using sh by auto
  show "m_flags q = m_flags p" "m_n q = m_n p" "m_enc q = m_enc p" by (fact fr)+
qed

lemma ZeroTerminate_ok:
  assumes "cell_ok p"
  shows "\<exists>q. sqlite3VdbeMemZeroTerminateIfAble p = Some q \<and> cell_ok q \<and> held q = held p"
proof (cases "m_flags p AND (MEM_Str OR MEM_Term OR MEM_Ephem OR MEM_Static) = MEM_Str \<and> m_enc p = SQLITE_UTF8 \<and> m_z p \<noteq> Znull")
  case False
  then show ?thesis using assms by (auto simp: sqlite3VdbeMemZeroTerminateIfAble_def)
next
  case True
  then have m: "m_flags p AND (MEM_Str OR MEM_Term OR MEM_Ephem OR MEM_Static) = MEM_Str" by blast
  have str: "bit (m_flags p) 1" by (rule mask_eqD [OF m]) simp
  have ns: "\<not> bit (m_flags p) 13" "\<not> bit (m_flags p) 14" by (rule mask_eqD' [OF m]; simp)+
  have st: "stored p" using cell_okD(4) [OF assms] str by blast
  have put: "\<exists>q. z_write p (m_n p) [0] \<bind> (\<lambda>p. Some (p\<lparr>m_flags := m_flags p OR MEM_Term\<rparr>)) = Some q \<and> cell_ok q \<and> held q = held p"
    if w: "z_write p (m_n p) [0] \<noteq> None"
  proof -
    obtain q where q: "z_write p (m_n p) [0] = Some q" using w by blast
    with z_write_ok(1,2) [OF assms q] term_ok [of q] show ?thesis by simp
  qed
  show ?thesis
  proof (cases "bit (m_flags p) 12")
    case dyn: True
    then obtain b where b: "m_z p = Zext b" using cell_okD(3) [OF assms] by blast
    have "z_write p (m_n p) [0] \<noteq> None" if "int (length b) \<ge> m_n p + 1"
      using that b st by (simp add: z_write_def poke_def stored_def)
    then show ?thesis
      using True dyn b put assms term_ok [of p]
      by (simp add: sqlite3VdbeMemZeroTerminateIfAble_def has_bit z_mem_def)
  next
    case nd: False
    then have z: "m_z p = Zmalloc" using True str ns assms by (auto simp: cell_ok_def)
    have "z_write p (m_n p) [0] \<noteq> None" if "szMalloc p \<ge> m_n p + 1"
      using that z st by (simp add: z_write_def poke_def stored_def szMalloc_def)
    then show ?thesis
      using True nd put assms by (simp add: sqlite3VdbeMemZeroTerminateIfAble_def has_bit)
  qed
qed

end
