(* ===== verification/Utf_Properties.thy ===== *)
theory Utf_Properties
  imports Utf
begin

text \<open>
  The character codecs: what the byte operations mean on numbers, that reading inverts writing, that the
  loops translate texts character by character, and how long their output can get.
\<close>

section \<open>Bytes and words as numbers\<close>

named_theorems utf_nat \<open>the operations of the codecs on numbers\<close>

lemma unat_drop [utf_nat]: "unat (drop_bit k (c :: 'a :: len word)) = unat c div 2 ^ k"
  by (simp only: unsigned_drop_bit_eq) (simp add: take_bit_nat_eq_self drop_bit_eq_div)

lemma unat_field [utf_nat]:
  "n \<le> 8 \<Longrightarrow> unat (ucast (drop_bit k (c :: u32) AND mask n) :: u8) = unat c div 2 ^ k mod 2 ^ n"
  by (simp add: take_bit_eq_mask [symmetric] unsigned_ucast_eq unsigned_take_bit_eq unat_drop min_def
      take_bit_eq_mod [of n "_ :: nat"])

lemma unat_field0 [utf_nat]: "n \<le> 8 \<Longrightarrow> unat (ucast ((c :: u32) AND mask n) :: u8) = unat c mod 2 ^ n"
  using unat_field [of n 0 c] by simp

lemma masks: "(0x3F :: u32) = mask 6" "(0x1F :: u32) = mask 5" "(0x0F :: u32) = mask 4" "(0x07 :: u32) = mask 3"
  "(0xFF :: u32) = mask 8" "(0x03 :: u32) = mask 2" "(0x03FF :: u32) = mask 10"
  by (simp_all add: mask_eq_exp_minus_1)

lemma unat_add_u8: "unat a + unat b < 256 \<Longrightarrow> unat (a + b :: u8) = unat a + unat b"
  by (simp add: unat_plus_if_size word_size)

lemma unat_add_u32: "unat a + unat b < 2 ^ 32 \<Longrightarrow> unat (a + b :: u32) = unat a + unat b"
  by (simp add: unat_plus_if_size word_size)

lemma unat_add_eq: "unat a = x \<Longrightarrow> unat b = y \<Longrightarrow> x + y < 2 ^ 32 \<Longrightarrow> unat (a + b :: u32) = x + y"
  by (simp add: unat_add_u32)

lemma unat_cont [utf_nat]: "unat (0x80 + ucast (drop_bit k (c :: u32) AND 0x3F) :: u8) = 128 + unat c div 2 ^ k mod 64"
  "unat (0x80 + ucast ((c :: u32) AND 0x3F) :: u8) = 128 + unat c mod 64"
  by (simp_all add: unat_add_u8 masks utf_nat)

lemma unat_lead [utf_nat]:
  "unat (0xC0 + ucast (drop_bit k (c :: u32) AND 0x1F) :: u8) = 192 + unat c div 2 ^ k mod 32"
  "unat (0xE0 + ucast (drop_bit k c AND 0x0F) :: u8) = 224 + unat c div 2 ^ k mod 16"
  "unat (0xF0 + ucast (drop_bit k c AND 0x07) :: u8) = 240 + unat c div 2 ^ k mod 8"
  by (simp_all add: unat_add_u8 masks utf_nat)

lemma cont_iff: "b AND 0xc0 = (0x80 :: u8) \<longleftrightarrow> 128 \<le> unat b \<and> unat b < 192"
proof -
  have eq: "x = y \<longleftrightarrow> (\<forall>n \<in> set [0..<8]. bit x n = bit y n)" for x y :: u8
    by (auto intro: bit_word_eqI)
  have "(b AND 0xc0 = 0x80) \<longleftrightarrow> drop_bit 6 b = 2"
    by (simp add: eq upt_rec bit_and_iff bit_drop_bit_eq) (simp add: eval_nat_numeral)
  also have "\<dots> \<longleftrightarrow> unat b div 64 = 2"
    by (simp add: word_unat_eq_iff unat_drop)
  also have "\<dots> \<longleftrightarrow> 128 \<le> unat b \<and> unat b < 192" by auto
  finally show ?thesis .
qed

lemma low6 [utf_nat]: "unat (0x3f AND ucast (b :: u8) :: u32) = unat b mod 64"
proof -
  have "unat (ucast b :: u32) = unat b"
    using unsigned_less [of b, where ?'a = nat] by (simp add: unsigned_ucast_eq take_bit_nat_eq_self)
  then show ?thesis
    by (simp only: masks and.commute [of "mask 6"] take_bit_eq_mask [symmetric] unsigned_take_bit_eq)
      (simp add: take_bit_eq_mod)
qed

lemma unat_push: "unat c * 2 ^ k < 2 ^ 32 \<Longrightarrow> unat (push_bit k (c :: u32)) = unat c * 2 ^ k"
  by (simp only: unsigned_push_bit_eq) (simp add: take_bit_nat_eq_self push_bit_eq_mult)

lemma unat_shift_add:
  assumes "unat c < 2 ^ 26"
  shows "unat (push_bit 6 c + (0x3f AND ucast (b :: u8)) :: u32) = unat c * 64 + unat b mod 64"
proof -
  have "unat b mod 64 < 64" by simp
  then show ?thesis using assms unat_push [of c 6] by (subst unat_add_u32) (simp_all only: low6, simp_all)
qed

lemma Trans1_nat:
  assumes "192 \<le> unat (b :: u8)"
  shows "unat (sqlite3Utf8Trans1 ! unat (b - 0xc0)) =
    (if unat b < 224 then unat b - 192 else if unat b < 240 then unat b - 224 else if unat b < 248 then unat b - 240
     else if unat b < 252 then unat b - 248 else if unat b < 254 then unat b - 252 else 0)" (is "_ = ?f (unat b)")
proof -
  have t: "\<forall>i \<in> set [192..<256]. unat (sqlite3Utf8Trans1 ! (i - 192)) = ?f i"
    by (simp add: upt_rec sqlite3Utf8Trans1_def)
  have "unat (b - 0xc0) = unat b - 192"
    using assms by (subst unat_sub) (simp_all add: word_le_nat_alt)
  moreover have "unat b \<in> set [192..<256]"
    using assms unsigned_less [of b, where ?'a = nat] by (simp only: set_upt atLeastLessThan_iff) simp
  ultimately show ?thesis using t by (simp only:)
qed

section \<open>Reading what was written\<close>

text \<open>The characters that can be exchanged: no surrogates, and not the two values the reader replaces.\<close>

definition scalar :: "u32 \<Rightarrow> bool" where
  "scalar c \<longleftrightarrow> unat c < 0x110000 \<and> \<not> (0xD800 \<le> unat c \<and> unat c < 0xE000) \<and> unat c \<noteq> 0xFFFE \<and> unat c \<noteq> 0xFFFF"

text \<open>A rest of a text that does not go on with a continuation byte.\<close>

definition fresh :: "bytes \<Rightarrow> bool" where
  "fresh r \<longleftrightarrow> (case r of [] \<Rightarrow> True | b # _ \<Rightarrow> b AND 0xc0 \<noteq> 0x80)"

lemma read_cont_fresh: "fresh r \<Longrightarrow> read_cont c r = (c, r)"
  by (cases r) (auto simp: fresh_def)

lemma utf8_fix_id: "scalar c \<Longrightarrow> 0x80 \<le> unat c \<Longrightarrow> utf8_fix c = c"
proof -
  assume c: "scalar c" and le: "0x80 \<le> unat c"
  have m: "(0xFFFFF800 :: u32) = NOT (mask 11)" "(0xFFFFFFFE :: u32) = NOT (mask 1)"
    by (simp_all add: mask_eq_exp_minus_1)
  have *: "unat (c AND NOT (mask n)) = unat c div 2 ^ n * 2 ^ n" for n
  proof -
    have "c AND NOT (mask n) = push_bit n (drop_bit n c)" by (rule bit_word_eqI) (auto simp: bit_simps)
    moreover have "unat c div 2 ^ n * 2 ^ n < 2 ^ 32"
      using unsigned_less [of c, where ?'a = nat] by (intro le_less_trans [OF div_times_less_eq_dividend]) simp
    ultimately show ?thesis by (simp add: unat_push unat_drop)
  qed
  have "c AND 0xFFFFF800 \<noteq> 0xD800"
  proof
    assume "c AND 0xFFFFF800 = 0xD800"
    then have "unat c div 2048 * 2048 = 0xD800" using * [of 11] by (simp add: m(1))
    moreover have "unat c mod 2048 < 2048" by simp
    ultimately have "0xD800 \<le> unat c \<and> unat c < 0xE000" using div_mult_mod_eq [of "unat c" 2048] by linarith
    then show False using c by (simp add: scalar_def)
  qed
  moreover have "c AND 0xFFFFFFFE \<noteq> 0xFFFE"
  proof
    assume "c AND 0xFFFFFFFE = 0xFFFE"
    then have "unat c div 2 * 2 = 0xFFFE" using * [of 1] by (simp add: m(2))
    moreover have "unat c mod 2 < 2" by simp
    ultimately have "unat c = 0xFFFE \<or> unat c = 0xFFFF" using div_mult_mod_eq [of "unat c" 2] by linarith
    then show False using c by (simp add: scalar_def)
  qed
  ultimately show ?thesis using le by (simp add: utf8_fix_def word_less_nat_alt)
qed

lemma utf_cont_byte: "unat b = 128 + x mod 64 \<Longrightarrow> b AND 0xc0 = (0x80 :: u8)"
  by (simp add: cont_iff)

lemma READ_UTF8_lead:
  "192 \<le> unat b \<Longrightarrow> READ_UTF8 (b # r) =
     (let (c, r) = read_cont (ucast (sqlite3Utf8Trans1 ! unat (b - 0xc0))) r in Some (utf8_fix c, r))"
  by (simp add: READ_UTF8_def word_le_nat_alt)

lemma unat_ucast8: "unat (ucast (b :: u8) :: u32) = unat b"
  using unsigned_less [of b, where ?'a = nat] by (simp add: unsigned_ucast_eq take_bit_nat_eq_self)

text \<open>The value that one more continuation byte gives.\<close>

lemma read_cont_step:
  assumes "unat b = 128 + x mod 64" and "unat c < 2 ^ 26"
  shows "\<exists>c'. read_cont c (b # r) = read_cont c' r \<and> unat c' = unat c * 64 + x mod 64"
proof -
  have "unat b mod 64 = x mod 64"
    unfolding assms(1) by (simp add: mod_add_eq [of 128 64 "x mod 64", symmetric])
  then show ?thesis using unat_shift_add [OF assms(2), of b] utf_cont_byte [OF assms(1)] by auto
qed

lemma read_cont_bytes:
  "list_all2 (\<lambda>b x. unat b = 128 + x mod 64) bs xs \<Longrightarrow> (unat c + 1) * 64 ^ length bs \<le> 2 ^ 26 \<Longrightarrow>
     \<exists>c'. read_cont c (bs @ r) = read_cont c' r \<and> unat c' = foldl (\<lambda>v x. v * 64 + x mod 64) (unat c) xs"
proof (induction bs xs arbitrary: c rule: list_all2_induct)
  case Nil
  then show ?case by auto
next
  case (Cons b bs x xs)
  have "(unat c + 1) * 1 \<le> (unat c + 1) * 64 ^ length (b # bs)" by (intro mult_le_mono) auto
  then have "unat c < 2 ^ 26" using le_trans [OF _ Cons.prems(1), of "(unat c + 1) * 1"] by simp
  from read_cont_step [OF Cons.hyps(1) this] obtain c' where
    c': "read_cont c (b # bs @ r) = read_cont c' (bs @ r)" "unat c' = unat c * 64 + x mod 64" by blast
  have "x mod 64 < 64" by simp
  then have "(unat c' + 1) * 64 ^ length bs \<le> ((unat c + 1) * 64) * 64 ^ length bs"
    unfolding c'(2) by (intro mult_le_mono) simp_all
  also have "\<dots> \<le> 2 ^ 26" using Cons.prems by (simp add: algebra_simps)
  finally show ?case using Cons.IH [of c'] c' by auto
qed

lemma READ_UTF8_conts:
  assumes lead: "192 \<le> unat b" "unat (sqlite3Utf8Trans1 ! unat (b - 0xc0)) = v"
    and conts: "list_all2 (\<lambda>b x. unat b = 128 + x mod 64) bs xs" "(v + 1) * 64 ^ length bs \<le> 2 ^ 26"
    and "foldl (\<lambda>v x. v * 64 + x mod 64) v xs = unat c"
    and "fresh rest" and "scalar c" and "0x80 \<le> unat c"
  shows "READ_UTF8 (b # bs @ rest) = Some (c, rest)"
proof -
  have u: "unat (ucast (sqlite3Utf8Trans1 ! unat (b - 0xc0)) :: u32) = v"
    using lead by (simp add: unat_ucast8)
  obtain c' where "read_cont (ucast (sqlite3Utf8Trans1 ! unat (b - 0xc0))) (bs @ rest) = read_cont c' rest" "unat c' = unat c"
    using read_cont_bytes [OF conts(1), of "ucast (sqlite3Utf8Trans1 ! unat (b - 0xc0))" rest] u assms by auto
  then have "read_cont (ucast (sqlite3Utf8Trans1 ! unat (b - 0xc0))) (bs @ rest) = (c, rest)"
    using assms by (simp add: read_cont_fresh word_unat_eq_iff)
  then show ?thesis using assms by (simp add: READ_UTF8_lead utf8_fix_id)
qed

lemma sextets: "v div 4096 * 64 + v div 64 mod 64 = v div (64 :: nat)"
  "v div 262144 * 64 + v div 4096 mod 64 = v div (4096 :: nat)"
  using div_mult_mod_eq [of "v div 64" 64] div_mult_mod_eq [of "v div 4096" 64]
  by (simp_all add: div_mult2_eq [symmetric])

lemma READ_WRITE_UTF8:
  assumes "scalar c" and "fresh rest"
  shows "READ_UTF8 (WRITE_UTF8 c @ rest) = Some (c, rest)"
proof -
  let ?v = "unat c"
  have lt: "?v < 0x110000" using assms by (simp add: scalar_def)
  consider "?v < 0x80" | "0x80 \<le> ?v" "?v < 0x800" | "0x800 \<le> ?v" "?v < 0x10000" | "0x10000 \<le> ?v" by linarith
  then show ?thesis
  proof cases
    case 1
    have u: "unat (ucast c :: u8) = ?v" using 1 by (simp add: unsigned_ucast_eq take_bit_nat_eq_self)
    have "c AND 0xFF = c"
      using 1 by (simp add: masks take_bit_eq_mask [symmetric] word_unat_eq_iff unsigned_take_bit_eq take_bit_nat_eq_self)
    then have "WRITE_UTF8 c = [ucast c]" using 1 by (simp add: WRITE_UTF8_def word_less_nat_alt)
    moreover have "ucast (ucast c :: u8) = c" using u by (simp add: word_unat_eq_iff unat_ucast8)
    ultimately show ?thesis using 1 u by (simp add: READ_UTF8_def word_le_nat_alt)
  next
    case 2
    let ?b = "0xC0 + ucast (drop_bit 6 c AND 0x1F) :: u8"
    have b: "unat ?b = 192 + ?v div 64 mod 32" using unat_lead(1) [of 6 c] by simp
    have "unat (sqlite3Utf8Trans1 ! unat (?b - 0xc0)) = ?v div 64"
      using 2 by (subst Trans1_nat) (simp_all add: b)
    then show ?thesis
      using READ_UTF8_conts [of ?b "?v div 64" "[0x80 + ucast (c AND 0x3F)]" "[?v]" c rest] 2 assms unat_cont(2) [of c]
      by (simp add: WRITE_UTF8_def word_less_nat_alt b)
  next
    case 3
    let ?b = "0xE0 + ucast (drop_bit 12 c AND 0x0F) :: u8"
    have b: "unat ?b = 224 + ?v div 4096 mod 16" using unat_lead(2) [of 12 c] by simp
    have "unat (sqlite3Utf8Trans1 ! unat (?b - 0xc0)) = ?v div 4096"
      using 3 by (subst Trans1_nat) (simp_all add: b)
    moreover have "(?v div 4096 * 64 + ?v div 64 mod 64) * 64 + ?v mod 64 = ?v" by (simp add: sextets)
    ultimately show ?thesis
      using READ_UTF8_conts [of ?b "?v div 4096" "[0x80 + ucast (drop_bit 6 c AND 0x3F), 0x80 + ucast (c AND 0x3F)]"
          "[?v div 64, ?v]" c rest] 3 assms unat_cont(1) [of 6 c] unat_cont(2) [of c]
      by (simp add: WRITE_UTF8_def word_less_nat_alt b)
  next
    case 4
    let ?b = "0xF0 + ucast (drop_bit 18 c AND 0x07) :: u8"
    have b: "unat ?b = 240 + ?v div 262144 mod 8" using unat_lead(3) [of 18 c] by simp
    have "unat (sqlite3Utf8Trans1 ! unat (?b - 0xc0)) = ?v div 262144"
      using lt by (subst Trans1_nat) (simp_all add: b)
    moreover have "((?v div 262144 * 64 + ?v div 4096 mod 64) * 64 + ?v div 64 mod 64) * 64 + ?v mod 64 = ?v"
      by (simp add: sextets)
    ultimately show ?thesis
      using READ_UTF8_conts [of ?b "?v div 262144"
          "[0x80 + ucast (drop_bit 12 c AND 0x3F), 0x80 + ucast (drop_bit 6 c AND 0x3F), 0x80 + ucast (c AND 0x3F)]"
          "[?v div 4096, ?v div 64, ?v]" c rest] 4 lt assms
        unat_cont(1) [of 12 c] unat_cont(1) [of 6 c] unat_cont(2) [of c]
      by (simp add: WRITE_UTF8_def word_less_nat_alt b)
  qed
qed

lemma unat_and_high:
  "unat (x AND 0xC0 :: u32) = unat x div 64 mod 4 * 64" "unat (x AND 0x03C0 :: u32) = unat x div 64 mod 16 * 64"
proof -
  have "x AND push_bit 6 (mask k) = push_bit 6 (take_bit k (drop_bit 6 x))" for k
    by (rule bit_word_eqI) (auto simp: bit_simps)
  from this [of 2] this [of 4]
  have *: "x AND 0xC0 = push_bit 6 (take_bit 2 (drop_bit 6 x))" "x AND 0x03C0 = push_bit 6 (take_bit 4 (drop_bit 6 x))"
    by (simp_all add: mask_eq_exp_minus_1)
  have t: "unat (take_bit k (drop_bit 6 x)) = unat x div 64 mod 2 ^ k" for k
    by (simp only: unsigned_take_bit_eq unat_drop) (simp add: take_bit_eq_mod)
  show "unat (x AND 0xC0 :: u32) = unat x div 64 mod 4 * 64" "unat (x AND 0x03C0 :: u32) = unat x div 64 mod 16 * 64"
    unfolding * by (subst unat_push; simp add: t)+
qed

lemma unat_and_mask: "unat (x AND mask n :: u32) = unat x mod 2 ^ n"
  by (simp only: take_bit_eq_mask [symmetric] unsigned_take_bit_eq) (simp add: take_bit_eq_mod)

lemma utf16_join_value:
  assumes "unat c = 0xD800 + h" "h < 1024" "unat c2 = 0xDC00 + l" "l < 1024"
  shows "unat (utf16_join c c2) = 0x10000 + h * 1024 + l"
proof -
  have "(55296 + h) div 64 = 16 * 54 + h div 64" by (simp add: div_plus_div_distrib_dvd_left)
  then have "(55296 + h) div 64 mod 16 = h div 64" using assms(2) by (simp only: mod_mult_self4) simp
  then have c: "unat (c AND 0x003F) = h mod 64" "unat (c AND 0x03C0) = h div 64 * 64"
    using assms unat_and_high(2) [of c] unat_and_mask [of c 6] by (simp_all add: masks mod_add_eq [symmetric, of "0xD800"])
  have c2: "unat (c2 AND 0x03FF) = l"
    using assms unat_and_mask [of c2 10] by (simp add: masks mod_add_eq [symmetric, of "0xDC00"])
  have d: "h div 64 < 16" "h mod 64 < 64" "h div 64 * 64 + h mod 64 = h" using assms by simp_all
  have p1: "unat (push_bit 10 (c AND 0x003F)) = h mod 64 * 1024"
    by (subst unat_push) (simp_all only: c, simp_all)
  have "unat ((c AND 0x03C0) + 0x0040) = h div 64 * 64 + 64"
    using d by (subst unat_add_u32) (simp_all add: c)
  then have p2: "unat (push_bit 10 ((c AND 0x03C0) + 0x0040)) = (h div 64 * 64 + 64) * 1024"
    using d by (subst unat_push) simp_all
  have "unat ((c2 AND 0x03FF) + push_bit 10 (c AND 0x003F)) = l + h mod 64 * 1024"
    using d assms by (intro unat_add_eq [OF c2 p1]) simp
  then have eq: "unat (utf16_join c c2) = l + h mod 64 * 1024 + (h div 64 * 64 + 64) * 1024"
    unfolding utf16_join_def using d assms by (intro unat_add_eq [OF _ p2]) simp_all
  have "r * 1024 + (q * 64 + 64) * 1024 = h * 1024 + 0x10000" if "q * 64 + r = h" for q r
    using that by auto
  from eq [unfolded add.assoc this [OF d(3), unfolded add.assoc]] show ?thesis by simp
qed

lemma unit_value: "unat (ucast b0 + push_bit 8 (ucast b1) :: u32) = unat (b0 :: u8) + 256 * unat (b1 :: u8)"
proof -
  have b: "unat b0 < 256" "unat b1 < 256"
    using unsigned_less [of b0, where ?'a = nat] unsigned_less [of b1, where ?'a = nat] by simp_all
  then have "unat (push_bit 8 (ucast b1) :: u32) = 256 * unat b1"
    by (subst unat_push) (simp_all add: unat_ucast8)
  with b show ?thesis by (subst unat_add_u32) (simp_all add: unat_ucast8)
qed

text \<open>The bytes of a surrogate pair.\<close>

lemma surrogate_bytes:
  assumes "0x10000 \<le> unat (c :: u32)" and "unat c < 0x110000"
  defines "w \<equiv> unat c - 0x10000"
  shows "unat (ucast ((drop_bit 10 c AND 0x3F) + (drop_bit 10 (c - 0x10000) AND 0xC0)) :: u8) = w div 1024 mod 256"
    and "unat (ucast (0xD8 + (drop_bit 18 (c - 0x10000) AND 0x03)) :: u8) = 0xD8 + w div 262144"
    and "unat (ucast (c AND 0xFF) :: u8) = w mod 256"
    and "unat (ucast (0xDC + (drop_bit 8 c AND 0x03)) :: u8) = 0xDC + w div 256 mod 4"
proof -
  have v: "unat c = 0x10000 + w" using assms by simp
  have w: "unat (c - 0x10000) = w" using assms by (subst unat_sub) (simp_all add: word_le_nat_alt)
  have lt: "w < 0x100000" using assms by simp
  have small: "unat (ucast x :: u8) = unat x" if "unat x < 256" for x :: u32
    using that by (simp add: unsigned_ucast_eq take_bit_nat_eq_self)
  have d: "w div 262144 < 4" using lt by simp
  have a: "unat (drop_bit 10 c AND 0x3F) = w div 1024 mod 64"
    by (simp add: masks unat_and_mask unat_drop v div_plus_div_distrib_dvd_left mod_add_eq [symmetric, of 64])
  have b: "unat (drop_bit 10 (c - 0x10000) AND 0xC0) = w div 65536 mod 4 * 64"
    by (simp add: unat_and_high unat_drop w div_mult2_eq [symmetric])
  have ab: "w div 65536 mod 4 * 64 + w div 1024 mod 64 = w div 1024 mod 256"
    using mod_mult2_eq [of "w div 1024" 64 4] by (simp add: div_mult2_eq [symmetric])
  have m: "w div 1024 mod 256 < 256" "w div 256 mod 4 < 4" by simp_all
  have "unat ((drop_bit 10 c AND 0x3F) + (drop_bit 10 (c - 0x10000) AND 0xC0)) = w div 1024 mod 256"
    using unat_add_eq [OF a b] ab m by simp
  then show "unat (ucast ((drop_bit 10 c AND 0x3F) + (drop_bit 10 (c - 0x10000) AND 0xC0)) :: u8) = w div 1024 mod 256"
    by (subst small) simp_all
  have "unat (drop_bit 18 (c - 0x10000) AND 0x03) = w div 262144"
    using d by (simp add: masks unat_and_mask unat_drop w)
  then have "unat (0xD8 + (drop_bit 18 (c - 0x10000) AND 0x03)) = 0xD8 + w div 262144"
    using d by (subst unat_add_u32) simp_all
  then show "unat (ucast (0xD8 + (drop_bit 18 (c - 0x10000) AND 0x03)) :: u8) = 0xD8 + w div 262144"
    using d by (subst small) simp_all
  have "unat (c AND 0xFF) = w mod 256"
    by (simp add: masks unat_and_mask v mod_add_eq [symmetric, of "0x10000"])
  then show "unat (ucast (c AND 0xFF) :: u8) = w mod 256" by (subst small) simp_all
  have "unat (drop_bit 8 c AND 0x03) = w div 256 mod 4"
    by (simp add: masks unat_and_mask unat_drop v div_plus_div_distrib_dvd_left mod_add_eq [symmetric, of 256])
  then have "unat (0xDC + (drop_bit 8 c AND 0x03)) = 0xDC + w div 256 mod 4"
    using m by (subst unat_add_u32) simp_all
  then show "unat (ucast (0xDC + (drop_bit 8 c AND 0x03)) :: u8) = 0xDC + w div 256 mod 4"
    using m by (subst small) simp_all
qed

lemma bmp_bytes:
  assumes "unat (c :: u32) < 0x10000"
  shows "unat (ucast (c AND 0xFF) :: u8) = unat c mod 256"
    and "unat (ucast (drop_bit 8 c AND 0xFF) :: u8) = unat c div 256"
  using unat_field0 [of 8 c] unat_field [of 8 8 c] assms by (simp_all add: masks)

lemma READ_UTF16LE_pair:
  "READ_UTF16LE (a # b # r) =
     (if 0xD800 \<le> unat a + 256 * unat b \<and> unat a + 256 * unat b < 0xE000 \<and> r \<noteq> []
      then (case r of
              a' # b' # r' \<Rightarrow> Some (utf16_join (ucast a + push_bit 8 (ucast b)) (ucast a' + push_bit 8 (ucast b')), r')
            | _ \<Rightarrow> None)
      else Some (ucast a + push_bit 8 (ucast b), r))"
  by (auto simp: READ_UTF16LE_def byte_at_def word_le_nat_alt word_less_nat_alt unit_value Let_def split: list.splits)

lemma READ_UTF16BE_pair:
  "READ_UTF16BE (b # a # r) =
     (if 0xD800 \<le> unat a + 256 * unat b \<and> unat a + 256 * unat b < 0xE000 \<and> r \<noteq> []
      then (case r of
              b' # a' # r' \<Rightarrow> Some (utf16_join (ucast a + push_bit 8 (ucast b)) (ucast a' + push_bit 8 (ucast b')), r')
            | _ \<Rightarrow> None)
      else Some (ucast a + push_bit 8 (ucast b), r))"
  by (auto simp: READ_UTF16BE_def byte_at_def word_le_nat_alt word_less_nat_alt unit_value Let_def
      add.commute [of "push_bit 8 _"] split: list.splits)

lemma bmp_unit:
  assumes "unat (c :: u32) < 0x10000"
  shows "ucast (ucast (c AND 0xFF) :: u8) + push_bit 8 (ucast (ucast (drop_bit 8 c AND 0xFF) :: u8)) = c"
  by (simp add: word_unat_eq_iff unit_value bmp_bytes [OF assms])

text \<open>The two units of a pair, and the character they give.\<close>

lemma pair_units:
  assumes "0x10000 \<le> unat (c :: u32)" and "unat c < 0x110000"
    and "unat a = (unat c - 0x10000) div 1024 mod 256" and "unat b = 0xD8 + (unat c - 0x10000) div 262144"
    and "unat a' = (unat c - 0x10000) mod 256" and "unat b' = 0xDC + (unat c - 0x10000) div 256 mod 4"
  shows "0xD800 \<le> unat a + 256 * unat b \<and> unat a + 256 * unat b < 0xE000"
    and "utf16_join (ucast (a :: u8) + push_bit 8 (ucast (b :: u8))) (ucast (a' :: u8) + push_bit 8 (ucast (b' :: u8))) = c"
proof -
  define w where "w = unat c - 0x10000"
  have lt: "w < 0x100000" and v: "unat c = 0x10000 + w" using assms(1,2) by (simp_all add: w_def)
  have "w div 1024 mod 256 + 256 * (w div 262144) = w div 1024"
    using div_mult_mod_eq [of "w div 1024" 256] by (simp add: div_mult2_eq [symmetric])
  then have h: "unat a + 256 * unat b = 0xD800 + w div 1024" using assms(3,4) by (simp add: w_def)
  have "w mod 256 + 256 * (w div 256 mod 4) = w mod 1024"
    using mod_mult2_eq [of w 256 4] by simp
  then have l: "unat a' + 256 * unat b' = 0xDC00 + w mod 1024" using assms(5,6) by (simp add: w_def)
  have q: "w div 1024 < 1024" using lt by simp
  show "0xD800 \<le> unat a + 256 * unat b \<and> unat a + 256 * unat b < 0xE000" using h q by simp
  show "utf16_join (ucast a + push_bit 8 (ucast b)) (ucast a' + push_bit 8 (ucast b')) = c"
    using utf16_join_value [of "ucast a + push_bit 8 (ucast b)" "w div 1024" "ucast a' + push_bit 8 (ucast b')" "w mod 1024"]
    by (simp add: word_unat_eq_iff unit_value h l q v)
qed

lemma READ_WRITE_UTF16LE:
  assumes "scalar c"
  shows "READ_UTF16LE (WRITE_UTF16LE c @ rest) = Some (c, rest)"
proof (cases "unat c < 0x10000")
  case True
  have "\<not> (0xD800 \<le> unat c \<and> unat c < 0xE000)" using assms by (simp add: scalar_def)
  then show ?thesis
    using True bmp_bytes [OF True] bmp_unit [OF True]
    by (auto simp: WRITE_UTF16LE_def word_le_nat_alt READ_UTF16LE_pair)
next
  case False
  then have c: "0x10000 \<le> unat c" "unat c < 0x110000" using assms by (simp_all add: scalar_def)
  show ?thesis
    using c pair_units [OF c surrogate_bytes [OF c]] by (simp add: WRITE_UTF16LE_def word_le_nat_alt READ_UTF16LE_pair)
qed

lemma READ_WRITE_UTF16BE:
  assumes "scalar c"
  shows "READ_UTF16BE (WRITE_UTF16BE c @ rest) = Some (c, rest)"
proof (cases "unat c < 0x10000")
  case True
  have "\<not> (0xD800 \<le> unat c \<and> unat c < 0xE000)" using assms by (simp add: scalar_def)
  then show ?thesis
    using True bmp_bytes [OF True] bmp_unit [OF True]
    by (auto simp: WRITE_UTF16BE_def word_le_nat_alt READ_UTF16BE_pair)
next
  case False
  then have c: "0x10000 \<le> unat c" "unat c < 0x110000" using assms by (simp_all add: scalar_def)
  show ?thesis
    using c pair_units [OF c surrogate_bytes [OF c]] by (simp add: WRITE_UTF16BE_def word_le_nat_alt READ_UTF16BE_pair)
qed

section \<open>Texts\<close>

definition utf8_text :: "u32 list \<Rightarrow> bytes" where
  "utf8_text cs = concat (map WRITE_UTF8 cs)"

definition WRITE_UTF16 :: "bool \<Rightarrow> u32 \<Rightarrow> bytes" where
  "WRITE_UTF16 le = (if le then WRITE_UTF16LE else WRITE_UTF16BE)"

definition utf16_text :: "bool \<Rightarrow> u32 list \<Rightarrow> bytes" where
  "utf16_text le cs = concat (map (WRITE_UTF16 le) cs)"

lemma text_simps [simp]:
  "utf8_text [] = []" "utf8_text (c # cs) = WRITE_UTF8 c @ utf8_text cs" "utf8_text (cs @ ds) = utf8_text cs @ utf8_text ds"
  "utf16_text le [] = []" "utf16_text le (c # cs) = WRITE_UTF16 le c @ utf16_text le cs"
  "utf16_text le (cs @ ds) = utf16_text le cs @ utf16_text le ds"
  by (simp_all add: utf8_text_def utf16_text_def)

lemma WRITE_nonempty [simp]: "WRITE_UTF8 c \<noteq> []" "WRITE_UTF16 le c \<noteq> []" "WRITE_UTF16LE c \<noteq> []" "WRITE_UTF16BE c \<noteq> []"
  by (simp_all add: WRITE_UTF8_def WRITE_UTF16_def WRITE_UTF16LE_def WRITE_UTF16BE_def)

lemma fresh_WRITE: "fresh (WRITE_UTF8 c @ r)"
proof -
  have "unat (ucast (c AND 0xFF) :: u8) < 128" if "c < 0x80"
    using that unat_field0 [of 8 c] by (simp add: masks word_less_nat_alt)
  then show ?thesis by (auto simp: fresh_def WRITE_UTF8_def cont_iff utf_nat)
qed

lemma fresh_text: "fresh (utf8_text cs @ r) \<longleftrightarrow> cs \<noteq> [] \<or> fresh r"
  by (cases cs) (simp_all add: fresh_WRITE)

lemma READ_UTF8_text: "scalar c \<Longrightarrow> READ_UTF8 (WRITE_UTF8 c @ utf8_text cs) = Some (c, utf8_text cs)"
  using READ_WRITE_UTF8 [of c "utf8_text cs"] fresh_text [of cs "[]"] by (simp add: fresh_def)

lemma utf8_loop_text: "list_all scalar cs \<Longrightarrow> utf8_loop put (utf8_text cs) = Some (concat (map put cs))"
proof (induction cs)
  case Nil
  then show ?case by (simp add: utf8_loop.simps)
next
  case (Cons c cs)
  then show ?case by (subst utf8_loop.simps) (simp add: READ_UTF8_text)
qed

lemma utf16_loop_text: "list_all scalar cs \<Longrightarrow> utf16_loop le (utf16_text le cs) = Some (utf8_text cs)"
proof (induction cs)
  case Nil
  then show ?case by (simp add: utf16_loop.simps)
next
  case (Cons c cs)
  then show ?case
    by (subst utf16_loop.simps, cases le) (simp_all add: WRITE_UTF16_def READ_WRITE_UTF16LE READ_WRITE_UTF16BE)
qed

lemma swap_text: "swap_loop (utf16_text le cs) = utf16_text (\<not> le) cs"
proof -
  have "swap_loop (WRITE_UTF16 le c @ r) = WRITE_UTF16 (\<not> le) c @ swap_loop r" for c r
    by (auto simp: WRITE_UTF16_def WRITE_UTF16LE_def WRITE_UTF16BE_def)
  then show ?thesis by (induction cs) simp_all
qed

lemma length_swap [simp]: "length (swap_loop z) = length z"
  by (induction z rule: swap_loop.induct) simp_all

lemma swap_swap: "swap_loop (swap_loop z) = z"
  by (induction z rule: swap_loop.induct) simp_all

section \<open>The length of the output\<close>

lemma read_cont_cases: "read_cont c r = (c', r') \<Longrightarrow> c' = c \<and> r' = r \<or> length r' < length r"
proof (induction c r rule: read_cont.induct)
  case (2 c b r)
  then show ?case using read_cont_shorter [of "push_bit 6 c + (0x3f AND ucast b)" r] by (auto split: if_splits)
qed simp

lemma READ_UTF8_long:
  assumes "READ_UTF8 z = Some (c, r)" and "0xFFFF < c"
  shows "length r + 2 \<le> length z"
proof -
  obtain b s where z: "z = b # s" using assms by (cases z) (auto simp: READ_UTF8_def)
  have b: "192 \<le> unat b"
  proof (rule ccontr)
    assume "\<not> 192 \<le> unat b"
    then have "c = ucast b" using assms by (simp add: z READ_UTF8_def word_le_nat_alt)
    then show False using assms(2) unsigned_less [of b, where ?'a = nat] by (simp add: word_less_nat_alt unat_ucast8)
  qed
  let ?t = "ucast (sqlite3Utf8Trans1 ! unat (b - 0xc0)) :: u32"
  obtain c' where rc: "read_cont ?t s = (c', r)" and c: "c = utf8_fix c'"
    using assms b by (auto simp: z READ_UTF8_lead split: prod.splits)
  have "unat ?t < 0x80" using Trans1_nat [OF b] b unsigned_less [of b, where ?'a = nat] by (auto simp: unat_ucast8)
  then have "c' \<noteq> ?t" using assms(2) by (auto simp: c utf8_fix_def word_less_nat_alt)
  with read_cont_cases [OF rc] show ?thesis by (simp add: z)
qed

lemma length_WRITE_UTF16: "length (WRITE_UTF16 le c) = (if c \<le> 0xFFFF then 2 else 4)"
  by (simp add: WRITE_UTF16_def WRITE_UTF16LE_def WRITE_UTF16BE_def)

lemma READ_UTF8_defined: "z \<noteq> [] \<Longrightarrow> \<exists>c r. READ_UTF8 z = Some (c, r)"
  by (cases z) (auto simp: READ_UTF8_def split: prod.splits)

lemma utf8_loop_bound:
  "\<exists>out. utf8_loop (WRITE_UTF16 le) z = Some out \<and> length out \<le> 2 * length z \<and> even (length out)"
proof (induction "length z" arbitrary: z rule: less_induct)
  case less
  show ?case
  proof (cases "z = []")
    case True
    then show ?thesis by (simp add: utf8_loop.simps)
  next
    case False
    then obtain c r where r: "READ_UTF8 z = Some (c, r)" using READ_UTF8_defined by blast
    then have lt: "length r < length z" by (rule READ_UTF8_shorter)
    with less obtain out where out: "utf8_loop (WRITE_UTF16 le) r = Some out" "length out \<le> 2 * length r" "even (length out)"
      by blast
    have "length (WRITE_UTF16 le c) \<le> 2 * (length z - length r)"
      using lt READ_UTF8_long [OF r] by (cases "c \<le> 0xFFFF") (auto simp: length_WRITE_UTF16 not_le)
    then show ?thesis
      using False r out lt by (subst utf8_loop.simps) (auto simp: length_WRITE_UTF16)
  qed
qed

lemma length_WRITE_UTF8: "length (WRITE_UTF8 c) \<le> 4"
  by (simp add: WRITE_UTF8_def)

lemma READ_UTF16_bound:
  assumes "z \<noteq> []" and "even (length z)"
  shows "\<exists>c r. (if le then READ_UTF16LE z else READ_UTF16BE z) = Some (c, r) \<and> even (length r) \<and> length r < length z
    \<and> length (WRITE_UTF8 c) \<le> 2 * (length z - length r)"
proof -
  obtain a b s where z: "z = a # b # s" using assms by (cases z; cases "tl z") auto
  have s: "even (length s)" using assms z by simp
  have w: "length (WRITE_UTF8 c) \<le> 4" "length (WRITE_UTF8 c) \<le> 8" for c
    using length_WRITE_UTF8 [of c] by simp_all
  show ?thesis
    using s w by (cases s rule: swap_loop.cases; cases le) (auto simp: z READ_UTF16LE_pair READ_UTF16BE_pair)
qed

lemma utf16_loop_bound: "even (length z) \<Longrightarrow> \<exists>out. utf16_loop le z = Some out \<and> length out \<le> 2 * length z"
proof (induction "length z" arbitrary: z rule: less_induct)
  case less
  show ?case
  proof (cases "z = []")
    case True
    then show ?thesis by (simp add: utf16_loop.simps)
  next
    case False
    then obtain c r where r: "(if le then READ_UTF16LE z else READ_UTF16BE z) = Some (c, r)" "even (length r)"
      "length r < length z" "length (WRITE_UTF8 c) \<le> 2 * (length z - length r)"
      using READ_UTF16_bound less.prems by blast
    with less obtain out where "utf16_loop le r = Some out" "length out \<le> 2 * length r" by blast
    then show ?thesis using False r by (subst utf16_loop.simps) auto
  qed
qed

section \<open>The other readers\<close>

text \<open>On a terminated string \<open>sqlite3Utf8Read\<close> reads the same characters as the loops of the translation.\<close>

lemma read_cont_nul_eq: "read_cont c r = (c', r') \<Longrightarrow> r' \<noteq> [] \<Longrightarrow> read_cont_nul c r = Some (c', r')"
  by (induction c r rule: read_cont.induct) (auto split: if_splits)

lemma Utf8Read_eq: "READ_UTF8 z = Some (c, r) \<Longrightarrow> r \<noteq> [] \<Longrightarrow> sqlite3Utf8Read z = Some (c, r)"
  by (cases z) (auto simp: READ_UTF8_def sqlite3Utf8Read_def dest: read_cont_nul_eq split: prod.splits if_splits)

text \<open>\<open>sqlite3Utf8ReadLimited\<close> looks at no more than \<open>n\<close> bytes and uses between one and four.\<close>

lemma limited_loop_range: "k \<le> length z \<Longrightarrow> \<exists>c' j. limited_loop k c i z = Some (c', j) \<and> i \<le> j \<and> j \<le> i + int k"
proof (induction k arbitrary: c i z)
  case (Suc k)
  obtain b r where z: "z = b # r" using Suc.prems by (cases z) auto
  then obtain c' j where "limited_loop k (push_bit 6 c + (0x3f AND ucast b)) (i + 1) r = Some (c', j)" "i + 1 \<le> j" "j \<le> i + 1 + int k"
    using Suc.IH [of r] Suc.prems by fastforce
  then show ?case using z by auto
qed simp

lemma Utf8ReadLimited_range:
  assumes "1 \<le> n" and "n \<le> int (length z)"
  shows "\<exists>c i. sqlite3Utf8ReadLimited z n = Some (c, i) \<and> 1 \<le> i \<and> i \<le> min n 4"
proof -
  obtain b r where z: "z = b # r" using assms by (cases z) auto
  define m where "m = (if n > 4 then 4 else n)"
  have "nat (m - 1) \<le> length r" using assms z by (auto simp: m_def)
  from limited_loop_range [OF this, of "ucast (sqlite3Utf8Trans1 ! unat (b - 0xc0))" 1] assms show ?thesis
    by (auto simp: sqlite3Utf8ReadLimited_def z m_def Let_def split: if_splits)
qed

section \<open>Counting characters\<close>

lemma skip_cont_read: "read_cont c r = (c', r') \<Longrightarrow> r' \<noteq> [] \<Longrightarrow> skip_cont r = Some r'"
  by (induction c r rule: read_cont.induct) (auto split: if_splits)

lemma SKIP_READ: "READ_UTF8 z = Some (c, r) \<Longrightarrow> r \<noteq> [] \<Longrightarrow> SKIP_UTF8 z = Some r"
  by (cases z) (auto simp: READ_UTF8_def SKIP_UTF8_def dest: skip_cont_read split: prod.splits if_splits)

lemma hd_WRITE: "c \<noteq> 0 \<Longrightarrow> hd (WRITE_UTF8 c) \<noteq> 0"
proof -
  assume "c \<noteq> 0"
  then have "unat (ucast (c AND 0xFF) :: u8) \<noteq> 0" if "c < 0x80"
    using that unat_field0 [of 8 c] by (simp add: masks word_less_nat_alt word_unat_eq_iff)
  moreover have "hd (WRITE_UTF8 c) \<noteq> 0" if "\<not> c < 0x80"
  proof -
    have "128 \<le> unat (hd (WRITE_UTF8 c))" using that by (simp add: WRITE_UTF8_def utf_nat)
    then show ?thesis by auto
  qed
  ultimately show ?thesis by (auto simp: WRITE_UTF8_def)
qed

lemma charlen_text:
  assumes "list_all scalar (cs @ ds)" and "0 \<notin> set (cs @ ds)"
  shows "charlen_loop (Some (int (length (utf8_text cs)))) (utf8_text (cs @ ds) @ 0 # t) r = Some (r + int (length cs))"
    and "charlen_loop None (utf8_text cs @ 0 # t) r = Some (r + int (length cs))"
proof -
  have step: "SKIP_UTF8 (WRITE_UTF8 c @ utf8_text es @ 0 # t) = Some (utf8_text es @ 0 # t)" if "scalar c" for c es
    using that fresh_text [of es "0 # t"] by (intro SKIP_READ [OF READ_WRITE_UTF8]) (simp_all add: fresh_def [of "0 # t"])
  have body: "charlen_loop lim (WRITE_UTF8 c @ utf8_text es @ 0 # t) r =
      charlen_loop (map_option (\<lambda>l. l - int (length (WRITE_UTF8 c))) lim) (utf8_text es @ 0 # t) (r + 1)"
    if sc: "scalar c" and nz: "c \<noteq> 0" and lim: "\<forall>l. lim = Some l \<longrightarrow> 0 < l" for lim c es r
  proof -
    obtain b s where w: "WRITE_UTF8 c = b # s" "b \<noteq> 0"
      using hd_WRITE [OF nz] by (cases "WRITE_UTF8 c") simp_all
    with step [OF sc, of es] lim show ?thesis
      by (subst charlen_loop.simps) (auto split: option.splits)
  qed
  have stop: "charlen_loop (Some 0) (utf8_text es @ 0 # t) r = Some r" for es r
    by (cases "utf8_text es") (simp_all add: charlen_loop.simps)
  have pos: "0 < int (length (WRITE_UTF8 c @ b))" for c b
    using WRITE_nonempty(1) [of c] by (simp only: of_nat_0_less_iff length_greater_0_conv) simp
  show "charlen_loop (Some (int (length (utf8_text cs)))) (utf8_text (cs @ ds) @ 0 # t) r = Some (r + int (length cs))"
    using assms
  proof (induction cs arbitrary: r)
    case Nil
    then show ?case using stop by simp
  next
    case (Cons c cs)
    then show ?case using body [of c "Some (int (length (utf8_text (c # cs))))" "cs @ ds" r] pos [of c] by simp
  qed
  show "charlen_loop None (utf8_text cs @ 0 # t) r = Some (r + int (length cs))"
    using assms
  proof (induction cs arbitrary: r)
    case Nil
    then show ?case by (simp add: charlen_loop.simps)
  next
    case (Cons c cs)
    then show ?case using body [of c None cs r] by simp
  qed
qed

text \<open>The high byte of each unit.\<close>

lemma bytelen_step:
  assumes "scalar c"
  shows "bytelen_loop (Suc k) (drop 1 (WRITE_UTF16LE c @ r)) =
    map_option ((+) (int (length (WRITE_UTF16LE c)))) (bytelen_loop k (drop 1 r))"
proof (cases "unat c < 0x10000")
  case True
  have "\<not> (0xD8 \<le> unat c div 256 \<and> unat c div 256 < 0xDC)"
    using assms div_mult_mod_eq [of "unat c" 256] by (auto simp: scalar_def)
  then show ?thesis
    using True bmp_bytes(2) [OF True]
    by (auto simp: WRITE_UTF16LE_def word_le_nat_alt word_less_nat_alt byte_at_def split: bind_splits)
next
  case False
  then have c: "0x10000 \<le> unat c" "unat c < 0x110000" using assms by (simp_all add: scalar_def)
  have "(unat c - 0x10000) div 262144 < 4" "(unat c - 0x10000) div 256 mod 4 < 4" using c by simp_all
  then show ?thesis
    using c surrogate_bytes(2,4) [OF c]
    by (auto simp: WRITE_UTF16LE_def word_le_nat_alt word_less_nat_alt byte_at_def split: bind_splits)
qed

lemma bytelen_text:
  "list_all scalar cs \<Longrightarrow> bytelen_loop (length cs) (drop 1 (utf16_text True cs @ r)) = Some (int (length (utf16_text True cs)))"
proof (induction cs)
  case (Cons c cs)
  then show ?case
    using bytelen_step [of c "length cs" "utf16_text True cs @ r"] by (simp add: WRITE_UTF16_def)
qed simp

text \<open>
  C39.  The routines that count agree with the text: on the encoding of a list of characters without a zero,
  \<open>sqlite3Utf8CharLen\<close> gives the number of characters before the terminator, or before a limit that falls between two
  characters, and \<open>sqlite3Utf16ByteLen\<close> gives the number of bytes the first characters occupy in UTF-16.
\<close>

theorem utf_counts:
  assumes "list_all scalar (cs @ ds)" and "0 \<notin> set (cs @ ds)"
  shows "sqlite3Utf8CharLen (utf8_text cs @ 0 # t) (- 1) = Some (int (length cs))
    \<and> sqlite3Utf8CharLen (utf8_text (cs @ ds) @ 0 # t) (int (length (utf8_text cs))) = Some (int (length cs))
    \<and> sqlite3Utf16ByteLen (utf16_text True (cs @ ds)) (int (length cs)) = Some (int (length (utf16_text True cs)))"
  using charlen_text [OF assms, of t 0] bytelen_text [of cs "utf16_text True ds"] assms(1)
  by (simp add: sqlite3Utf8CharLen_def sqlite3Utf16ByteLen_def)

theorem utf_counts_witness:
  "sqlite3Utf8CharLen [0x48, 0xF0, 0x9F, 0x8D, 0x95, 0x00, 0x41] (- 1) = Some 2
   \<and> sqlite3Utf16ByteLen [0x48, 0x00, 0x3C, 0xD8, 0x55, 0xDF, 0xAC, 0x20] 2 = Some 6"
  using utf_counts [of "[0x48, 0x1F355]" "[0x20AC]" "[0x41]"]
  by (simp add: scalar_def WRITE_UTF8_def WRITE_UTF16_def WRITE_UTF16LE_def)

end
