(* ===== verification/Memcell_Properties.thy ===== *)
theory Memcell_Properties
  imports Memcell_Invariant Utf_Properties
begin

text \<open>
  The encodings of memory cells and sequences of operations on a cell: the translation of an encoding is the
  translation of its characters, and no sequence of operations leaves the memory of the cell.
\<close>

section \<open>Translation\<close>

text \<open>The characters a text consists of, as a reader sees them.\<close>

fun chars_of :: "(bytes \<Rightarrow> (u32 \<times> bytes) option) \<Rightarrow> nat \<Rightarrow> bytes \<Rightarrow> u32 list" where
  "chars_of rd 0 z = []"
| "chars_of rd (Suc k) z = (case rd z of None \<Rightarrow> [] | Some (c, r) \<Rightarrow> c # chars_of rd k r)"

definition utf8_chars :: "bytes \<Rightarrow> u32 list" where
  "utf8_chars z = chars_of READ_UTF8 (length z) z"

definition utf16_chars :: "bool \<Rightarrow> bytes \<Rightarrow> u32 list" where
  "utf16_chars le z = chars_of (if le then READ_UTF16LE else READ_UTF16BE) (length z) z"

lemma utf8_loop_chars: "length z \<le> k \<Longrightarrow> utf8_loop put z = Some (concat (map put (chars_of READ_UTF8 k z)))"
proof (induction k arbitrary: z)
  case 0
  then show ?case by (simp add: utf8_loop.simps)
next
  case (Suc k)
  show ?case
  proof (cases "z = []")
    case True
    then show ?thesis by (simp add: utf8_loop.simps READ_UTF8_def)
  next
    case False
    then obtain c r where r: "READ_UTF8 z = Some (c, r)" using READ_UTF8_defined by blast
    with READ_UTF8_shorter [OF r] Suc.IH [of r] Suc.prems False show ?thesis
      by (subst utf8_loop.simps) simp
  qed
qed

lemma utf16_loop_chars:
  "length z \<le> k \<Longrightarrow> even (length z) \<Longrightarrow>
     utf16_loop le z = Some (utf8_text (chars_of (if le then READ_UTF16LE else READ_UTF16BE) k z))"
proof (induction k arbitrary: z)
  case 0
  then show ?case by (simp add: utf16_loop.simps)
next
  case (Suc k)
  show ?case
  proof (cases "z = []")
    case True
    then show ?thesis by (simp add: utf16_loop.simps READ_UTF16LE_def READ_UTF16BE_def byte_at_def)
  next
    case False
    then obtain c r where r: "(if le then READ_UTF16LE z else READ_UTF16BE z) = Some (c, r)" "even (length r)" "length r < length z"
      using READ_UTF16_bound [OF False Suc.prems(2), of le] by blast
    have "utf16_loop le r = Some (utf8_text (chars_of (if le then READ_UTF16LE else READ_UTF16BE) k r))"
      using Suc.IH [of r] Suc.prems r by simp
    then show ?thesis using False r by (subst utf16_loop.simps) (cases le; simp)
  qed
qed

text \<open>A text in another encoding.  A last odd byte of a UTF-16 text is no part of it.\<close>

definition even_part :: "bytes \<Rightarrow> bytes" where
  "even_part z = take (length z - length z mod 2) z"

definition transcode :: "u8 \<Rightarrow> u8 \<Rightarrow> bytes \<Rightarrow> bytes" where
  "transcode enc desiredEnc z =
     (if enc = SQLITE_UTF8 then utf16_text (desiredEnc = SQLITE_UTF16LE) (utf8_chars z)
      else if desiredEnc = SQLITE_UTF8 then utf8_text (utf16_chars (enc = SQLITE_UTF16LE) (even_part z))
      else swap_loop z)"

lemma even_part_even: "even (length (even_part z))" "length (even_part z) \<le> length z"
  by (auto simp: even_part_def minus_mod_eq_mult_div)

lemma translate_loops_eq:
  assumes "enc = 1 \<and> d \<in> {2, 3} \<or> enc \<in> {2, 3} \<and> d = (1 :: u8)"
  shows "translate_loops enc d (if d = 1 then even_part z else z) = Some (transcode enc d z)"
proof (cases "enc = 1")
  case True
  then have d: "d = 2 \<or> d = 3" using assms by auto
  have "utf8_loop (WRITE_UTF16 le) z = Some (utf16_text le (utf8_chars z))" for le
    by (simp add: utf8_loop_chars [of z "length z"] utf16_text_def utf8_chars_def)
  from this [of True] this [of False] show ?thesis
    using True d by (auto simp: translate_loops_def transcode_def WRITE_UTF16_def)
next
  case False
  then have "d = 1" using assms by auto
  then show ?thesis
    using False utf16_loop_chars [OF order_refl even_part_even(1), of "enc = 2" z]
    by (simp add: translate_loops_def transcode_def utf16_chars_def)
qed

lemma transcode_bound:
  assumes "enc = 1 \<and> d \<in> {2, 3} \<or> enc \<in> {2, 3} \<and> d = (1 :: u8)"
  shows "length (transcode enc d z) \<le> 2 * length (if d = 1 then even_part z else z)"
proof -
  have "utf8_loop (WRITE_UTF16 (d = 2)) z = Some (transcode enc d z)" if "enc = 1"
    using that assms by (simp add: utf8_loop_chars [of z "length z"] utf16_text_def utf8_chars_def transcode_def)
  moreover have "utf16_loop (enc = 2) (even_part z) = Some (transcode enc d z)" if "d = 1" "enc \<noteq> 1"
    using that utf16_loop_chars [OF order_refl even_part_even(1), of "enc = 2" z] by (simp add: transcode_def utf16_chars_def)
  ultimately show ?thesis
    using assms utf8_loop_bound [of "d = 2" z] utf16_loop_bound [OF even_part_even(1), of "enc = 2" z] by auto
qed

lemma z_read_prefix: "z_read p n = Some d \<Longrightarrow> 0 \<le> m \<Longrightarrow> m \<le> n \<Longrightarrow> z_read p m = Some (take (nat m) d)"
  by (auto simp: z_read_def peek_def min_def split: bind_splits if_splits)

lemma z_read_even:
  assumes "z_read p n = Some d" and "int (length d) = n"
  shows "z_read p (n AND NOT 1) = Some (even_part d)" and "int (length (even_part d)) = n AND NOT 1"
proof -
  have n: "n AND NOT 1 = int (length d - length d mod 2)"
    using assms(2) by (simp only: and_not_1) (simp add: of_nat_diff zmod_int flip: assms(2))
  show "z_read p (n AND NOT 1) = Some (even_part d)"
    unfolding n using z_read_prefix [OF assms(1), of "int (length d - length d mod 2)"] assms(2)
    by (simp add: even_part_def del: of_nat_diff)
  show "int (length (even_part d)) = n AND NOT 1" unfolding n by (simp add: even_part_def)
qed

text \<open>The outcome of a translation.\<close>

definition translation :: "mem_env \<Rightarrow> Mem \<Rightarrow> u8 \<Rightarrow> bytes \<Rightarrow> (int \<times> Mem) option \<Rightarrow> bool" where
  "translation e p enc d r \<longleftrightarrow> (\<exists>rc p'. r = Some (rc, p') \<and> cell_ok p' \<and> held p' = held p \<and>
     (rc = SQLITE_OK \<and> has p' MEM_Str \<and> m_enc p' = enc \<and> z_read p' (m_n p') = Some (transcode (m_enc p) enc d)
      \<or> rc = SQLITE_NOMEM \<and> (\<exists>n. me_alloc e n = None)
        \<and> (m_flags p' = MEM_Null \<or> m_enc p' = m_enc p \<and> z_read p' (m_n p') \<in> {Some d, Some (even_part d)})))"

lemma swap_even: "swap_loop z = swap_loop (even_part z) @ drop (length (even_part z)) z"
proof (induction z rule: swap_loop.induct)
  case (1 a b r)
  have "even_part (a # b # r) = a # b # even_part r"
    by (simp add: even_part_def Suc_diff_le)
  with 1 show ?case by simp
qed (simp_all add: even_part_def)

lemma Translate_swap:
  assumes "cell_ok p" and "alloc_ok e" and "bit (m_flags p) 1" and "z_read p (m_n p) = Some d"
    and "m_enc p \<in> {2, 3}" and "enc \<in> {2, 3}" and "m_enc p \<noteq> enc"
  shows "translation e p enc d (sqlite3VdbeMemTranslate e p enc)"
  using MakeWriteable_ok [OF assms(1,2)]
proof
  assume "nulled e p (sqlite3VdbeMemMakeWriteable e p)"
  then obtain q where q: "sqlite3VdbeMemMakeWriteable e p = Some (SQLITE_NOMEM, q)" "m_flags q = MEM_Null" "held q = held p"
    "\<exists>n. me_alloc e n = None" by (auto simp: nulled_def)
  then show ?thesis
    using assms(5,6) by (auto simp: translation_def sqlite3VdbeMemTranslate_def null_ok)
next
  assume "writeable p (sqlite3VdbeMemMakeWriteable e p)"
  then obtain q where q: "sqlite3VdbeMemMakeWriteable e p = Some (SQLITE_OK, q)" "cell_ok q" "held q = held p" "same_text p q"
    "m_z q = Zmalloc" using assms(3) by (auto simp: writeable_def)
  have str: "bit (m_flags q) 1" and n: "m_n q = m_n p" and rd: "z_read q (m_n q) = Some d"
    using q(4) assms(3,4) by (auto simp: same_text_def)
  have ld: "int (length d) = m_n q" using stored_read [OF cell_okD(4) [OF q(2) str]] rd by auto
  note ev = z_read_even [OF rd ld]
  have tr: "transcode (m_enc p) enc d = swap_loop d" using assms(5,6) by (auto simp: transcode_def)
  have eq: "sqlite3VdbeMemTranslate e p enc =
      (if even_part d = [] then Some q else z_write q 0 (swap_loop (even_part d))) \<bind> (\<lambda>p. Some (SQLITE_OK, p\<lparr>m_enc := enc\<rparr>))"
    using q(1) ev(1) assms(5,6) by (auto simp: sqlite3VdbeMemTranslate_def)
  obtain r where r: "(if even_part d = [] then Some q else z_write q 0 (swap_loop (even_part d))) = Some r"
    and rok: "cell_ok r" "held r = held p" "m_flags r = m_flags q" "m_n r = m_n p" "z_read r (m_n p) = Some (swap_loop d)"
  proof (cases "even_part d = []")
    case True
    then have "swap_loop d = d" using swap_even [of d] by simp
    then show thesis using that [of q] True q rd n by simp
  next
    case False
    have le: "length (swap_loop (even_part d)) \<le> length (m_zMalloc q)"
      using q(2,5) str ld even_part_even(2) [of d] by (auto simp: cell_ok_def stored_def)
    define w where "w = swap_loop (even_part d) @ drop (length (even_part d)) (m_zMalloc q)"
    have w: "z_write q 0 (swap_loop (even_part d)) = Some (q\<lparr>m_zMalloc := w\<rparr>)"
      using q(5) le by (simp add: z_write_def poke_def w_def)
    have dm: "d = take (length d) (m_zMalloc q)" "length d \<le> length (m_zMalloc q)" and dn: "d \<noteq> []"
      using rd ld q(5) False by (auto simp: z_read_def z_mem_def peek_def even_part_def split: if_splits)
    have "take (length d) w = swap_loop (even_part d) @ drop (length (even_part d)) d"
      using even_part_even(2) [of d] arg_cong [OF dm(1), of "drop (length (even_part d))"] by (simp add: w_def drop_take)
    then have "take (length d) w = swap_loop d" using swap_even [of d] by simp
    moreover have "length w = length (m_zMalloc q)" using le by (simp add: w_def)
    moreover have "nat (m_n p) = length d" using ld n by linarith
    ultimately have "z_read (q\<lparr>m_zMalloc := w\<rparr>) (m_n p) = Some (swap_loop d)"
      using ld n q(5) dm(2) dn by (auto simp: z_read_def z_mem_def peek_def)
    then show thesis using that [of "q\<lparr>m_zMalloc := w\<rparr>"] False w z_write_ok [OF q(2) w] q(3) n by simp
  qed
  have "cell_ok (r\<lparr>m_enc := enc\<rparr>)"
  proof -
    have "stored (r\<lparr>m_enc := enc\<rparr>) = stored r" by (simp add: stored_def cong: zptr.case_cong)
    then show ?thesis using rok(1) assms(6) by (auto simp: cell_ok_def)
  qed
  then show ?thesis
    unfolding eq r using rok str tr by (simp add: translation_def has_bit held_def)
qed

lemma Translate_new:
  assumes ok: "cell_ok p" and al: "alloc_ok e" and str: "bit (m_flags p) 1" and rd: "z_read p (m_n p) = Some d"
    and enc: "m_enc p = 1 \<and> enc \<in> {2, 3} \<or> m_enc p \<in> {2, 3} \<and> enc = (1 :: u8)"
  shows "translation e p enc d (sqlite3VdbeMemTranslate e p enc)"
proof -
  define q where "q = (if enc = 1 then p\<lparr>m_n := m_n p AND NOT 1\<rparr> else p)"
  define len where "len = (if enc = 1 then 2 * m_n q + 1 else 2 * m_n q + 2)"
  define din where "din = (if enc = 1 then even_part d else d)"
  have ld: "int (length d) = m_n p" using stored_read [OF cell_okD(4) [OF ok str]] rd by auto
  have rq: "z_read q (m_n q) = Some din" and lq: "int (length din) = m_n q"
    using z_read_even [OF rd ld] rd ld by (simp_all add: q_def din_def)
  have okq: "cell_ok q"
  proof -
    have "0 \<le> m_n q" "m_n q \<le> m_n p" using lq ld even_part_even(2) [of d] by (auto simp: din_def split: if_splits)
    then have "stored q" using cell_okD(4) [OF ok str] by (auto simp: stored_def q_def split: zptr.splits)
    then show ?thesis using ok by (simp add: cell_ok_def q_def)
  qed
  have fq: "m_flags q = m_flags p" "m_enc q = m_enc p" "xDel_calls q = xDel_calls p" by (simp_all add: q_def)
  let ?out = "transcode (m_enc p) enc d"
  have eq: "sqlite3VdbeMemTranslate e p enc =
    (case me_alloc e len of
       None \<Rightarrow> Some (SQLITE_NOMEM, q)
     | Some zOut \<Rightarrow>
        do { zOut \<leftarrow> poke zOut 0 (?out @ (if m_enc p = SQLITE_UTF8 then [0, 0] else [0]));
             r \<leftarrow> sqlite3VdbeMemRelease e (q\<lparr>m_n := int (length ?out)\<rparr>);
             Some (SQLITE_OK, r\<lparr>m_flags := MEM_Str OR MEM_Term OR (m_flags p AND (MEM_AffMask OR MEM_Subtype)), m_enc := enc,
                                 m_z := Zmalloc, m_zMalloc := zOut\<rparr>) })"
  proof -
    have "m_enc p = 1 \<or> enc = 1" using enc by auto
    moreover have "translate_loops (m_enc p) enc din = Some ?out"
      using translate_loops_eq [OF enc, of d] by (simp add: din_def)
    ultimately show ?thesis
      unfolding sqlite3VdbeMemTranslate_def
      using rq fq by (auto simp: q_def [symmetric] len_def [symmetric] Let_def split: option.splits)
  qed
  show ?thesis
  proof (cases "me_alloc e len")
    case None
    have "z_read q (m_n q) \<in> {Some d, Some (even_part d)}" using rq by (auto simp: din_def)
    then show ?thesis
      using None okq fq eq by (auto simp: translation_def held_def)
  next
    case (Some zOut)
    have len: "len \<le> int (length zOut)" using al Some by (auto simp: alloc_ok_def)
    let ?t = "if m_enc p = SQLITE_UTF8 then [0, 0] else [0] :: bytes"
    have "int (length ?out) \<le> 2 * m_n q" using transcode_bound [OF enc, of d] lq by (simp add: din_def)
    then have "int (length (?out @ ?t)) \<le> len" using enc by (auto simp: len_def)
    then obtain z where z: "poke zOut 0 (?out @ ?t) = Some z" using len by (auto simp: poke_def)
    define f where "f = MEM_Str OR MEM_Term OR (m_flags p AND (MEM_AffMask OR MEM_Subtype))"
    have f: "bit f 1" "\<not> bit f 10" "\<not> bit f 12" "\<not> bit f 13" "\<not> bit f 14" "\<not> bit f 15"
      by (simp_all add: f_def bit_or_iff bit_and_iff)
    let ?q = "q\<lparr>m_n := int (length ?out)\<rparr>"
    have rel: "releasable ?q" "bit (m_flags ?q) 12 \<Longrightarrow> m_zMalloc ?q = []"
      using okq by (simp_all add: releasable_def cell_ok_def)
    obtain r where r: "sqlite3VdbeMemRelease e ?q = Some r" using Release_eq [OF rel] by blast
    have rf: "m_n r = int (length ?out)" "xDel_calls r = held p"
      using trans [OF r [symmetric] Release_eq [OF rel]] fq by (auto simp: held_def split: if_splits)
    let ?r = "r\<lparr>m_flags := f, m_enc := enc, m_z := Zmalloc, m_zMalloc := z\<rparr>"
    have zl: "int (length (?out @ ?t)) \<le> int (length z)" "take (length ?out) z = ?out"
      using z by (auto simp: poke_def split: if_splits)
    have ne: "z \<noteq> []" using zl by (auto split: if_splits)
    have "stored ?r" using zl ne rf by (simp add: stored_def split: if_splits)
    then have "cell_ok ?r" using f enc by (auto simp: cell_ok_def)
    moreover have "z_read ?r (m_n ?r) = Some ?out"
      using zl rf by (auto simp: z_read_def z_mem_def peek_def)
    moreover have "sqlite3VdbeMemTranslate e p enc = Some (SQLITE_OK, ?r)"
      unfolding eq Some f_def [symmetric] using z r by simp
    ultimately show ?thesis using rf f by (simp add: translation_def has_bit held_def)
  qed
qed

lemma Translate_ok:
  assumes "cell_ok p" and "alloc_ok e" and "bit (m_flags p) 1" and "z_read p (m_n p) = Some d"
    and "enc \<in> {1, 2, 3}" and "m_enc p \<noteq> enc"
  shows "translation e p enc d (sqlite3VdbeMemTranslate e p enc)"
proof (cases "m_enc p = 1 \<or> enc = 1")
  case True
  with assms cell_okD(8) [OF assms(1,3)] show ?thesis by (intro Translate_new) auto
next
  case False
  with assms cell_okD(8) [OF assms(1,3)] show ?thesis by (intro Translate_swap) auto
qed

text \<open>
  C36.  The translation of a cell that holds a string, whatever bytes it holds: it runs inside its buffers, keeps the cell
  well formed, and the cell afterwards holds the string in the new encoding, character by character.  When memory cannot be
  allocated the code is \<open>SQLITE_NOMEM\<close>, and the cell is NULL or holds its string unchanged, up to a last odd byte.
\<close>

theorem translate_refines:
  assumes "cell_ok p" and "alloc_ok e" and "has p MEM_Str" and "enc \<in> {1, 2, 3}" and "m_enc p \<noteq> enc"
  shows "\<exists>d rc p'. z_read p (m_n p) = Some d \<and> sqlite3VdbeMemTranslate e p enc = Some (rc, p') \<and> cell_ok p' \<and> held p' = held p \<and>
     (rc = SQLITE_OK \<and> has p' MEM_Str \<and> m_enc p' = enc \<and> z_read p' (m_n p') = Some (transcode (m_enc p) enc d)
      \<or> rc = SQLITE_NOMEM \<and> (\<exists>n. me_alloc e n = None)
        \<and> (m_flags p' = MEM_Null \<or> m_enc p' = m_enc p \<and> z_read p' (m_n p') \<in> {Some d, Some (even_part d)}))"
proof -
  have str: "bit (m_flags p) 1" using assms(3) by (simp add: has_bit)
  obtain d where d: "z_read p (m_n p) = Some d" using stored_read [OF cell_okD(4) [OF assms(1) str]] by blast
  with Translate_ok [OF assms(1,2) str d assms(4,5)] show ?thesis unfolding translation_def by blast
qed

section \<open>Encodings of a text\<close>

definition encoded :: "u8 \<Rightarrow> u32 list \<Rightarrow> bytes" where
  "encoded enc cs = (if enc = SQLITE_UTF8 then utf8_text cs else utf16_text (enc = SQLITE_UTF16LE) cs)"

lemma chars_of_text:
  assumes "\<And>c r. scalar c \<Longrightarrow> ok r \<Longrightarrow> rd (w c @ r) = Some (c, r)" and "\<And>cs. ok (concat (map w cs))" and "\<And>c. w c \<noteq> []"
    and "rd [] = None"
  shows "list_all scalar cs \<Longrightarrow> length (concat (map w cs)) \<le> k \<Longrightarrow> chars_of rd k (concat (map w cs)) = cs"
proof (induction cs arbitrary: k)
  case Nil
  then show ?case using assms(4) by (cases k) simp_all
next
  case (Cons c cs)
  have "0 < length (w c)" using assms(3) by simp
  moreover have "length (w c) + length (concat (map w cs)) \<le> k" using Cons.prems(2) by simp
  ultimately have "1 + length (concat (map w cs)) \<le> k" by linarith
  then obtain j where j: "k = Suc j" "length (concat (map w cs)) \<le> j" by (cases k) auto
  then show ?case using assms(1,2) Cons by simp
qed

lemma READ_Nil: "READ_UTF8 [] = None" "READ_UTF16LE [] = None" "READ_UTF16BE [] = None"
  by (simp_all add: READ_UTF8_def READ_UTF16LE_def READ_UTF16BE_def byte_at_def)

lemma utf8_chars_text: "list_all scalar cs \<Longrightarrow> utf8_chars (utf8_text cs) = cs"
proof -
  assume cs: "list_all scalar cs"
  have "fresh (utf8_text cs)" for cs using fresh_text [of cs "[]"] by (simp add: fresh_def [of "[]"])
  then have "fresh (concat (map WRITE_UTF8 cs))" for cs by (simp add: utf8_text_def)
  from chars_of_text [where ok = fresh and w = WRITE_UTF8 and rd = READ_UTF8, OF READ_WRITE_UTF8 this WRITE_nonempty(1) READ_Nil(1) cs]
  show ?thesis by (simp add: utf8_chars_def utf8_text_def)
qed

lemma utf16_chars_text: "list_all scalar cs \<Longrightarrow> utf16_chars le (utf16_text le cs) = cs"
proof -
  assume cs: "list_all scalar cs"
  have "(if le then READ_UTF16LE else READ_UTF16BE) (WRITE_UTF16 le c @ r) = Some (c, r)" if "scalar c" for c r
    using that by (simp add: WRITE_UTF16_def READ_WRITE_UTF16LE READ_WRITE_UTF16BE)
  moreover have "(if le then READ_UTF16LE else READ_UTF16BE) [] = None" by (simp add: READ_Nil)
  ultimately show ?thesis
    using chars_of_text [where ok = "\<lambda>_. True" and w = "WRITE_UTF16 le" and rd = "if le then READ_UTF16LE else READ_UTF16BE" and cs = cs]
      cs WRITE_nonempty(2) by (simp add: utf16_chars_def utf16_text_def)
qed

lemma utf16_text_even: "even_part (utf16_text le cs) = utf16_text le cs"
proof -
  have "even (length (utf16_text le cs))" by (induction cs) (simp_all add: length_WRITE_UTF16)
  then show ?thesis by (simp add: even_part_def even_iff_mod_2_eq_zero)
qed

lemma transcode_encoded:
  assumes "list_all scalar cs" and "enc \<in> {1, 2, 3}" and "enc' \<in> {1, 2, 3}" and "enc \<noteq> enc'"
  shows "transcode enc enc' (encoded enc cs) = encoded enc' cs"
  using assms swap_text [of "enc = 2" cs]
  by (auto simp: transcode_def encoded_def utf8_chars_text utf16_chars_text utf16_text_even)

lemma ChangeEncoding_text:
  assumes "cell_ok p" and "alloc_ok e" and "\<And>n. me_alloc e n \<noteq> None" and "has p MEM_Str" and "list_all scalar cs"
    and "z_read p (m_n p) = Some (encoded (m_enc p) cs)" and "enc \<in> {1, 2, 3}"
  shows "\<exists>q. sqlite3VdbeChangeEncoding e p enc = Some (SQLITE_OK, q) \<and> cell_ok q \<and> has q MEM_Str \<and> m_enc q = enc
    \<and> z_read q (m_n q) = Some (encoded enc cs)"
proof (cases "m_enc p = enc")
  case True
  with assms show ?thesis by (auto simp: sqlite3VdbeChangeEncoding_def)
next
  case False
  have str: "bit (m_flags p) 1" using assms(4) by (simp add: has_bit)
  have "transcode (m_enc p) enc (encoded (m_enc p) cs) = encoded enc cs"
    using transcode_encoded [OF assms(5) cell_okD(8) [OF assms(1) str] assms(7) False] .
  with Translate_ok [OF assms(1,2) str assms(6,7) False] False assms(3,4) show ?thesis
    by (auto simp: translation_def sqlite3VdbeChangeEncoding_def)
qed

text \<open>
  C37.  Round trip: a string of characters that is taken through any two encodings and back to UTF-8 is at each stage the
  same sequence of characters in that encoding, and in the end byte for byte the string it was, while memory lasts.  (The
  characters are the Unicode scalar values except the two noncharacters the reader replaces.)
\<close>

theorem encoding_roundtrip:
  assumes "cell_ok p" and "alloc_ok e" and "\<And>n. me_alloc e n \<noteq> None" and "has p MEM_Str" and "m_enc p = SQLITE_UTF8"
    and "list_all scalar cs" and "z_read p (m_n p) = Some (utf8_text cs)" and "enc1 \<in> {1, 2, 3}" and "enc2 \<in> {1, 2, 3}"
  shows "\<exists>q r s. sqlite3VdbeChangeEncoding e p enc1 = Some (SQLITE_OK, q) \<and> z_read q (m_n q) = Some (encoded enc1 cs)
    \<and> sqlite3VdbeChangeEncoding e q enc2 = Some (SQLITE_OK, r) \<and> z_read r (m_n r) = Some (encoded enc2 cs)
    \<and> sqlite3VdbeChangeEncoding e r SQLITE_UTF8 = Some (SQLITE_OK, s) \<and> z_read s (m_n s) = Some (utf8_text cs)"
proof -
  note step = ChangeEncoding_text [OF _ assms(2,3) _ assms(6)]
  obtain q where q: "sqlite3VdbeChangeEncoding e p enc1 = Some (SQLITE_OK, q)" "cell_ok q" "has q MEM_Str" "m_enc q = enc1"
    "z_read q (m_n q) = Some (encoded enc1 cs)" using step [OF assms(1,4) _ assms(8)] assms(5,7) by (auto simp: encoded_def)
  obtain r where r: "sqlite3VdbeChangeEncoding e q enc2 = Some (SQLITE_OK, r)" "cell_ok r" "has r MEM_Str" "m_enc r = enc2"
    "z_read r (m_n r) = Some (encoded enc2 cs)" using step [OF q(2,3) _ assms(9)] q(4,5) by auto
  obtain s where s: "sqlite3VdbeChangeEncoding e r SQLITE_UTF8 = Some (SQLITE_OK, s)" "z_read s (m_n s) = Some (encoded 1 cs)"
    using step [OF r(2,3), of 1] r(4,5) by auto
  have "encoded 1 cs = utf8_text cs" by (simp add: encoded_def)
  with q r s show ?thesis by auto
qed

section \<open>An example\<close>

text \<open>An allocator that always succeeds, with blocks as large as asked for, and a cell with a static string.\<close>

definition sample_env :: mem_env where
  "sample_env = \<lparr> me_alloc = (\<lambda>n. Some (replicate (nat n) 0xAA)), me_finalize = (\<lambda>p. p), me_limit = None \<rparr>"

definition sample_cell :: Mem where
  "sample_cell = zero_cell\<lparr>m_z := Zext [0x41, 0xE2, 0x82, 0xAC, 0], m_n := 4, m_flags := MEM_Str OR MEM_Static, m_enc := 1\<rparr>"

lemma sample_ok: "alloc_ok sample_env" "me_alloc sample_env n \<noteq> None" "cell_ok sample_cell" "has sample_cell MEM_Str"
  by (simp_all add: sample_env_def alloc_ok_def sample_cell_def zero_cell_def cell_ok_def stored_def has_def bit_or_iff)

theorem translate_refines_witness:
  "\<exists>p'. sqlite3VdbeMemTranslate sample_env sample_cell 2 = Some (SQLITE_OK, p') \<and> z_read p' (m_n p') = Some [0x41, 0x00, 0xAC, 0x20]"
proof -
  have rd: "z_read sample_cell (m_n sample_cell) = Some (utf8_text [0x41, 0x20AC])"
    by (simp add: sample_cell_def zero_cell_def z_read_def z_mem_def peek_def WRITE_UTF8_def)
  have "transcode 1 2 (utf8_text [0x41, 0x20AC]) = [0x41, 0x00, 0xAC, 0x20]"
    using utf8_chars_text [of "[0x41, 0x20AC]"] by (simp add: transcode_def scalar_def WRITE_UTF16_def WRITE_UTF16LE_def)
  then show ?thesis
    using translate_refines [OF sample_ok(3,1,4), of 2] sample_ok(2) rd by (auto simp: sample_cell_def zero_cell_def)
qed

theorem encoding_roundtrip_witness:
  "\<exists>q r s. sqlite3VdbeChangeEncoding sample_env sample_cell 2 = Some (SQLITE_OK, q) \<and> z_read q (m_n q) = Some [0x41, 0x00, 0xAC, 0x20]
    \<and> sqlite3VdbeChangeEncoding sample_env q 3 = Some (SQLITE_OK, r) \<and> z_read r (m_n r) = Some [0x00, 0x41, 0x20, 0xAC]
    \<and> sqlite3VdbeChangeEncoding sample_env r 1 = Some (SQLITE_OK, s) \<and> z_read s (m_n s) = Some [0x41, 0xE2, 0x82, 0xAC]"
proof -
  have rd: "z_read sample_cell (m_n sample_cell) = Some (utf8_text [0x41, 0x20AC])"
    by (simp add: sample_cell_def zero_cell_def z_read_def z_mem_def peek_def WRITE_UTF8_def)
  have "m_enc sample_cell = 1" by (simp add: sample_cell_def)
  from encoding_roundtrip [OF sample_ok(3,1,2,4) this _ rd, of 2 3] show ?thesis
    by (simp add: scalar_def encoded_def WRITE_UTF8_def WRITE_UTF16_def WRITE_UTF16LE_def WRITE_UTF16BE_def)
qed

end
