(* ===== verification/Memcell_Safety.thy ===== *)
theory Memcell_Safety
  imports Memcell_Properties
begin

text \<open>
  Sequences of operations on a memory cell: the remaining operations keep the invariant, and the contract of a machine
  that owns resources gives the property of all sequences.
\<close>

section \<open>Byte order marks\<close>

lemma shrink_ok: "cell_ok p \<Longrightarrow> 0 \<le> n \<Longrightarrow> n \<le> m_n p \<Longrightarrow> cell_ok (p\<lparr>m_n := n\<rparr>)"
proof -
  assume ok: "cell_ok p" and n: "0 \<le> n" "n \<le> m_n p"
  have "stored p \<Longrightarrow> stored (p\<lparr>m_n := n\<rparr>)" using n by (auto simp: stored_def split: zptr.splits)
  with ok show ?thesis by (simp add: cell_ok_def)
qed

lemma enc_ok: "cell_ok p \<Longrightarrow> enc \<in> {1, 2, 3} \<Longrightarrow> cell_ok (p\<lparr>m_enc := enc\<rparr>)"
proof -
  assume ok: "cell_ok p" and "enc \<in> {1, 2, 3}"
  moreover have "stored (p\<lparr>m_enc := enc\<rparr>) = stored p" by (simp add: stored_def cong: zptr.case_cong)
  ultimately show ?thesis by (simp add: cell_ok_def)
qed

lemma bom_of_range: "bom_of b \<in> {0, 2, 3}"
  by (simp add: bom_of_def)

lemma HandleBom_ok:
  assumes "cell_ok p" and "alloc_ok e" and "bit (m_flags p) 1"
  shows "kept p (sqlite3VdbeMemHandleBom e p)"
proof (cases "m_n p > 1")
  case False
  then show ?thesis using assms(1) by (simp add: sqlite3VdbeMemHandleBom_def kept_def)
next
  case True
  have st: "stored p" using cell_okD(4) [OF assms(1,3)] .
  obtain d where d: "z_read p (m_n p) = Some d" "int (length d) = m_n p" using stored_read [OF st] by blast
  then have r2: "z_read p 2 = Some (take 2 d)" using z_read_prefix [OF d(1), of 2] True by simp
  show ?thesis
  proof (cases "bom_of (take 2 d) = 0")
    case z: True
    then show ?thesis using True r2 assms(1) by (simp add: sqlite3VdbeMemHandleBom_def kept_def)
  next
    case bom: False
    then have enc: "bom_of (take 2 d) \<in> {1, 2, 3}" using bom_of_range [of "take 2 d"] by auto
    from MakeWriteable_ok [OF assms(1,2)] show ?thesis
    proof
      assume "nulled e p (sqlite3VdbeMemMakeWriteable e p)"
      then show ?thesis using True r2 bom by (auto simp: sqlite3VdbeMemHandleBom_def nulled_def kept_def null_ok)
    next
      assume "writeable p (sqlite3VdbeMemMakeWriteable e p)"
      then obtain q where q: "sqlite3VdbeMemMakeWriteable e p = Some (SQLITE_OK, q)" "cell_ok q" "held q = held p" "same_text p q"
        "m_z q = Zmalloc" using assms(3) by (auto simp: writeable_def)
      have n: "m_n q = m_n p" and str: "bit (m_flags q) 1" using q(4) assms(3) by (simp_all add: same_text_def)
      let ?s = "q\<lparr>m_n := m_n p - 2\<rparr>"
      have s: "cell_ok ?s" using shrink_ok [OF q(2), of "m_n p - 2"] True n by simp
      have len: "m_n p \<le> int (length (m_zMalloc q))" using cell_okD(4) [OF q(2) str] q(5) n by (simp add: stored_def)
      then obtain t where t: "peek (m_zMalloc q) 2 (m_n p - 2) = Some t" "int (length t) = m_n p - 2"
        using True peek_defined [of 2 "m_n p - 2" "m_zMalloc q"] by auto
      then obtain w where w: "z_write ?s 0 (t @ [0, 0]) = Some w"
        using q(5) len by (auto simp: z_write_def poke_def)
      have "kept p (Some (SQLITE_OK, w\<lparr>m_flags := m_flags w OR MEM_Term, m_enc := bom_of (take 2 d)\<rparr>))"
        using enc_ok [OF term_ok(1) [OF z_write_ok(1) [OF s w]] enc] z_write_ok(2) [OF s w] q(3) term_ok(2) [of w]
        by (simp add: kept_def held_def)
      then show ?thesis
        using True r2 bom q(1) n t w q(5) by (simp add: sqlite3VdbeMemHandleBom_def z_mem_def)
    qed
  qed
qed

section \<open>Setting a string\<close>

definition limit_of :: "mem_env \<Rightarrow> int" where
  "limit_of e = (case me_limit e of Some l \<Rightarrow> l | None \<Rightarrow> SQLITE_MAX_LENGTH)"

text \<open>What a caller has to see to: a buffer that holds the bytes announced, or a terminated one.\<close>

definition setstr_pre :: "mem_env \<Rightarrow> bytes option \<Rightarrow> int \<Rightarrow> u8 \<Rightarrow> xdel_arg \<Rightarrow> bool" where
  "setstr_pre e z n enc x \<longleftrightarrow>
     (case z of
        None \<Rightarrow> True
      | Some b \<Rightarrow> enc \<in> {0, 1, 2, 3} \<and> (x = Dynamic \<longrightarrow> b \<noteq> []) \<and>
          (if n < 0 then enc \<noteq> 0 \<and> setstr_nByte (limit_of e) b n enc \<noteq> None else n \<le> int (length b)))"

lemma strlen_bound: "strlen b = Some k \<Longrightarrow> 0 \<le> k \<and> k + 1 \<le> int (length b)"
  by (induction b arbitrary: k) (auto split: if_splits bind_splits)

lemma unit_len_bound: "unit_len l m b = Some k \<Longrightarrow> m \<le> k \<and> (k \<le> l \<longrightarrow> k + 2 \<le> m + int (length b))"
  by (induction l m b rule: unit_len.induct) (auto split: if_splits)

lemma and_31: "0 \<le> n \<Longrightarrow> 0 \<le> n AND 0x7fffffff \<and> n AND 0x7fffffff \<le> (n :: int)"
  by (simp add: AND_upper1)

text \<open>A cell whose string has just been set.\<close>

lemma set_owned_ok:
  assumes "m_z r = Zmalloc" and "m_zMalloc r \<noteq> []" and "0 \<le> k" and "k \<le> int (length (m_zMalloc r))"
    and "f \<in> {MEM_Str, MEM_Str OR MEM_Term, MEM_Blob}" and "enc \<in> {1, 2, 3}"
  shows "cell_ok (r\<lparr>m_n := k, m_flags := f, m_enc := enc\<rparr>)" and "held (r\<lparr>m_n := k, m_flags := f, m_enc := enc\<rparr>) = xDel_calls r"
proof -
  have f: "\<not> bit f 10" "\<not> bit f 12" "\<not> bit f 15" using assms(5) by auto
  show "cell_ok (r\<lparr>m_n := k, m_flags := f, m_enc := enc\<rparr>)"
    using assms(1-4,6) f by (simp add: cell_ok_def stored_def)
  show "held (r\<lparr>m_n := k, m_flags := f, m_enc := enc\<rparr>) = xDel_calls r" using f by (simp add: held_def)
qed

lemma set_extern_ok:
  assumes "m_zMalloc r = []" and "0 \<le> k" and "k \<le> int (length b)" and "m_z r = Zext b"
    and "f \<in> {MEM_Str, MEM_Str OR MEM_Term, MEM_Blob}" and "enc \<in> {1, 2, 3}" and "g \<in> {MEM_Static, MEM_Dyn}"
  shows "cell_ok (r\<lparr>m_n := k, m_flags := f OR g, m_enc := enc\<rparr>)"
    and "held (r\<lparr>m_n := k, m_flags := f OR g, m_enc := enc\<rparr>) = xDel_calls r + of_bool (g = MEM_Dyn)"
proof -
  have f: "\<not> bit (f OR g) 10" "\<not> bit (f OR g) 15" "bit (f OR g) 12 \<or> bit (f OR g) 13" "bit (f OR g) 12 \<longleftrightarrow> g = MEM_Dyn"
    using assms(5,7) by auto
  show "cell_ok (r\<lparr>m_n := k, m_flags := f OR g, m_enc := enc\<rparr>)"
    using assms(1-4,6) f by (auto simp: cell_ok_def stored_def)
  show "held (r\<lparr>m_n := k, m_flags := f OR g, m_enc := enc\<rparr>) = xDel_calls r + of_bool (g = MEM_Dyn)"
    using f by (simp add: held_def)
qed

fun gain :: "xdel_arg \<Rightarrow> nat" where
  "gain (Destructor d) = 1"
| "gain _ = 0"

definition placed :: "Mem \<Rightarrow> int \<Rightarrow> u8 \<Rightarrow> u16 \<Rightarrow> xdel_arg \<Rightarrow> (int \<times> Mem \<times> u16) option \<Rightarrow> bool" where
  "placed p nByte enc f x r \<longleftrightarrow> (\<exists>rc q g. r = Some (rc, q, g) \<and>
     (if rc = SQLITE_OK
      then (bit f 1 \<longrightarrow> bit g 1) \<and> (\<forall>k. 0 \<le> k \<and> k \<le> nByte \<longrightarrow> cell_ok (q\<lparr>m_n := k, m_flags := g, m_enc := enc\<rparr>)
                \<and> held (q\<lparr>m_n := k, m_flags := g, m_enc := enc\<rparr>) = held p + gain x)
      else cell_ok q \<and> held q = held p \<and> gain x = 0))"

lemma place_transient:
  assumes "cell_ok p" and "alloc_ok e" and f: "f \<in> {MEM_Str, MEM_Str OR MEM_Term, MEM_Blob}" and enc: "enc \<in> {1, 2, 3}"
    and n: "0 \<le> nByte" "nByte + (if f AND MEM_Term \<noteq> 0 then (if enc = SQLITE_UTF8 then 1 else 2) else 0) \<le> int (length z)"
  shows "placed p nByte enc f Transient (setstr_place e p z nByte enc f Transient)"
proof -
  define m where "m = nByte + (if f AND MEM_Term \<noteq> 0 then (if enc = SQLITE_UTF8 then 1 else 2) else 0)"
  have m: "nByte \<le> m" "m \<le> int (length z)" using n by (simp_all add: m_def)
  have eq: "setstr_place e p z nByte enc f Transient = sqlite3VdbeMemClearAndResize e p (max m 32) \<bind> (\<lambda>(rc, p).
      if rc \<noteq> SQLITE_OK then Some (SQLITE_NOMEM, p, f)
      else do { d \<leftarrow> peek z 0 m; p \<leftarrow> z_write p 0 d; Some (SQLITE_OK, p, f) })"
    unfolding setstr_place_def m_def [symmetric] by simp
  have "1 \<le> max m 32" by simp
  from ClearAndResize_ok [OF assms(1,2) this] show ?thesis
  proof (elim disjE exE conjE)
    fix q assume q: "sqlite3VdbeMemClearAndResize e p (max m 32) = Some (SQLITE_OK, q)" "m_z q = Zmalloc"
      "max m 32 \<le> int (length (m_zMalloc q))" "held q = held p" "\<not> bit (m_flags q) 12"
    obtain d where d: "peek z 0 m = Some d" "int (length d) = m" using n m peek_defined [of 0 m z] by auto
    obtain b where b: "poke (m_zMalloc q) 0 d = Some b" "length b = length (m_zMalloc q)"
      using q(3) d(2) poke_defined [of 0 d "m_zMalloc q"] by auto
    let ?r = "q\<lparr>m_zMalloc := b\<rparr>"
    have r: "m_z ?r = Zmalloc" "m_zMalloc ?r \<noteq> []" "m \<le> int (length (m_zMalloc ?r))" "xDel_calls ?r = held p"
      using q b by (auto simp: held_def)
    have "setstr_place e p z nByte enc f Transient = Some (SQLITE_OK, ?r, f)"
      using q(1,2) d(1) b(1) by (simp add: eq z_write_def)
    moreover have "cell_ok (?r\<lparr>m_n := k, m_flags := f, m_enc := enc\<rparr>) \<and> held (?r\<lparr>m_n := k, m_flags := f, m_enc := enc\<rparr>) = held p"
      if k: "0 \<le> k" "k \<le> nByte" for k
      using set_owned_ok [OF r(1,2) k(1) _ f enc] k m(1) r(3,4) by simp
    ultimately show ?thesis by (simp add: placed_def)
  next
    fix q assume "sqlite3VdbeMemClearAndResize e p (max m 32) = Some (SQLITE_NOMEM, q)" "m_flags q = MEM_Null" "held q = held p"
    then show ?thesis by (simp add: eq placed_def null_ok)
  qed
qed

lemma place_ok:
  assumes "cell_ok p" and "alloc_ok e" and f: "f \<in> {MEM_Str, MEM_Str OR MEM_Term, MEM_Blob}" and enc: "enc \<in> {1, 2, 3}"
    and n: "0 \<le> nByte" "nByte + (if f AND MEM_Term \<noteq> 0 then (if enc = SQLITE_UTF8 then 1 else 2) else 0) \<le> int (length z)"
    and dyn: "x = Dynamic \<Longrightarrow> z \<noteq> []"
  shows "placed p nByte enc f x (setstr_place e p z nByte enc f x)"
proof -
  obtain r where r: "sqlite3VdbeMemRelease e p = Some r"
    using Release_eq [OF cell_ok_releasable [OF assms(1)] cell_okD(2) [OF assms(1)]] by blast
  note rel = Release_held [OF assms(1) r]
  have nz: "nByte \<le> int (length z)" using n by (auto split: if_splits)
  show ?thesis
  proof (cases x)
    case Transient
    then show ?thesis using place_transient [OF assms(1-6)] by simp
  next
    case Static
    have "cell_ok (r\<lparr>m_z := Zext z, m_n := k, m_flags := f OR MEM_Static, m_enc := enc\<rparr>)
        \<and> held (r\<lparr>m_z := Zext z, m_n := k, m_flags := f OR MEM_Static, m_enc := enc\<rparr>) = held p" if k: "0 \<le> k" "k \<le> nByte" for k
      using set_extern_ok [of "r\<lparr>m_z := Zext z\<rparr>" k z f enc MEM_Static] f enc k nz rel by simp
    then show ?thesis using Static r by (simp add: setstr_place_def placed_def bit_or_iff)
  next
    case Dynamic
    have "cell_ok (r\<lparr>m_z := Zmalloc, m_zMalloc := z, m_n := k, m_flags := f, m_enc := enc\<rparr>)
        \<and> held (r\<lparr>m_z := Zmalloc, m_zMalloc := z, m_n := k, m_flags := f, m_enc := enc\<rparr>) = held p" if k: "0 \<le> k" "k \<le> nByte" for k
      using set_owned_ok [of "r\<lparr>m_z := Zmalloc, m_zMalloc := z\<rparr>" k f enc] f enc k nz rel dyn Dynamic by simp
    then show ?thesis using Dynamic r by (simp add: setstr_place_def placed_def bit_or_iff)
  next
    case (Destructor d)
    have "cell_ok (r\<lparr>m_z := Zext z, m_xDel := d, m_n := k, m_flags := f OR MEM_Dyn, m_enc := enc\<rparr>)
        \<and> held (r\<lparr>m_z := Zext z, m_xDel := d, m_n := k, m_flags := f OR MEM_Dyn, m_enc := enc\<rparr>) = Suc (held p)"
      if k: "0 \<le> k" "k \<le> nByte" for k
      using set_extern_ok [of "r\<lparr>m_z := Zext z, m_xDel := d\<rparr>" k z f enc MEM_Dyn] f enc k nz rel by simp
    then show ?thesis using Destructor r by (simp add: setstr_place_def placed_def bit_or_iff)
  qed
qed

lemma SetNull_held: "releasable p \<Longrightarrow> \<exists>p'. sqlite3VdbeMemSetNull e p = Some p' \<and> m_flags p' = MEM_Null \<and> held p' = held p"
  by (simp add: SetNull_eq held_def)

lemma SetStr_ok:
  assumes "cell_ok p" and "alloc_ok e" and pre: "setstr_pre e z n enc x"
  shows "\<exists>rc p'. sqlite3VdbeMemSetStr e p z n enc x = Some (rc, p') \<and> cell_ok p' \<and> held p' = held p + (if z = None then 0 else gain x)"
proof (cases z)
  case None
  with SetNull_held [OF cell_ok_releasable [OF assms(1)], of e] show ?thesis
    by (auto simp: sqlite3VdbeMemSetStr_def null_ok)
next
  case (Some b)
  define l where "l = (case me_limit e of Some l \<Rightarrow> l | None \<Rightarrow> SQLITE_MAX_LENGTH)"
  define f :: u16 where "f = (if n < 0 then MEM_Str OR MEM_Term else if enc = 0 then MEM_Blob else MEM_Str)"
  define c where "c = (if n \<ge> 0 \<and> enc = 0 then SQLITE_UTF8 else enc)"
  obtain m where m: "setstr_nByte l b n enc = Some m"
    using pre Some by (auto simp: setstr_pre_def limit_of_def l_def setstr_nByte_def split: if_splits)
  have c: "c \<in> {1, 2, 3}" using pre Some by (auto simp: setstr_pre_def c_def split: if_splits)
  have f: "f \<in> {MEM_Str, MEM_Str OR MEM_Term, MEM_Blob}" by (simp add: f_def)
  let ?rest = "\<lambda>q g. let q = q\<lparr>m_n := m AND 0x7fffffff, m_flags := g, m_enc := c\<rparr> in
      if c > SQLITE_UTF8 then
        do { (rc, p) \<leftarrow> sqlite3VdbeMemHandleBom e q; if rc \<noteq> SQLITE_OK then Some (SQLITE_NOMEM, p) else Some (SQLITE_OK, p) }
      else Some (SQLITE_OK, q)"
  have eq: "sqlite3VdbeMemSetStr e p z n enc x =
    (if m > l then
       do { let p = (case x of Destructor _ \<Rightarrow> p\<lparr>xDel_calls := Suc (xDel_calls p)\<rparr> | _ \<Rightarrow> p);
            p \<leftarrow> sqlite3VdbeMemSetNull e p;
            Some (SQLITE_TOOBIG, p) }
     else setstr_place e p b m c f x \<bind> (\<lambda>(rc, q, g). if rc \<noteq> SQLITE_OK then Some (rc, q) else ?rest q g))"
    unfolding sqlite3VdbeMemSetStr_def Some option.case l_def [symmetric] f_def [symmetric] c_def [symmetric] Let_def m by simp
  show ?thesis
  proof (cases "m > l")
    case True
    define q where "q = (case x of Destructor _ \<Rightarrow> p\<lparr>xDel_calls := Suc (xDel_calls p)\<rparr> | _ \<Rightarrow> p)"
    have q: "releasable q" "held q = held p + gain x"
      using cell_ok_releasable [OF assms(1)] by (simp_all add: q_def releasable_def held_def split: xdel_arg.splits)
    have "sqlite3VdbeMemSetStr e p z n enc x = sqlite3VdbeMemSetNull e q \<bind> (\<lambda>p. Some (SQLITE_TOOBIG, p))"
      using True unfolding eq q_def by simp
    with SetNull_held [OF q(1), of e] q(2) show ?thesis using Some by (auto simp: null_ok)
  next
    case False
    have m0: "0 \<le> m" and len: "m + (if f AND MEM_Term \<noteq> 0 then (if c = SQLITE_UTF8 then 1 else 2) else 0) \<le> int (length b)"
      using m pre Some False strlen_bound [of b m] unit_len_bound [of l 0 b m]
      by (auto simp: setstr_nByte_def setstr_pre_def f_def c_def l_def split: if_splits)
    have "placed p m c f x (setstr_place e p b m c f x)"
      using place_ok [OF assms(1,2) f c m0 len] pre Some by (simp add: setstr_pre_def)
    then obtain rc q g where q: "setstr_place e p b m c f x = Some (rc, q, g)" and
      r: "if rc = SQLITE_OK then (bit f 1 \<longrightarrow> bit g 1) \<and> (\<forall>k. 0 \<le> k \<and> k \<le> m \<longrightarrow> cell_ok (q\<lparr>m_n := k, m_flags := g, m_enc := c\<rparr>)
                \<and> held (q\<lparr>m_n := k, m_flags := g, m_enc := c\<rparr>) = held p + gain x)
          else cell_ok q \<and> held q = held p \<and> gain x = 0" by (auto simp: placed_def)
    show ?thesis
    proof (cases "rc = SQLITE_OK")
      case False
      with q r \<open>\<not> m > l\<close> Some show ?thesis unfolding eq by simp
    next
      case True
      define k where "k = m AND 0x7fffffff"
      have s: "cell_ok (q\<lparr>m_n := k, m_flags := g, m_enc := c\<rparr>)" "held (q\<lparr>m_n := k, m_flags := g, m_enc := c\<rparr>) = held p + gain x"
        "bit f 1 \<longrightarrow> bit g 1" using r True and_31 [OF m0] by (simp_all add: k_def)
      have "\<exists>rc p'. ?rest q g = Some (rc, p') \<and> cell_ok p' \<and> held p' = held p + gain x"
      proof (cases "c > SQLITE_UTF8")
        case bom: True
        then have "bit f 1" by (auto simp: f_def c_def split: if_splits)
        then have "kept (q\<lparr>m_n := k, m_flags := g, m_enc := c\<rparr>) (sqlite3VdbeMemHandleBom e (q\<lparr>m_n := k, m_flags := g, m_enc := c\<rparr>))"
          using HandleBom_ok [OF s(1) assms(2)] s(3) by simp
        then show ?thesis using bom s(2) by (auto simp: kept_def k_def [symmetric])
      next
        case False
        then show ?thesis using s by (simp add: k_def)
      qed
      then show ?thesis unfolding eq using q True \<open>\<not> m > l\<close> Some by simp
    qed
  qed
qed

section \<open>Copying and moving\<close>

lemma not_dyn_bits: "bit (w AND NOT MEM_Dyn :: u16) k \<longleftrightarrow> bit w k \<and> k \<noteq> 12"
proof -
  have "MEM_Dyn = (2 ^ 12 :: u16)" by simp
  then show ?thesis by (auto simp only: bit_and_iff bit_not_iff bit_exp_iff) (auto dest: bit_imp_le_length)
qed

lemma Copy_ok:
  assumes "cell_ok pTo" and "cell_ok pFrom" and "alloc_ok e"
  shows "kept pTo (sqlite3VdbeMemCopy e pTo pFrom)"
proof -
  obtain t where t: "(if VdbeMemDynamic pTo then vdbeMemClearExternAndSetNull e pTo else Some pTo) = Some t" "xDel_calls t = held pTo"
    using ClearExtern_ok [OF cell_ok_releasable [OF assms(1)], of e] cell_okD(1) [OF assms(1)]
    by (cases "bit (m_flags pTo) 12") (auto simp: dynamic_bit held_def)
  define z where "z = (if m_z pFrom = Zmalloc then Zext (m_zMalloc pFrom) else m_z pFrom)"
  define q where "q = t\<lparr>u_nZero := u_nZero pFrom, m_z := z, m_n := m_n pFrom, m_enc := m_enc pFrom,
    m_flags := m_flags pFrom AND NOT MEM_Dyn\<rparr>"
  have eq: "sqlite3VdbeMemCopy e pTo pFrom =
    (if m_flags q AND (MEM_Str OR MEM_Blob) \<noteq> 0 \<and> \<not> has pFrom MEM_Static
     then sqlite3VdbeMemMakeWriteable e (q\<lparr>m_flags := m_flags q OR MEM_Ephem\<rparr>) else Some (SQLITE_OK, q))"
    unfolding sqlite3VdbeMemCopy_def t(1) z_def [symmetric] by (simp add: q_def Let_def)
  have fl: "bit (m_flags q) k \<longleftrightarrow> bit (m_flags pFrom) k \<and> k \<noteq> 12" for k
    using not_dyn_bits [of "m_flags pFrom" k] by (simp add: q_def)
  have fe: "bit (m_flags q OR MEM_Ephem) k \<longleftrightarrow> bit (m_flags q) k \<or> k = 14" for k
  proof -
    have "MEM_Ephem = (2 ^ 14 :: u16)" by simp
    then show ?thesis by (simp only: bit_or_iff bit_exp_iff) auto
  qed
  have sz: "m_z q = z" "m_n q = m_n pFrom" "m_enc q = m_enc pFrom" "u_nZero q = u_nZero pFrom" "xDel_calls q = held pTo"
    by (simp_all add: q_def t(2))
  have st: "stored q" if "stored pFrom" using that by (auto simp: stored_def sz z_def split: zptr.splits)
  have "stored (q\<lparr>m_flags := f\<rparr>) = stored q" for f by (simp add: stored_def cong: zptr.case_cong)
  then have e1: "cell_ok (q\<lparr>m_flags := m_flags q OR MEM_Ephem\<rparr>)"
    using st cell_okD [OF assms(2)] by (simp add: cell_ok_def fe fl sz) 
  have e2: "cell_ok q" if "bit (m_flags pFrom) 1 \<Longrightarrow> bit (m_flags pFrom) 13"
    using st cell_okD [OF assms(2)] that by (auto simp: cell_ok_def fl sz)
  have h: "held (q\<lparr>m_flags := m_flags q OR MEM_Ephem\<rparr>) = held pTo" "held q = held pTo"
    by (simp_all add: held_def fe fl sz)
  show ?thesis
  proof (cases "m_flags q AND (MEM_Str OR MEM_Blob) \<noteq> 0 \<and> \<not> has pFrom MEM_Static")
    case True
    then have "sqlite3VdbeMemCopy e pTo pFrom = sqlite3VdbeMemMakeWriteable e (q\<lparr>m_flags := m_flags q OR MEM_Ephem\<rparr>)"
      unfolding eq by simp
    moreover have "kept (q\<lparr>m_flags := m_flags q OR MEM_Ephem\<rparr>) (sqlite3VdbeMemMakeWriteable e (q\<lparr>m_flags := m_flags q OR MEM_Ephem\<rparr>))"
      using MakeWriteable_ok [OF e1 assms(3)] kept_cases(1,2) by blast
    ultimately show ?thesis using h(1) by (simp add: kept_def)
  next
    case False
    have "sqlite3VdbeMemCopy e pTo pFrom = Some (SQLITE_OK, q)" unfolding eq by (rule if_not_P [OF False])
    moreover have "cell_ok q" using False by (intro e2) (auto simp: str_or_blob fl has_bit)
    ultimately show ?thesis using h(2) by (simp add: kept_def)
  qed
qed

lemma Move_ok:
  assumes "cell_ok pTo" and "cell_ok pFrom"
  shows "\<exists>p q. sqlite3VdbeMemMove e pTo pFrom = Some (p, q) \<and> cell_ok p \<and> cell_ok q
    \<and> held p = held pTo + of_bool (bit (m_flags pFrom) 12) \<and> held q = xDel_calls pFrom"
proof -
  obtain r where r: "sqlite3VdbeMemRelease e pTo = Some r"
    using Release_eq [OF cell_ok_releasable [OF assms(1)] cell_okD(2) [OF assms(1)]] by blast
  have "stored (pFrom\<lparr>xDel_calls := x\<rparr>) = stored pFrom" for x by (simp add: stored_def cong: zptr.case_cong)
  then have "cell_ok (pFrom\<lparr>xDel_calls := x\<rparr>)" for x using assms(2) by (simp add: cell_ok_def)
  then show ?thesis
    using r Release_held(2) [OF assms(1) r] by (simp add: sqlite3VdbeMemMove_def null_ok held_def)
qed

section \<open>Sequences of operations\<close>

text \<open>
  A machine that owns resources: every operation whose caller keeps its side runs to its end, keeps the state well formed,
  and accounts for the resources it was handed.
\<close>

locale owner_machine =
  fixes ok :: "'s \<Rightarrow> bool" and pre :: "'o \<Rightarrow> bool" and step :: "'o \<Rightarrow> 's \<Rightarrow> 's option"
    and account :: "'s \<Rightarrow> nat" and handed :: "'o \<Rightarrow> nat"
  assumes step_ok: "ok s \<Longrightarrow> pre op \<Longrightarrow> \<exists>s'. step op s = Some s' \<and> ok s' \<and> account s' = account s + handed op"
begin

primrec run :: "'o list \<Rightarrow> 's \<Rightarrow> 's option" where
  "run [] s = Some s"
| "run (op # ops) s = (case step op s of None \<Rightarrow> None | Some s' \<Rightarrow> run ops s')"

lemma run_ok:
  "ok s \<Longrightarrow> list_all pre ops \<Longrightarrow> \<exists>s'. run ops s = Some s' \<and> ok s' \<and> account s' = account s + sum_list (map handed ops)"
proof (induction ops arbitrary: s)
  case (Cons op ops)
  from step_ok [of s op] Cons.prems obtain t where t: "step op s = Some t" "ok t" "account t = account s + handed op" by auto
  with Cons.IH [of t] Cons.prems show ?case by auto
qed simp

end

text \<open>
  The operations the virtual machine applies to a cell, each with the memory it finds.  \<open>sqlite3VdbeMemRelease\<close> and
  \<open>sqlite3VdbeMemClearAndResize\<close> leave a cell that must be set or abandoned and are not among them.
\<close>

datatype mem_op =
    SetStr "bytes option" int u8 xdel_arg
  | SetNull | SetZeroBlob int
  | MakeWriteable | NulTerminate | ZeroTerminateIfAble | ChangeEncoding u8
  | CopyFrom Mem | MoveFrom Mem

fun mem_pre :: "mem_env \<times> mem_op \<Rightarrow> bool" where
  "mem_pre (e, SetStr z n enc x) \<longleftrightarrow> alloc_ok e \<and> setstr_pre e z n enc x"
| "mem_pre (e, ChangeEncoding enc) \<longleftrightarrow> alloc_ok e \<and> enc \<in> {1, 2, 3}"
| "mem_pre (e, CopyFrom q) \<longleftrightarrow> alloc_ok e \<and> cell_ok q"
| "mem_pre (e, MoveFrom q) \<longleftrightarrow> alloc_ok e \<and> cell_ok q"
| "mem_pre (e, _) \<longleftrightarrow> alloc_ok e"

fun mem_step :: "mem_env \<times> mem_op \<Rightarrow> Mem \<Rightarrow> Mem option" where
  "mem_step (e, SetStr z n enc x) p = map_option snd (sqlite3VdbeMemSetStr e p z n enc x)"
| "mem_step (e, SetNull) p = sqlite3VdbeMemSetNull e p"
| "mem_step (e, SetZeroBlob n) p = sqlite3VdbeMemSetZeroBlob e p n"
| "mem_step (e, MakeWriteable) p = map_option snd (sqlite3VdbeMemMakeWriteable e p)"
| "mem_step (e, NulTerminate) p = map_option snd (sqlite3VdbeMemNulTerminate e p)"
| "mem_step (e, ZeroTerminateIfAble) p = sqlite3VdbeMemZeroTerminateIfAble p"
| "mem_step (e, ChangeEncoding enc) p = map_option snd (sqlite3VdbeChangeEncoding e p enc)"
| "mem_step (e, CopyFrom q) p = map_option snd (sqlite3VdbeMemCopy e p q)"
| "mem_step (e, MoveFrom q) p = map_option fst (sqlite3VdbeMemMove e p q)"

text \<open>The destructors an operation hands to the cell.\<close>

fun mem_handed :: "mem_env \<times> mem_op \<Rightarrow> nat" where
  "mem_handed (e, SetStr z n enc x) = (if z = None then 0 else gain x)"
| "mem_handed (e, MoveFrom q) = of_bool (has q MEM_Dyn)"
| "mem_handed (e, _) = 0"

lemma ChangeEncoding_ok:
  assumes "cell_ok p" and "alloc_ok e" and "enc \<in> {1, 2, 3}"
  shows "kept p (sqlite3VdbeChangeEncoding e p enc)"
proof (cases "has p MEM_Str \<and> m_enc p \<noteq> enc")
  case True
  then have str: "bit (m_flags p) 1" by (simp add: has_bit)
  obtain d where "z_read p (m_n p) = Some d" using stored_read [OF cell_okD(4) [OF assms(1) str]] by blast
  from Translate_ok [OF assms(1,2) str this assms(3)] True show ?thesis
    by (auto simp: sqlite3VdbeChangeEncoding_def translation_def kept_def)
next
  case False
  then show ?thesis using assms(1) enc_ok [OF assms(1,3)] by (auto simp: sqlite3VdbeChangeEncoding_def kept_def held_def)
qed

lemma SetZeroBlob_ok:
  assumes "cell_ok p"
  shows "\<exists>q. sqlite3VdbeMemSetZeroBlob e p n = Some q \<and> cell_ok q \<and> held q = held p"
proof -
  obtain r where r: "sqlite3VdbeMemRelease e p = Some r"
    using Release_eq [OF cell_ok_releasable [OF assms] cell_okD(2) [OF assms]] by blast
  show ?thesis
    using r Release_held(2) [OF assms r]
    by (simp add: sqlite3VdbeMemSetZeroBlob_def cell_ok_def stored_def held_def bit_or_iff)
qed

lemma keptD: "kept p r \<Longrightarrow> \<exists>p'. map_option snd r = Some p' \<and> cell_ok p' \<and> held p' = held p"
  by (auto simp: kept_def)

lemma mem_step_ok:
  assumes "cell_ok p" and "mem_pre op"
  shows "\<exists>p'. mem_step op p = Some p' \<and> cell_ok p' \<and> held p' = held p + mem_handed op"
proof -
  obtain e c where op: "op = (e, c)" by (cases op)
  then have al: "alloc_ok e" using assms(2) by (cases c) simp_all
  show ?thesis
  proof (cases c)
    case (SetStr z n enc x)
    with SetStr_ok [OF assms(1) al, of z n enc x] assms(2) op show ?thesis by auto
  next
    case SetNull
    with SetNull_held [OF cell_ok_releasable [OF assms(1)], of e] op show ?thesis by (auto simp: null_ok)
  next
    case (SetZeroBlob n)
    with SetZeroBlob_ok [OF assms(1), of e n] op show ?thesis by simp
  next
    case MakeWriteable
    with keptD [of p "sqlite3VdbeMemMakeWriteable e p"] MakeWriteable_ok [OF assms(1) al] kept_cases(1,2) op
    show ?thesis by auto
  next
    case NulTerminate
    with keptD [OF NulTerminate_ok [OF assms(1) al]] op show ?thesis by simp
  next
    case ZeroTerminateIfAble
    with ZeroTerminate_ok [OF assms(1)] op show ?thesis by simp
  next
    case (ChangeEncoding enc)
    with keptD [OF ChangeEncoding_ok [OF assms(1) al, of enc]] assms(2) op show ?thesis by simp
  next
    case (CopyFrom q)
    with keptD [OF Copy_ok [OF assms(1) _ al, of q]] assms(2) op show ?thesis by simp
  next
    case (MoveFrom q)
    with Move_ok [OF assms(1), of q e] assms(2) op show ?thesis by (auto simp: has_bit)
  qed
qed

interpretation mc: owner_machine cell_ok mem_pre mem_step held mem_handed
  by unfold_locales (rule mem_step_ok)

fun run_cell :: "(mem_env \<times> mem_op) list \<Rightarrow> Mem \<Rightarrow> Mem option" where
  "run_cell [] p = Some p"
| "run_cell (op # ops) p = (case mem_step op p of None \<Rightarrow> None | Some p' \<Rightarrow> run_cell ops p')"

lemma run_cell_eq: "run_cell ops p = mc.run ops p"
  by (induction ops arbitrary: p) (simp_all split: option.splits)


definition sample_ops :: "(mem_env \<times> mem_op) list" where
  "sample_ops =
     [(sample_env, SetStr (Some [0xFF, 0xFE, 0x41, 0x00]) 4 2 (Destructor OtherDestructor)),
      (sample_env\<lparr>me_alloc := (\<lambda>n. None)\<rparr>, ChangeEncoding 1), (sample_env, ChangeEncoding 1), (sample_env, NulTerminate)]"


end
