(* ===== verification/Atoi64.thy ===== *)
theory Atoi64
  imports Utf Util
begin

text \<open>
  The conversion of text to 64-bit integers (\<^verbatim>\<open>util.c\<close>): \<open>compare2pow63\<close> and \<open>sqlite3Atoi64\<close>.  Pointers into the text are
  positions in it, \<open>incr\<close> is the distance of two characters (1 for UTF-8, 2 for UTF-16), and \<open>None\<close> is a read out of the text.
  A loop that would not advance gives \<open>None\<close> as well.
\<close>

section \<open>Definitions\<close>

abbreviation (input) LARGEST_INT64 :: int where "LARGEST_INT64 \<equiv> 9223372036854775807"
abbreviation (input) SMALLEST_INT64 :: int where "SMALLEST_INT64 \<equiv> - 9223372036854775808"

definition pow63 :: bytes where
  "pow63 = [57, 50, 50, 51, 51, 55, 50, 48, 51, 54, 56, 53, 52, 55, 55, 53, 56, 48]"

text \<open>\<open>for(i=0; c==0 && i<18; i++){ c = (zNum[i*incr]-pow63[i])*10; }\<close>: the digits still to be compared are the first argument.\<close>

fun pow63_loop :: "bytes \<Rightarrow> bytes \<Rightarrow> nat \<Rightarrow> nat \<Rightarrow> int option" where
  "pow63_loop [] zNum incr i = Some 0"
| "pow63_loop (p # ps) zNum incr i =
     do { b \<leftarrow> byte_at zNum (i * incr);
          let c = (uint b - uint p) * 10;
          if c = 0 then pow63_loop ps zNum incr (Suc i) else Some c }"

definition compare2pow63 :: "bytes \<Rightarrow> nat \<Rightarrow> int option" where
  "compare2pow63 zNum incr =
     do { c \<leftarrow> pow63_loop pow63 zNum incr 0;
          if c = 0 then do { b \<leftarrow> byte_at zNum (18 * incr); Some (uint b - 56) } else Some c }"

text \<open>\<open>for(i=3-enc; i<length && zNum[i]==0; i+=2){}\<close>.\<close>

function high_loop :: "bytes \<Rightarrow> nat \<Rightarrow> nat \<Rightarrow> nat option" where
  "high_loop zNum len i =
     (if i < len then (case byte_at zNum i of None \<Rightarrow> None | Some b \<Rightarrow> if b = 0 then high_loop zNum len (i + 2) else Some i)
      else Some i)"
  by pat_completeness auto
termination
  by (relation "measure (\<lambda>(z, len, i). len - i)") auto

declare high_loop.simps [simp del]

text \<open>\<open>while( zNum<zEnd && P(*zNum) ) zNum+=incr\<close>, for spaces and for leading zeros.\<close>

function skip_loop :: "(u8 \<Rightarrow> bool) \<Rightarrow> bytes \<Rightarrow> nat \<Rightarrow> nat \<Rightarrow> nat \<Rightarrow> nat option" where
  "skip_loop P z zEnd incr pos =
     (if pos < zEnd then
        (case byte_at z pos of
           None \<Rightarrow> None
         | Some b \<Rightarrow> if P b then (if incr = 0 then None else skip_loop P z zEnd incr (pos + incr)) else Some pos)
      else Some pos)"
  by pat_completeness auto
termination
  by (relation "measure (\<lambda>(P, z, zEnd, incr, pos). zEnd - pos)") auto

declare skip_loop.simps [simp del]

text \<open>The loop over the digits: \<open>i\<close> and \<open>u\<close> at its end.\<close>

function digit_loop :: "bytes \<Rightarrow> nat \<Rightarrow> nat \<Rightarrow> nat \<Rightarrow> nat \<Rightarrow> u64 \<Rightarrow> (nat \<times> u64) option" where
  "digit_loop z zEnd incr pos i u =
     (if pos + i < zEnd then
        (case byte_at z (pos + i) of
           None \<Rightarrow> None
         | Some c \<Rightarrow>
             if 48 \<le> c \<and> c \<le> 57 then (if incr = 0 then None else digit_loop z zEnd incr pos (i + incr) (u * 10 + ucast c - 48))
             else Some (i, u))
      else Some (i, u))"
  by pat_completeness auto
termination
  by (relation "measure (\<lambda>(z, zEnd, incr, pos, i, u). zEnd - (pos + i))") auto

declare digit_loop.simps [simp del]

text \<open>The loop over what follows the digits: 1 when it meets anything but a space.\<close>

function tail_loop :: "bytes \<Rightarrow> nat \<Rightarrow> nat \<Rightarrow> nat \<Rightarrow> int option" where
  "tail_loop z zEnd incr jj =
     (case byte_at z jj of
        None \<Rightarrow> None
      | Some b \<Rightarrow>
          if \<not> sqlite3Isspace b then Some 1
          else if jj + incr < zEnd then (if incr = 0 then None else tail_loop z zEnd incr (jj + incr)) else Some 0)"
  by pat_completeness auto
termination
  by (relation "measure (\<lambda>(z, zEnd, incr, jj). zEnd - jj)") auto

declare tail_loop.simps [simp del]

definition read_sign :: "bytes \<Rightarrow> nat \<Rightarrow> nat \<Rightarrow> nat \<Rightarrow> (bool \<times> nat) option" where
  "read_sign z zEnd incr pos =
     (if pos < zEnd then
        do { c \<leftarrow> byte_at z pos;
             if c = 45 then Some (True, pos + incr) else if c = 43 then Some (False, pos + incr) else Some (False, pos) }
      else Some (False, pos))"

text \<open>Everything after the setup of \<open>incr\<close>, \<open>zEnd\<close>, \<open>zNum\<close> and \<open>nonNum\<close>; the pair is the result and \<open>*pNum\<close>.\<close>

definition atoi64_body :: "bytes \<Rightarrow> nat \<Rightarrow> nat \<Rightarrow> nat \<Rightarrow> bool \<Rightarrow> (int \<times> int) option" where
  "atoi64_body z zEnd incr pos nonNum =
     do { pos \<leftarrow> skip_loop sqlite3Isspace z zEnd incr pos;
          (neg, zStart) \<leftarrow> read_sign z zEnd incr pos;
          pos \<leftarrow> skip_loop (\<lambda>c. c = 48) z zEnd incr zStart;
          (i, u) \<leftarrow> digit_loop z zEnd incr pos 0 0;
          let limit = (if neg then SMALLEST_INT64 else LARGEST_INT64);
          let v = (if uint u > LARGEST_INT64 then limit else if neg then - uint u else uint u);
          rc \<leftarrow> (if i = 0 \<and> zStart = pos then Some (- 1)
                else if nonNum then Some 1
                else if pos + i < zEnd then tail_loop z zEnd incr (pos + i)
                else Some 0);
          if i < 19 * incr then Some (rc, v)
          else
            do { c \<leftarrow> (if i > 19 * incr then Some 1 else compare2pow63 (drop pos z) incr);
                 if c < 0 then Some (rc, v)
                 else if c > 0 then Some (2, limit)
                 else Some (if neg then rc else 3, limit) } }"

definition sqlite3Atoi64 :: "bytes \<Rightarrow> int \<Rightarrow> u8 \<Rightarrow> (int \<times> int) option" where
  "sqlite3Atoi64 zNum len enc =
     (if enc = 1 then atoi64_body zNum (nat len) 1 0 False
      else
        do { let len = nat (len AND NOT 1);
             i \<leftarrow> high_loop zNum len (3 - unat enc);
             atoi64_body zNum (i XOR 1) 2 (unat (enc AND 1)) (i < len) })"

end
