(* ===== verification/Atoi64_Properties.thy ===== *)
theory Atoi64_Properties
  imports Atoi64
begin

text \<open>
  What \<open>sqlite3Atoi64\<close> returns for a text with a number in it: the loops as functions of the characters they see, the
  comparison of digit strings, and the value with its code.
\<close>

section \<open>The characters the loops see\<close>

function seen :: "bytes \<Rightarrow> nat \<Rightarrow> nat \<Rightarrow> nat \<Rightarrow> bytes" where
  "seen z zEnd incr pos = (if pos < zEnd \<and> 0 < incr then (z ! pos) # seen z zEnd incr (pos + incr) else [])"
  by pat_completeness auto
termination
  by (relation "measure (\<lambda>(z, zEnd, incr, pos). zEnd - pos)") auto

declare seen.simps [simp del]

text \<open>All positions that can be reached are inside the text.\<close>

definition inside :: "bytes \<Rightarrow> nat \<Rightarrow> nat \<Rightarrow> nat \<Rightarrow> bool" where
  "inside z zEnd incr pos \<longleftrightarrow> 0 < incr \<and> (\<forall>k. pos + k * incr < zEnd \<longrightarrow> pos + k * incr < length z)"

lemma inside_next: "inside z e w pos \<Longrightarrow> inside z e w (pos + j * w)"
  unfolding inside_def by (metis add.assoc add_mult_distrib)

lemma inside_step: "inside z e w pos \<Longrightarrow> inside z e w (pos + w)"
  using inside_next [of z e w pos 1] by simp

lemma inside_here: "inside z e w pos \<Longrightarrow> pos < e \<Longrightarrow> byte_at z pos = Some (z ! pos)"
  unfolding inside_def byte_at_def by (metis add.right_neutral mult_zero_left)

lemma seen_Cons: "inside z e w pos \<Longrightarrow> pos < e \<Longrightarrow> seen z e w pos = z ! pos # seen z e w (pos + w)"
  by (subst seen.simps) (simp add: inside_def)

lemma seen_Nil: "\<not> pos < e \<Longrightarrow> seen z e w pos = []"
  by (subst seen.simps) simp

lemma skip_loop_seen:
  "inside z e w pos \<Longrightarrow> \<exists>k. skip_loop P z e w pos = Some (pos + k * w) \<and> k = length (takeWhile P (seen z e w pos))
     \<and> seen z e w (pos + k * w) = dropWhile P (seen z e w pos)"
proof (induction P z e w pos rule: skip_loop.induct)
  case (1 P z e w pos)
  show ?case
  proof (cases "pos < e \<and> P (z ! pos)")
    case True
    have w: "w \<noteq> 0" using 1(2) by (simp add: inside_def)
    have at: "byte_at z pos = Some (z ! pos)" using inside_here [OF 1(2)] True by simp
    from 1(1) [OF _ at _ w] True inside_step [OF 1(2)] obtain k where
      k: "skip_loop P z e w (pos + w) = Some (pos + w + k * w)" "k = length (takeWhile P (seen z e w (pos + w)))"
      "seen z e w (pos + w + k * w) = dropWhile P (seen z e w (pos + w))" by blast
    have "skip_loop P z e w pos = Some (pos + Suc k * w)"
      using True at w k(1) by (subst skip_loop.simps) (simp add: add.assoc)
    moreover have "seen z e w (pos + Suc k * w) = dropWhile P (seen z e w pos)"
      using k(3) True by (simp add: seen_Cons [OF 1(2)] add.assoc)
    moreover have "Suc k = length (takeWhile P (seen z e w pos))"
      using k(2) True by (simp add: seen_Cons [OF 1(2)])
    ultimately show ?thesis by blast
  next
    case False
    then show ?thesis
      using inside_here [OF 1(2)] seen_Cons [OF 1(2)] seen_Nil [of pos e z w]
      by (subst skip_loop.simps) (cases "pos < e"; simp)
  qed
qed

definition is_digit :: "u8 \<Rightarrow> bool" where
  "is_digit c \<longleftrightarrow> 48 \<le> c \<and> c \<le> 57"

definition dval :: "nat \<Rightarrow> bytes \<Rightarrow> nat" where
  "dval = foldl (\<lambda>v c. v * 10 + (unat c - 48))"

lemma digit_loop_seen:
  "inside z e w (pos + i) \<Longrightarrow> \<exists>k. digit_loop z e w pos i u =
       Some (i + k * w, foldl (\<lambda>u c. u * 10 + ucast c - 48) u (takeWhile is_digit (seen z e w (pos + i))))
     \<and> k = length (takeWhile is_digit (seen z e w (pos + i)))
     \<and> seen z e w (pos + i + k * w) = dropWhile is_digit (seen z e w (pos + i))"
proof (induction z e w pos i u rule: digit_loop.induct)
  case (1 z e w pos i u)
  show ?case
  proof (cases "pos + i < e \<and> is_digit (z ! (pos + i))")
    case True
    have w: "w \<noteq> 0" using 1(2) by (simp add: inside_def)
    have at: "byte_at z (pos + i) = Some (z ! (pos + i))" using inside_here [OF 1(2)] True by simp
    have d: "48 \<le> z ! (pos + i) \<and> z ! (pos + i) \<le> 57" using True by (simp add: is_digit_def)
    let ?u = "u * 10 + ucast (z ! (pos + i)) - 48"
    from 1(1) [OF _ at d w] True inside_step [OF 1(2)] obtain k where
      k: "digit_loop z e w pos (i + w) ?u =
            Some (i + w + k * w, foldl (\<lambda>u c. u * 10 + ucast c - 48) ?u (takeWhile is_digit (seen z e w (pos + (i + w)))))"
      "k = length (takeWhile is_digit (seen z e w (pos + (i + w))))"
      "seen z e w (pos + (i + w) + k * w) = dropWhile is_digit (seen z e w (pos + (i + w)))"
      by (auto simp: add.assoc)
    have c: "seen z e w (pos + i) = z ! (pos + i) # seen z e w (pos + (i + w))"
      using seen_Cons [OF 1(2)] True by (simp add: add.assoc)
    show ?thesis
      using True at w d k by (intro exI [of _ "Suc k"], subst digit_loop.simps) (simp add: c add.assoc)
  next
    case False
    have w: "0 < w" using 1(2) by (simp add: inside_def)
    show ?thesis
      using False w inside_here [OF 1(2)] seen_Cons [OF 1(2)] seen_Nil [of "pos + i" e z w]
      by (subst digit_loop.simps) (cases "pos + i < e"; auto simp: is_digit_def)
  qed
qed

lemma tail_loop_seen:
  "inside z e w jj \<Longrightarrow> jj < e \<Longrightarrow> tail_loop z e w jj = Some (if list_all sqlite3Isspace (seen z e w jj) then 0 else 1)"
proof (induction z e w jj rule: tail_loop.induct)
  case (1 z e w jj)
  have w: "w \<noteq> 0" using 1(2) by (simp add: inside_def)
  have at: "byte_at z jj = Some (z ! jj)" using inside_here [OF 1(2,3)] .
  show ?case
  proof (cases "sqlite3Isspace (z ! jj) \<and> jj + w < e")
    case True
    then show ?thesis
      using 1(1) [OF at _ _ w inside_step [OF 1(2)]] at w seen_Cons [OF 1(2,3)] by (subst tail_loop.simps) auto
  next
    case False
    then show ?thesis using at seen_Cons [OF 1(2,3)] seen_Nil [of "jj + w" e z w] by (subst tail_loop.simps) auto
  qed
qed

section \<open>Values of digit strings\<close>

lemma is_digit_nat: "is_digit c \<longleftrightarrow> 48 \<le> unat c \<and> unat c \<le> 57"
  by (simp add: is_digit_def word_le_nat_alt)

lemma word_digit: "is_digit c \<Longrightarrow> word_of_nat n * 10 + ucast c - 48 = (word_of_nat (n * 10 + (unat c - 48)) :: u64)"
proof -
  assume "is_digit c"
  then have "unat c = 48 + (unat c - 48)" by (simp add: is_digit_nat)
  moreover have "(ucast c :: u64) = word_of_nat (unat c)" by simp
  ultimately have "(ucast c :: u64) = 48 + word_of_nat (unat c - 48)" by (metis of_nat_add of_nat_numeral)
  then show ?thesis by simp
qed

lemma word_dval:
  "list_all is_digit ds \<Longrightarrow> foldl (\<lambda>u c. u * 10 + ucast c - 48) (word_of_nat n) ds = (word_of_nat (dval n ds) :: u64)"
  by (induction ds arbitrary: n) (simp_all add: dval_def word_digit del: of_nat_add of_nat_mult)

lemma dval_Cons [simp]: "dval n (c # ds) = dval (n * 10 + (unat c - 48)) ds" and dval_Nil [simp]: "dval n [] = n"
  and dval_append: "dval n (ds @ es) = dval (dval n ds) es"
  by (simp_all add: dval_def)

lemma dval_split: "dval n ds = n * 10 ^ length ds + dval 0 ds"
proof (induction ds arbitrary: n)
  case (Cons c ds)
  show ?case using Cons.IH [of "n * 10 + (unat c - 48)"] Cons.IH [of "unat c - 48"] by (simp add: algebra_simps)
qed simp

lemma dval_less: "list_all is_digit ds \<Longrightarrow> dval 0 ds < 10 ^ length ds"
proof (induction ds)
  case (Cons c ds)
  then have "unat c - 48 \<le> 9" by (simp add: is_digit_nat) linarith
  then have le: "(unat c - 48) * 10 ^ length ds \<le> 9 * 10 ^ length ds" by (rule mult_le_mono1)
  have "dval 0 (c # ds) = (unat c - 48) * 10 ^ length ds + dval 0 ds" using dval_split [of "unat c - 48" ds] by simp
  moreover have "dval 0 ds < 10 ^ length ds" using Cons by simp
  ultimately show ?case unfolding length_Cons power_Suc using le by linarith
qed simp

lemma dval_lower: "list_all is_digit ds \<Longrightarrow> ds \<noteq> [] \<Longrightarrow> hd ds \<noteq> 48 \<Longrightarrow> 10 ^ (length ds - 1) \<le> dval 0 ds"
proof (cases ds)
  case (Cons c es)
  assume "list_all is_digit ds" "hd ds \<noteq> 48"
  then have "1 \<le> unat c - 48" using Cons by (auto simp: is_digit_nat word_unat_eq_iff)
  then have "1 * 10 ^ length es \<le> (unat c - 48) * 10 ^ length es" by (rule mult_le_mono1)
  moreover have "dval 0 ds = (unat c - 48) * 10 ^ length es + dval 0 es" using dval_split [of "unat c - 48" es] Cons by simp
  ultimately have "10 ^ length es \<le> dval 0 ds" by linarith
  then show ?thesis using Cons by simp
qed simp

section \<open>The comparison with two to the power 63\<close>

text \<open>The loop on the characters seen.\<close>

fun cmp_digits :: "bytes \<Rightarrow> bytes \<Rightarrow> int" where
  "cmp_digits (p # ps) (d # ds) = (if d = p then cmp_digits ps ds else (uint d - uint p) * 10)"
| "cmp_digits _ _ = 0"

lemma seen_nth: "inside z e w pos \<Longrightarrow> k < length (seen z e w pos) \<Longrightarrow> pos + k * w < e \<and> seen z e w pos ! k = z ! (pos + k * w)"
proof (induction k arbitrary: pos)
  case 0
  then have "pos < e" using seen_Nil [of pos e z w] by (cases "pos < e") auto
  then show ?case using seen_Cons [OF 0(1)] by simp
next
  case (Suc k)
  then have "pos < e" using seen_Nil [of pos e z w] by (cases "pos < e") auto
  then have s: "seen z e w pos = z ! pos # seen z e w (pos + w)" using seen_Cons [OF Suc(2)] by simp
  then show ?case using Suc.IH [OF inside_step [OF Suc(2)]] Suc(3) by (simp add: add.assoc)
qed

lemma byte_at_seen:
  assumes "inside z e w pos" and "k < length (seen z e w pos)"
  shows "byte_at (drop pos z) (k * w) = Some (seen z e w pos ! k)"
proof -
  have "pos + k * w < e" "seen z e w pos ! k = z ! (pos + k * w)" using seen_nth [OF assms] by simp_all
  moreover from this(1) have "pos + k * w < length z" using assms(1) by (simp add: inside_def)
  ultimately show ?thesis by (simp add: byte_at_def less_diff_conv add.commute)
qed

lemma pow63_loop_seen:
  "inside z e w pos \<Longrightarrow> i + length ps \<le> length (seen z e w pos) \<Longrightarrow>
     pow63_loop ps (drop pos z) w i = Some (cmp_digits ps (drop i (seen z e w pos)))"
proof (induction ps arbitrary: i)
  case (Cons p ps)
  have i: "i < length (seen z e w pos)" using Cons.prems(2) by simp
  have "drop i (seen z e w pos) = seen z e w pos ! i # drop (Suc i) (seen z e w pos)"
    using i by (simp add: Cons_nth_drop_Suc)
  then show ?case
    using byte_at_seen [OF Cons.prems(1) i] Cons.IH [of "Suc i"] Cons.prems by (simp add: word_uint_eq_iff)
qed (simp add: Cons_nth_drop_Suc)

lemma cmp_digits_dval:
  "list_all is_digit ps \<Longrightarrow> list_all is_digit ds \<Longrightarrow> length ds = length ps \<Longrightarrow>
     (cmp_digits ps ds = 0 \<longleftrightarrow> dval 0 ds = dval 0 ps) \<and> (cmp_digits ps ds < 0 \<longleftrightarrow> dval 0 ds < dval 0 ps)"
proof (induction ps ds rule: cmp_digits.induct)
  case (1 p ps d ds)
  define x y where "x = unat d - 48" and "y = unat p - 48"
  have len: "length ds = length ps" using 1(4) by simp
  have ds: "dval 0 ds < 10 ^ length ps" "dval 0 ps < 10 ^ length ps" using dval_less [of ds] dval_less [of ps] 1 by simp_all
  have v: "dval 0 (d # ds) = x * 10 ^ length ps + dval 0 ds" "dval 0 (p # ps) = y * 10 ^ length ps + dval 0 ps"
    using dval_split [of x ds] dval_split [of y ps] len by (simp_all add: x_def y_def)
  have "unat d = 48 + x" "unat p = 48 + y" using 1(2,3) by (simp_all add: is_digit_nat x_def y_def)
  then have u: "uint d = 48 + int x" "uint p = 48 + int y" by (simp_all only: uint_nat of_nat_add of_nat_numeral)
  have lt: "a * 10 ^ length ps + r < b * 10 ^ length ps + t" if "a < b" "r < 10 ^ length ps" for a b r t :: nat
  proof -
    have "Suc a * 10 ^ length ps \<le> b * 10 ^ length ps" using that(1) by (intro mult_le_mono1) simp
    then show ?thesis using that(2) by simp
  qed
  show ?case
  proof (cases "d = p")
    case True
    then have "x = y" by (simp add: x_def y_def)
    with True 1 len show ?thesis unfolding v by simp
  next
    case False
    then have "x \<noteq> y" using u by (auto simp: word_uint_eq_iff)
    then have "x < y \<or> y < x" by linarith
    then show ?thesis
      unfolding v using False lt [of x y "dval 0 ds" "dval 0 ps"] lt [of y x "dval 0 ps" "dval 0 ds"] ds u by auto
  qed
qed auto

lemma compare2pow63_seen:
  assumes "inside z e w pos" and "list_all is_digit ds" and "length ds = 19" and "take 19 (seen z e w pos) = ds"
  shows "\<exists>c. compare2pow63 (drop pos z) w = Some c \<and> (c = 0 \<longleftrightarrow> dval 0 ds = 2 ^ 63) \<and> (c < 0 \<longleftrightarrow> dval 0 ds < 2 ^ 63)"
proof -
  define s where "s = seen z e w pos"
  have len: "19 \<le> length s" using assms(3,4) by (auto simp: s_def)
  define hs where "hs = take 18 s"
  have ds: "ds = hs @ [s ! 18]" using assms(4) len by (simp add: hs_def s_def [symmetric] take_Suc_conv_app_nth [of 18, simplified])
  have "cmp_digits ps (hs @ r) = cmp_digits ps hs" if "length ps = length hs" for ps r
    using that by (induction ps hs rule: list_induct2) auto
  moreover have "s = hs @ drop 18 s" by (simp add: hs_def)
  moreover have l: "length pow63 = length hs" using len by (simp add: hs_def pow63_def)
  ultimately have cmp: "cmp_digits pow63 s = cmp_digits pow63 hs" by metis
  have loop: "pow63_loop pow63 (drop pos z) w 0 = Some (cmp_digits pow63 hs)"
    using pow63_loop_seen [OF assms(1), of 0 pow63] len l cmp by (simp add: s_def hs_def)
  have last: "byte_at (drop pos z) (18 * w) = Some (s ! 18)" using byte_at_seen [OF assms(1), of 18] len by (simp add: s_def)
  have dig: "list_all is_digit hs" "is_digit (s ! 18)" using assms(2) by (simp_all add: ds)
  have p: "list_all is_digit pow63" "dval 0 pow63 = 922337203685477580"
    by (simp_all add: pow63_def is_digit_nat)
  note c = cmp_digits_dval [OF p(1) dig(1) l [symmetric], unfolded p(2)]
  define x where "x = unat (s ! 18) - 48"
  have v: "dval 0 ds = dval 0 hs * 10 + x" by (simp add: ds dval_append x_def)
  have ux: "unat (s ! 18) = 48 + x" "x \<le> 9" using dig(2) by (auto simp: is_digit_nat x_def)
  then have u: "uint (s ! 18) = 48 + int x" by (simp only: uint_nat of_nat_add of_nat_numeral)
  show ?thesis
  proof (cases "cmp_digits pow63 hs = 0")
    case True
    then have h: "dval 0 hs = 922337203685477580" using c by simp
    show ?thesis
      using True loop last ux(2) unfolding v h by (auto simp: compare2pow63_def u)
  next
    case False
    then have "dval 0 hs < 922337203685477580 \<or> 922337203685477580 < dval 0 hs" using c by linarith
    then show ?thesis
      using False loop c ux(2) unfolding v by (auto simp: compare2pow63_def)
  qed
qed

section \<open>The conversion on the characters seen\<close>

text \<open>
  A text as spaces, a sign, digits and a rest, each as long as it can be.
\<close>

definition parts :: "bytes \<Rightarrow> bytes \<Rightarrow> bytes \<Rightarrow> bytes \<Rightarrow> bool" where
  "parts sp sg ds rest \<longleftrightarrow> list_all sqlite3Isspace sp \<and> sg \<in> {[], [43], [45]} \<and> list_all is_digit ds
     \<and> (rest = [] \<or> \<not> is_digit (hd rest))
     \<and> (sg = [] \<and> ds = [] \<longrightarrow> rest = [] \<or> \<not> sqlite3Isspace (hd rest) \<and> hd rest \<notin> {43, 45})"

text \<open>The result and the value for a sign, the number the digits stand for, and the code for what follows them.\<close>

definition atoi64_result :: "bool \<Rightarrow> nat \<Rightarrow> int \<Rightarrow> int \<times> int" where
  "atoi64_result neg v rc =
     (if neg then (if v \<le> 2 ^ 63 then (rc, - int v) else (2, SMALLEST_INT64))
      else if v < 2 ^ 63 then (rc, int v) else (if v = 2 ^ 63 then 3 else 2, LARGEST_INT64))"

lemma not_space: "is_digit c \<Longrightarrow> \<not> sqlite3Isspace c" "\<not> sqlite3Isspace 43" "\<not> sqlite3Isspace 45"
  by (auto simp: Isspace_iff is_digit_nat)

lemma skip_to:
  assumes "inside z e w pos" and "seen z e w pos = xs @ ys" and "list_all P xs" and "ys = [] \<or> \<not> P (hd ys)"
  shows "skip_loop P z e w pos = Some (pos + length xs * w)" and "seen z e w (pos + length xs * w) = ys"
proof -
  have "takeWhile P (xs @ ys) = xs" "dropWhile P (xs @ ys) = ys"
    using assms(3,4) by (cases ys; auto simp: list_all_iff takeWhile_append dropWhile_append)+
  with skip_loop_seen [OF assms(1), of P] assms(2)
  show "skip_loop P z e w pos = Some (pos + length xs * w)" "seen z e w (pos + length xs * w) = ys" by auto
qed

lemma digits_to:
  assumes "inside z e w pos" and "seen z e w pos = xs @ ys" and "list_all is_digit xs" and "ys = [] \<or> \<not> is_digit (hd ys)"
  shows "digit_loop z e w pos 0 0 = Some (length xs * w, word_of_nat (dval 0 xs))" and "seen z e w (pos + length xs * w) = ys"
proof -
  have "takeWhile is_digit (xs @ ys) = xs" "dropWhile is_digit (xs @ ys) = ys"
    using assms(3,4) by (cases ys; auto simp: list_all_iff takeWhile_append dropWhile_append)+
  with digit_loop_seen [of z e w pos 0 0] assms word_dval [OF assms(3), of 0]
  show "digit_loop z e w pos 0 0 = Some (length xs * w, word_of_nat (dval 0 xs))" "seen z e w (pos + length xs * w) = ys" by auto
qed

lemma sign_to:
  assumes "inside z e w pos" and "seen z e w pos = sg @ ys" and "sg \<in> {[], [43], [45]}"
    and "sg = [] \<Longrightarrow> ys = [] \<or> hd ys \<notin> {43, 45}"
  shows "read_sign z e w pos = Some (sg = [45], pos + length sg * w)" and "seen z e w (pos + length sg * w) = ys"
proof -
  have "pos < e \<longleftrightarrow> sg @ ys \<noteq> []" using assms(2) seen_Nil [of pos e z w] seen_Cons [OF assms(1)] by (cases "pos < e") auto
  moreover have "seen z e w pos = z ! pos # seen z e w (pos + w)" "byte_at z pos = Some (z ! pos)" if "pos < e"
    using seen_Cons [OF assms(1) that] inside_here [OF assms(1) that] .
  ultimately show "read_sign z e w pos = Some (sg = [45], pos + length sg * w)" "seen z e w (pos + length sg * w) = ys"
    using assms(2-4) by (auto simp: read_sign_def)
qed

lemma leading_zeros:
  obtains zs es where "ds = zs @ es" "list_all (\<lambda>c. c = 48) zs" "es = [] \<or> hd es \<noteq> 48"
  using that [of "takeWhile (\<lambda>c. c = 48) ds" "dropWhile (\<lambda>c. c = 48) ds"] hd_dropWhile [of "\<lambda>c. c = 48" ds]
  by (auto simp: list_all_iff dest: set_takeWhileD)

lemma dval_zeros: "list_all (\<lambda>c. c = 48) zs \<Longrightarrow> dval 0 (zs @ es) = dval 0 es"
  by (induction zs) auto

text \<open>The decision at the end of the function, for the digits without leading zeros.\<close>

lemma atoi64_decide:
  fixes neg :: bool and rc :: int
  assumes "inside z e w pos" and "seen z e w pos = es @ rest" and "list_all is_digit es" and "es = [] \<or> hd es \<noteq> 48"
  defines "v \<equiv> dval 0 es" and "limit \<equiv> if neg then SMALLEST_INT64 else LARGEST_INT64"
  defines "u \<equiv> word_of_nat (dval 0 es) :: u64"
  defines "val \<equiv> if uint u > LARGEST_INT64 then limit else if neg then - uint u else uint u"
  shows "(if length es * w < 19 * w then Some (rc, val)
     else (if length es * w > 19 * w then Some 1 else compare2pow63 (drop pos z) w) \<bind>
       (\<lambda>c. if c < 0 then Some (rc, val) else if c > 0 then Some (2, limit) else Some (if neg then rc else 3, limit)))
   = Some (atoi64_result neg v rc)"
proof -
  have w: "0 < w" using assms(1) by (simp add: inside_def)
  have small: "(rc, val) = atoi64_result neg v rc" if "v < 2 ^ 63"
  proof -
    have "uint u = int v"
      unfolding u_def v_def [symmetric] using that by (simp add: unsigned_of_nat take_bit_nat_eq_self)
    then show ?thesis using that by (simp add: val_def atoi64_result_def)
  qed
  consider "length es < 19" | "length es > 19" | "length es = 19" by linarith
  then show ?thesis
  proof cases
    case 1
    have "v < 10 ^ length es" using dval_less [OF assms(3)] by (simp add: v_def)
    also have "(10 :: nat) ^ length es \<le> 10 ^ 18" using 1 by (intro power_increasing) auto
    finally have "v < 2 ^ 63" by simp
    then show ?thesis using small 1 w by simp
  next
    case 2
    then have "es \<noteq> []" by auto
    then have "10 ^ (length es - 1) \<le> v" using dval_lower [OF assms(3)] assms(4) by (simp add: v_def)
    moreover have "(10 :: nat) ^ 19 \<le> 10 ^ (length es - 1)" using 2 by (intro power_increasing) auto
    ultimately have "2 ^ 63 < v" by simp
    then have "atoi64_result neg v rc = (2, limit)" by (simp add: atoi64_result_def limit_def)
    then show ?thesis using 2 w by simp
  next
    case 3
    then obtain c where c: "compare2pow63 (drop pos z) w = Some c" "c = 0 \<longleftrightarrow> v = 2 ^ 63" "c < 0 \<longleftrightarrow> v < 2 ^ 63"
      using compare2pow63_seen [OF assms(1,3)] assms(2) by (auto simp: v_def)
    consider "v < 2 ^ 63" | "v = 2 ^ 63" | "2 ^ 63 < v" by linarith
    then show ?thesis
    proof cases
      case 1
      then show ?thesis using small c 3 by simp
    next
      case 2
      then show ?thesis using c 3 by (simp add: atoi64_result_def limit_def)
    next
      case v: 3
      then have "c > 0" using c(2,3) by linarith
      then show ?thesis using v c(1) 3 by (simp add: atoi64_result_def limit_def)
    qed
  qed
qed

lemma atoi64_body_seen:
  assumes "inside z e w pos" and "seen z e w pos = sp @ sg @ ds @ rest" and "parts sp sg ds rest"
  shows "atoi64_body z e w pos nonNum =
    Some (if ds = [] then (- 1, 0)
          else atoi64_result (sg = [45]) (dval 0 ds) (if nonNum \<or> \<not> list_all sqlite3Isspace rest then 1 else 0))"
proof -
  obtain zs es where z: "ds = zs @ es" "list_all (\<lambda>c. c = 48) zs" "es = [] \<or> hd es \<noteq> 48" by (rule leading_zeros)
  have p: "list_all sqlite3Isspace sp" "sg \<in> {[], [43], [45]}" "list_all is_digit ds" "rest = [] \<or> \<not> is_digit (hd rest)"
    "sg = [] \<and> ds = [] \<longrightarrow> rest = [] \<or> \<not> sqlite3Isspace (hd rest) \<and> hd rest \<notin> {43, 45}"
    using assms(3) by (auto simp: parts_def)
  define p1 p2 p3 where "p1 = pos + length sp * w" and "p2 = p1 + length sg * w" and "p3 = p2 + length zs * w"
  have i: "inside z e w p1" "inside z e w p2" "inside z e w p3" "inside z e w (p3 + length es * w)"
    by (simp_all add: p1_def p2_def p3_def inside_next assms(1))
  have h1: "sg @ ds @ rest = [] \<or> \<not> sqlite3Isspace (hd (sg @ ds @ rest))"
    using p not_space by (cases ds) auto
  note s1 = skip_to [OF assms(1,2) p(1) h1, folded p1_def]
  have h2: "ds @ rest = [] \<or> hd (ds @ rest) \<notin> {43, 45}" if "sg = []"
    using p that by (cases ds) (auto simp: is_digit_nat)
  note s2 = sign_to [OF i(1) s1(2) p(2) h2, folded p2_def]
  have h3: "es @ rest = [] \<or> \<not> hd (es @ rest) = 48"
    using z(3) p(4) by (cases es) (auto simp: is_digit_nat)
  have d2: "seen z e w p2 = zs @ es @ rest" using s2(2) z(1) by simp
  note s3 = skip_to [OF i(2) d2 z(2) h3, folded p3_def]
  have de: "list_all is_digit es" using p(3) z(1) by simp
  note s4 = digits_to [OF i(3) s3(2) de p(4)]
  have e: "p3 + length es * w < e \<longleftrightarrow> rest \<noteq> []"
    using s4(2) seen_Nil [of "p3 + length es * w" e z w] seen_Cons [OF i(4)] by (cases "p3 + length es * w < e") auto
  have none: "length es * w = 0 \<and> p2 = p3 \<longleftrightarrow> ds = []" using i(1) z(1) by (auto simp: p3_def inside_def)
  have rc: "(if length es * w = 0 \<and> p2 = p3 then Some (- 1)
        else if nonNum then Some 1
        else if p3 + length es * w < e then tail_loop z e w (p3 + length es * w) else Some 0)
      = Some (if ds = [] then - 1 else if nonNum \<or> \<not> list_all sqlite3Isspace rest then 1 else 0)"
    using none e tail_loop_seen [OF i(4)] s4(2) by auto
  note dec = atoi64_decide [OF i(3) s3(2) de z(3), where neg = "sg = [45]"]
  have v: "dval 0 ds = dval 0 es" using dval_zeros [OF z(2)] z(1) by simp
  have "atoi64_body z e w pos nonNum =
    Some (atoi64_result (sg = [45]) (dval 0 es) (if ds = [] then - 1 else if nonNum \<or> \<not> list_all sqlite3Isspace rest then 1 else 0))"
    unfolding atoi64_body_def using s1(1) s2(1) s3(1) s4(1) rc
    by (simp only: Option.bind.simps prod.case Let_def dec)
  then show ?thesis using v by (auto simp: atoi64_result_def)
qed

section \<open>Texts in the three encodings\<close>

definition units :: "u8 \<Rightarrow> bytes \<Rightarrow> bytes" where
  "units enc s = (if enc = 1 then s else if enc = 2 then concat (map (\<lambda>c. [c, 0]) s) else concat (map (\<lambda>c. [0, c]) s))"

text \<open>A text that starts with a unit whose high byte is not zero.\<close>

definition wide :: "u8 \<Rightarrow> bytes \<Rightarrow> bool" where
  "wide enc x \<longleftrightarrow> 2 \<le> length x \<and> (if enc = 2 then x ! 1 \<noteq> 0 else x ! 0 \<noteq> 0)"

lemma seen_eqI:
  "0 < w \<Longrightarrow> (\<forall>k. pos + k * w < e \<longleftrightarrow> k < length s) \<Longrightarrow> (\<forall>k < length s. z ! (pos + k * w) = s ! k) \<Longrightarrow> seen z e w pos = s"
proof (induction s arbitrary: pos)
  case Nil
  from Nil(2) [rule_format, of 0] show ?case by (simp add: seen_Nil)
next
  case (Cons c s)
  have "seen z e w (pos + w) = s"
  proof (rule Cons.IH)
    show "\<forall>k. pos + w + k * w < e \<longleftrightarrow> k < length s"
      using Cons.prems(2) by (metis Suc_less_eq add.assoc length_Cons mult_Suc)
    show "\<forall>k < length s. z ! (pos + w + k * w) = s ! k"
      using Cons.prems(3) by (metis Suc_less_eq add.assoc length_Cons mult_Suc nth_Cons_Suc)
  qed (rule Cons.prems(1))
  moreover have "pos < e" "z ! pos = c" using Cons.prems(2) [rule_format, of 0] Cons.prems(3) [rule_format, of 0] by simp_all
  ultimately show ?case using Cons.prems(1) by (subst seen.simps) simp
qed

lemma units_16:
  "length (concat (map (\<lambda>c. [c, 0]) s)) = 2 * length s" "length (concat (map (\<lambda>c. [0, c]) s)) = 2 * length s"
  "i < length s \<Longrightarrow> concat (map (\<lambda>c. [c, 0]) s) ! (2 * i) = s ! i" "i < length s \<Longrightarrow> concat (map (\<lambda>c. [c, 0]) s) ! (2 * i + 1) = (0 :: u8)"
  "i < length s \<Longrightarrow> concat (map (\<lambda>c. [0, c]) s) ! (2 * i) = (0 :: u8)" "i < length s \<Longrightarrow> concat (map (\<lambda>c. [0, c]) s) ! (2 * i + 1) = s ! i"
proof -
  show "length (concat (map (\<lambda>c. [c, 0]) s)) = 2 * length s" "length (concat (map (\<lambda>c. [0, c]) s)) = 2 * length s"
    by (induction s) simp_all
  show "i < length s \<Longrightarrow> concat (map (\<lambda>c. [c, 0]) s) ! (2 * i) = s ! i" "i < length s \<Longrightarrow> concat (map (\<lambda>c. [c, 0]) s) ! (2 * i + 1) = (0 :: u8)"
    "i < length s \<Longrightarrow> concat (map (\<lambda>c. [0, c]) s) ! (2 * i) = (0 :: u8)" "i < length s \<Longrightarrow> concat (map (\<lambda>c. [0, c]) s) ! (2 * i + 1) = s ! i"
    by (induction s arbitrary: i; case_tac i; simp)+
qed

lemma high_loop_stop:
  assumes "\<And>k. k < n \<Longrightarrow> a + 2 * k < len \<and> a + 2 * k < length z \<and> z ! (a + 2 * k) = 0"
    and "a + 2 * n < len \<Longrightarrow> a + 2 * n < length z \<and> z ! (a + 2 * n) \<noteq> 0"
  shows "j \<le> n \<Longrightarrow> high_loop z len (a + 2 * (n - j)) = Some (a + 2 * n)"
proof (induction j)
  case 0
  then show ?case using assms(2) by (subst high_loop.simps) (auto simp: byte_at_def)
next
  case (Suc j)
  then have k: "n - Suc j < n" "n - j = Suc (n - Suc j)" by auto
  have "high_loop z len (a + 2 * (n - Suc j)) = high_loop z len (a + 2 * (n - Suc j) + 2)"
    using assms(1) [OF k(1)] by (subst high_loop.simps) (simp add: byte_at_def)
  also have "a + 2 * (n - Suc j) + 2 = a + 2 * (n - j)" unfolding k(2) by simp
  finally show ?case using Suc by simp
qed

lemma xor_1_nat: "(2 * n + 1) XOR 1 = (2 * n :: nat)" "(2 * n) XOR 1 = (2 * n + 1 :: nat)"
  by (simp_all add: xor_Suc_0_eq)

lemma even_len: "nat (int (2 * a + b) AND NOT 1) = 2 * a + (b - b mod 2)"
proof -
  have "nat (int m AND NOT 1) = m - m mod 2" for m
    unfolding and_not_1 by (simp only: zmod_int [of m 2, simplified, symmetric] of_nat_diff [OF mod_less_eq_dividend, symmetric] nat_int)
  moreover have "2 * a + b - (2 * a + b) mod 2 = 2 * a + (b - b mod 2)" by presburger
  ultimately show ?thesis by metis
qed

lemma Atoi64_UTF8: "sqlite3Atoi64 (units 1 s @ y) (int (length (units 1 s))) 1 = atoi64_body (units 1 s @ y) (length s) 1 0 False"
  by (simp add: sqlite3Atoi64_def units_def)

lemma Atoi64_LE:
  assumes "x = [] \<or> wide 2 x"
  shows "sqlite3Atoi64 (units 2 s @ x @ y) (int (length (units 2 s @ x))) 2 = atoi64_body (units 2 s @ x @ y) (2 * length s) 2 0 (x \<noteq> [])"
proof -
  define z where "z = units 2 s @ x @ y"
  define len where "len = 2 * length s + (length x - length x mod 2)"
  have l: "length (units 2 s) = 2 * length s" using units_16(1) [of s] by (simp add: units_def)
  have n: "nat (int (length (units 2 s @ x)) AND NOT 1) = len"
    unfolding length_append l len_def by (rule even_len)
  have "high_loop z len (1 + 2 * (length s - length s)) = Some (1 + 2 * length s)"
  proof (rule high_loop_stop)
    fix k assume "k < length s"
    then show "1 + 2 * k < len \<and> 1 + 2 * k < length z \<and> z ! (1 + 2 * k) = 0"
      using units_16(4) [of k s] l by (simp add: z_def len_def nth_append units_def)
  next
    assume "1 + 2 * length s < len"
    then show "1 + 2 * length s < length z \<and> z ! (1 + 2 * length s) \<noteq> 0"
      using assms l by (auto simp: z_def len_def nth_append wide_def)
  qed simp
  moreover have "1 + 2 * length s < len \<longleftrightarrow> x \<noteq> []"
  proof -
    have "2 \<le> length x - length x mod 2" if "2 \<le> length x" using that by presburger
    then show ?thesis using assms by (auto simp: len_def wide_def)
  qed
  ultimately show ?thesis
    unfolding sqlite3Atoi64_def n Let_def z_def [symmetric] using xor_1_nat(1) [of "length s"] by simp
qed

lemma Atoi64_BE:
  assumes "x = [] \<or> wide 3 x"
  shows "sqlite3Atoi64 (units 3 s @ x @ y) (int (length (units 3 s @ x))) 3 = atoi64_body (units 3 s @ x @ y) (2 * length s + 1) 2 1 (x \<noteq> [])"
proof -
  define z where "z = units 3 s @ x @ y"
  define len where "len = 2 * length s + (length x - length x mod 2)"
  have l: "length (units 3 s) = 2 * length s" using units_16(2) [of s] by (simp add: units_def)
  have n: "nat (int (length (units 3 s @ x)) AND NOT 1) = len"
    unfolding length_append l len_def by (rule even_len)
  have "high_loop z len (0 + 2 * (length s - length s)) = Some (0 + 2 * length s)"
  proof (rule high_loop_stop)
    fix k assume "k < length s"
    then show "0 + 2 * k < len \<and> 0 + 2 * k < length z \<and> z ! (0 + 2 * k) = 0"
      using units_16(5) [of k s] l by (simp add: z_def len_def nth_append units_def)
  next
    assume "0 + 2 * length s < len"
    then show "0 + 2 * length s < length z \<and> z ! (0 + 2 * length s) \<noteq> 0"
      using assms l by (auto simp: z_def len_def nth_append wide_def)
  qed simp
  moreover have "2 * length s < len \<longleftrightarrow> x \<noteq> []"
  proof -
    have "2 \<le> length x - length x mod 2" if "2 \<le> length x" using that by presburger
    then show ?thesis using assms by (auto simp: len_def wide_def)
  qed
  ultimately show ?thesis
    unfolding sqlite3Atoi64_def n Let_def z_def [symmetric] using xor_1_nat(2) [of "length s"] by simp
qed

text \<open>The characters of a text in its three encodings, as the loops see them.\<close>

lemma seen_units:
  "inside (units 1 s @ r) (length s) 1 0 \<and> seen (units 1 s @ r) (length s) 1 0 = s"
  "inside (units 2 s @ r) (2 * length s) 2 0 \<and> seen (units 2 s @ r) (2 * length s) 2 0 = s"
  "inside (units 3 s @ r) (2 * length s + 1) 2 1 \<and> seen (units 3 s @ r) (2 * length s + 1) 2 1 = s"
proof -
  show "inside (units 1 s @ r) (length s) 1 0 \<and> seen (units 1 s @ r) (length s) 1 0 = s"
    by (auto simp: inside_def units_def nth_append intro!: seen_eqI)
  show "inside (units 2 s @ r) (2 * length s) 2 0 \<and> seen (units 2 s @ r) (2 * length s) 2 0 = s"
    using units_16(1,3) [where s = s] by (auto simp: inside_def units_def nth_append mult.commute intro!: seen_eqI)
  show "inside (units 3 s @ r) (2 * length s + 1) 2 1 \<and> seen (units 3 s @ r) (2 * length s + 1) 2 1 = s"
    using units_16(2,6) [where s = s] by (auto simp: inside_def units_def nth_append mult.commute intro!: seen_eqI)
qed

text \<open>
  C40.  \<open>sqlite3Atoi64\<close> on a text of spaces, a sign, digits and a rest, in any of the three encodings, returns: -1 without
  digits; otherwise the number the digits stand for, limited to the range of a 64-bit integer, with the code 0 when only
  spaces follow, 1 when other text follows (in UTF-16 also a character above 255), 2 when the number is out of range, and 3 for
  \<open>2 ^ 63\<close> without a minus sign.  Its loops end and read nothing outside the text, whatever follows it in memory.
\<close>

theorem atoi64_value:
  assumes "parts sp sg ds rest" and "enc \<in> {1, 2, 3}" and "x = [] \<or> enc \<noteq> 1 \<and> wide enc x"
  shows "sqlite3Atoi64 (units enc (sp @ sg @ ds @ rest) @ x @ y) (int (length (units enc (sp @ sg @ ds @ rest) @ x))) enc =
    Some (if ds = [] then (- 1, 0)
          else atoi64_result (sg = [45]) (dval 0 ds) (if x \<noteq> [] \<or> \<not> list_all sqlite3Isspace rest then 1 else 0))"
proof -
  let ?s = "sp @ sg @ ds @ rest"
  consider "enc = 1" "x = []" | "enc = 2" "x = [] \<or> wide 2 x" | "enc = 3" "x = [] \<or> wide 3 x" using assms(2,3) by auto
  then show ?thesis
  proof cases
    case 1
    have "sqlite3Atoi64 (units 1 ?s @ x @ y) (int (length (units 1 ?s @ x))) 1 = atoi64_body (units 1 ?s @ x @ y) (length ?s) 1 0 (x \<noteq> [])"
      using 1(2) Atoi64_UTF8 [of ?s y] by simp
    then show ?thesis using 1 seen_units(1) [of ?s "x @ y"] atoi64_body_seen [OF _ _ assms(1)] by simp
  next
    case 2
    then show ?thesis using Atoi64_LE [OF 2(2), of ?s y] seen_units(2) [of ?s "x @ y"] atoi64_body_seen [OF _ _ assms(1)] by simp
  next
    case 3
    then show ?thesis using Atoi64_BE [OF 3(2), of ?s y] seen_units(3) [of ?s "x @ y"] atoi64_body_seen [OF _ _ assms(1)] by simp
  qed
qed

theorem atoi64_value_witness:
  "sqlite3Atoi64 [32, 45, 57, 50, 50, 51, 51, 55, 50, 48, 51, 54, 56, 53, 52, 55, 55, 53, 56, 48, 56, 32] 22 1 = Some (0, - (2 ^ 63))
   \<and> sqlite3Atoi64 [49, 0, 50, 0, 0xAC, 0x20] 6 2 = Some (1, 12)"
proof -
  have "parts [32] [45] [57, 50, 50, 51, 51, 55, 50, 48, 51, 54, 56, 53, 52, 55, 55, 53, 56, 48, 56] [32]"
    "parts [] [] [49, 50] []"
    by (simp_all add: parts_def is_digit_nat Isspace_iff)
  from atoi64_value [OF this(1), of 1 "[]" "[]"] atoi64_value [OF this(2), of 2 "[0xAC, 0x20]" "[]"] show ?thesis
    by (simp add: units_def wide_def atoi64_result_def Isspace_iff)
qed

end
