(* ===== verification/Spec2Isabelle.thy ===== *)
theory Spec2Isabelle
  imports Page_Properties Api_Properties Integrity_Properties Pragma_Properties Varint_Properties Bitvec_Properties
    Hashtab_Properties Rowset_Properties Memjournal_Properties Memcell_Safety Atoi64_Properties
begin

text \<open>
  Verification of the encrypted storage layer of Pizzini.

  \<^bold>\<open>The program.\<close>  The messenger keeps its chats in an SQLite database that SQLCipher encrypts page by page.  The C
  code is one file, \<^verbatim>\<open>src/swift/Sources/PizziniSQLCipher/pizzini_sqlcipher.c\<close>: the SQLite amalgamation with \<^verbatim>\<open>sqlcipher.c\<close>
  and the CommonCrypto provider \<^verbatim>\<open>crypto_cc.c\<close> in it, built for Apple platforms with
  \<^verbatim>\<open>SQLITE_HAS_CODEC\<close>, \<^verbatim>\<open>SQLCIPHER_CRYPTO_CC\<close> and \<^verbatim>\<open>NDEBUG\<close> (assertions are compiled out, so no theorem rests on one).
  The Swift code opens the database, calls \<open>sqlite3_key_v2\<close> with a raw key and a few pragmas, and
  otherwise talks SQL.  The development models the code between the key and the file: the codec, its
  contexts and settings, its connection and pragma interface, and the data structures of the engine below that have a
  specification of their own.

  \<^bold>\<open>How C is modelled.\<close>  A buffer is a list of bytes that is read and written only with bounds-checked
  operations (\<open>peek\<close>, \<open>poke\<close>); an operation returns an \<open>option\<close>, and \<open>None\<close> is what C leaves undefined: an access
  out of bounds or through a null pointer.  Structures are records, unsigned words keep their width, static
  variables and the allocator are fields of the record \<open>world\<close> (\<open>w_alloc_ok\<close> says which of the allocations to come
  succeed, \<open>w_freed\<close> records what freed blocks held).  Linked structures whose pointers are shared live in an
  explicit store.  Apple's CommonCrypto, the random source, the file system and the transaction routines of the
  b-tree are arguments, with what the code relies on as named hypotheses (\<open>commoncrypto_ok\<close>,
  \<open>file_vfs\<close>, \<open>msize_ok\<close>, \<open>alloc_ok\<close>), each met by a concrete instance in a witness.

  \<^bold>\<open>The theories\<close> (sources are parts of the amalgamation):

  \<^item> \<^verbatim>\<open>Prelude\<close>: words, buffers, result codes, early returns (\<open>on_ok\<close>).
  \<^item> \<^verbatim>\<open>Util\<close>, \<^verbatim>\<open>Numtext\<close>, \<^verbatim>\<open>Atoi64\<close>, \<^verbatim>\<open>Endian\<close> (\<^verbatim>\<open>util.c\<close>, \<^verbatim>\<open>global.c\<close>, \<^verbatim>\<open>pragma.c\<close>): character tables, comparison without regard to
    case, text to integers of 32 and 64 bits and booleans, 4-byte integers; the tables are checked against their meaning.
  \<^item> \<^verbatim>\<open>Cipher_Util\<close>, \<^verbatim>\<open>Codec_State\<close>, \<^verbatim>\<open>Crypto_Provider\<close> (\<^verbatim>\<open>sqlcipher.c\<close>, \<^verbatim>\<open>crypto_cc.c\<close>): hexadecimal conversion, wiping, constant-time
    comparison; structures, defaults, wiping allocator; the provider table and its registration, with
    the locale \<open>crypto_provider\<close> for what the codec needs of a provider, interpreted as \<open>cc\<close>.
  \<^item> \<^verbatim>\<open>Pager_State\<close> (\<^verbatim>\<open>pager.c\<close>, \<^verbatim>\<open>btree.c\<close>, \<^verbatim>\<open>os_unix.c\<close>): the fields and setters of pager and b-tree the codec touches.
  \<^item> \<^verbatim>\<open>Codec_Ctx\<close>, \<^verbatim>\<open>Key_Derive\<close>, \<^verbatim>\<open>Page_Cipher\<close> (\<^verbatim>\<open>sqlcipher.c\<close>): contexts and settings with the invariant \<open>codec_wf\<close>, key derivation,
    the page codec \<open>sqlite3Codec\<close>.  \<^verbatim>\<open>Sample_Crypto\<close> is the instance the witnesses compute with.
  \<^item> \<^verbatim>\<open>Codec_Api\<close>, \<^verbatim>\<open>Integrity\<close>, \<^verbatim>\<open>Codec_Log\<close>, \<^verbatim>\<open>Codec_Pragma\<close> (\<^verbatim>\<open>sqlcipher.c\<close>): keying, attaching and re-keying; the integrity check;
    log settings; every branch of \<open>sqlcipher_codec_pragma\<close>.
  \<^item> \<^verbatim>\<open>Varint\<close> (\<^verbatim>\<open>util.c\<close>), \<^verbatim>\<open>Bitvec\<close> (\<^verbatim>\<open>bitvec.c\<close>), \<^verbatim>\<open>Hashtab\<close> (\<^verbatim>\<open>hash.c\<close>), \<^verbatim>\<open>Rowset\<close> (\<^verbatim>\<open>rowset.c\<close>), \<^verbatim>\<open>Memjournal\<close> (\<^verbatim>\<open>memjournal.c\<close>): the integers of the
    file format, the sets of page numbers, the symbol tables, the sets of row numbers, and the rollback journal in memory.
  \<^item> \<^verbatim>\<open>Utf\<close> (\<^verbatim>\<open>utf.c\<close>), \<^verbatim>\<open>Memcell\<close> (\<^verbatim>\<open>vdbemem.c\<close>, \<^verbatim>\<open>utf.c\<close>): UTF-8 and UTF-16, and the cells that hold the strings and blobs of the virtual
    machine, with their own, borrowed and released memory told apart.

  \<^bold>\<open>What is shown\<close> (the theories named \<^verbatim>\<open>_Properties\<close>):

  \<^item> \<^verbatim>\<open>Page_Properties\<close>: a written page reads back; a page that was changed, or moved to another number, is refused and
    wiped; no input makes the codec leave its buffers.
  \<^item> \<^verbatim>\<open>Key_Properties\<close>: the derived keys are those of the specification, raw keys and key specifications are taken
    byte for byte, the passphrase is wiped.
  \<^item> \<^verbatim>\<open>Api_Properties\<close>: attaching establishes a well-formed codec or leaves none; re-keying visits every page once, and
    what an aborted re-key leaves behind (a defect).
  \<^item> \<^verbatim>\<open>Integrity_Properties\<close>: the check reports exactly the bad pages, below 4 GiB; above, its offset wraps (a defect).
  \<^item> \<^verbatim>\<open>Pragma_Properties\<close>: every pragma keeps the invariant, the compatibility and settings pragmas agree with what they
    say, the salt reads back; three defects.
  \<^item> \<^verbatim>\<open>Varint_Properties\<close>: the unrolled readers equal the reference decoder, round trip, lengths, saturation.
  \<^item> \<^verbatim>\<open>Bitvec_Properties\<close> (locale \<open>page_set\<close>, interpreted as \<open>bv\<close>), \<^verbatim>\<open>Hashtab_Properties\<close> (locale \<open>string_map\<close>, \<open>ht\<close>), \<^verbatim>\<open>Rowset_Properties\<close>
    (locale \<open>batched_set\<close>, \<open>rs\<close>), \<^verbatim>\<open>Memjournal_Properties\<close> (locale \<open>byte_file\<close>, \<open>mj\<close>): sequences of operations behave as on a set, a
    map with case-insensitive keys, a set tested in batches and a byte string; and what is left when an allocation fails.
    \<^verbatim>\<open>Hashtab_Shape\<close> holds the linked-list and bucket lemmas.
  \<^item> \<^verbatim>\<open>Utf_Properties\<close>, \<^verbatim>\<open>Memcell_Properties\<close>: reading a character inverts writing it; a translated cell holds the same characters, the
    output never exceeds its buffer, encodings round-trip, the counting routines agree with the text.
  \<^item> \<^verbatim>\<open>Memcell_Invariant\<close>, \<^verbatim>\<open>Memcell_Safety\<close> (locale \<open>owner_machine\<close>, interpreted as \<open>mc\<close>): every sequence of operations keeps a cell well
    formed, stays inside its memory and calls each destructor exactly once.
  \<^item> \<^verbatim>\<open>Atoi64_Properties\<close>: \<open>sqlite3Atoi64\<close> gives the number, saturated, and its code, in all three encodings.

  \<^bold>\<open>Fuel and bounds.\<close>  Recursion is structural or has a measure wherever the loop has one.  Fuel remains in
  \<open>bitvec_set\<close> (5 levels: vectors of fewer than \<open>2 ^ 32\<close> bits nest at most 4 deep, since \<open>3968 * 62 ^ 4\<close> exceeds \<open>2 ^ 32\<close>), in its probes
  (124, the slots of a table), in the walks of \<^verbatim>\<open>Hashtab\<close> (the element count) and in the loop over the 32 log
  sources; that it suffices is part of the theorems, whose results are \<open>Some\<close>.  Sorting a row set
  assumes fewer than \<open>2 ^ 40\<close> entries, the capacity of its 40 slots.

  \<^bold>\<open>Not modelled.\<close>  The SQL engine proper (parser, code generator, virtual machine, b-tree and pager algorithms, full-text
  and JSON extensions) except for the routines named above; \<open>sqlcipher_codec_ctx_migrate\<close> and \<open>sqlcipher_exportFunc\<close>, which
  are sequences of SQL statements; locking of memory against swapping and the text written to logs, which
  no result depends on; mutexes, as every modelled operation runs under the connection's; the built-in self-tests.  The
  headers only declare what the C file defines or belong to the Swift, Objective-C and Rust parts, which
  are other languages.

  \<^bold>\<open>Beyond this.\<close>  What would come next are the numbers in memory cells (with floating point), statement completeness (\<^verbatim>\<open>complete.c\<close>) and
  the page cache (\<^verbatim>\<open>pcache1.c\<close>).
\<close>

end
